(* ===== verification/Js_Number.thy ===== *)
theory Js_Number
  imports Complex_Main
begin

text \<open>
  The numbers of the modelled programs.  A JavaScript \<open>number\<close> is an exact rational, one of
  the two infinities or \<open>NaN\<close>; a number-typed field that was never written reads as
  \<open>undefined\<close>, which every arithmetic operator turns into \<open>NaN\<close> and every ordering
  comparison rejects.  The operators \<open>+ - * /\<close> and the comparisons are instances of the
  library's syntactic classes, so that the formulas of the model read like the source.

  Two things of IEEE 754 are left out: finite results are not rounded to 53 bits, and there is
  one zero.  Comparisons of stored values are exact in either reading, and no
  expression of the modelled sources divides by a value that can be a negative zero.
\<close>

named_theorems js_num_simps \<open>evaluation of the arithmetic of JavaScript numbers\<close>

subsection \<open>Values and operators\<close>

datatype js_num = Num rat | PInf | NInf | NaN | Undef

instantiation js_num :: "{zero, one, plus, minus, uminus, times, inverse, ord}"
begin

definition zero_js_num :: js_num where
  "0 = Num 0"

definition one_js_num :: js_num where
  "1 = Num 1"

fun plus_js_num :: "js_num \<Rightarrow> js_num \<Rightarrow> js_num" where
  "plus_js_num (Num a) (Num b) = Num (a + b)"
| "plus_js_num PInf (Num _) = PInf"
| "plus_js_num PInf PInf = PInf"
| "plus_js_num (Num _) PInf = PInf"
| "plus_js_num NInf (Num _) = NInf"
| "plus_js_num NInf NInf = NInf"
| "plus_js_num (Num _) NInf = NInf"
| "plus_js_num _ _ = NaN"

fun uminus_js_num :: "js_num \<Rightarrow> js_num" where
  "uminus_js_num (Num a) = Num (- a)"
| "uminus_js_num PInf = NInf"
| "uminus_js_num NInf = PInf"
| "uminus_js_num _ = NaN"

definition minus_js_num :: "js_num \<Rightarrow> js_num \<Rightarrow> js_num" where
  "x - y = x + (- y :: js_num)"

definition signed_inf :: "rat \<Rightarrow> js_num" where
  "signed_inf s = (if 0 < s then PInf else if s < 0 then NInf else NaN)"

fun times_js_num :: "js_num \<Rightarrow> js_num \<Rightarrow> js_num" where
  "times_js_num (Num a) (Num b) = Num (a * b)"
| "times_js_num PInf (Num b) = signed_inf b"
| "times_js_num (Num a) PInf = signed_inf a"
| "times_js_num NInf (Num b) = signed_inf (- b)"
| "times_js_num (Num a) NInf = signed_inf (- a)"
| "times_js_num PInf PInf = PInf"
| "times_js_num NInf NInf = PInf"
| "times_js_num PInf NInf = NInf"
| "times_js_num NInf PInf = NInf"
| "times_js_num _ _ = NaN"

fun divide_js_num :: "js_num \<Rightarrow> js_num \<Rightarrow> js_num" where
  "divide_js_num (Num a) (Num b) = (if b = 0 then signed_inf a else Num (a / b))"
| "divide_js_num PInf (Num b) = (if 0 \<le> b then PInf else NInf)"
| "divide_js_num NInf (Num b) = (if 0 \<le> b then NInf else PInf)"
| "divide_js_num (Num _) PInf = Num 0"
| "divide_js_num (Num _) NInf = Num 0"
| "divide_js_num _ _ = NaN"

definition inverse_js_num :: "js_num \<Rightarrow> js_num" where
  "inverse_js_num x = Num 1 div x"

fun less_js_num :: "js_num \<Rightarrow> js_num \<Rightarrow> bool" where
  "less_js_num (Num a) (Num b) = (a < b)"
| "less_js_num (Num _) PInf = True"
| "less_js_num NInf (Num _) = True"
| "less_js_num NInf PInf = True"
| "less_js_num _ _ = False"

fun less_eq_js_num :: "js_num \<Rightarrow> js_num \<Rightarrow> bool" where
  "less_eq_js_num (Num a) (Num b) = (a \<le> b)"
| "less_eq_js_num (Num _) PInf = True"
| "less_eq_js_num PInf PInf = True"
| "less_eq_js_num NInf (Num _) = True"
| "less_eq_js_num NInf PInf = True"
| "less_eq_js_num NInf NInf = True"
| "less_eq_js_num _ _ = False"

instance ..

end

text \<open>Addition is associative also on the special values, which gives numerals.\<close>

lemma js_add_assoc: "(a + b) + c = a + (b + c :: js_num)"
  by (cases a; cases b; cases c; simp)

instance js_num :: semigroup_add
  by standard (rule js_add_assoc)

instance js_num :: numeral ..

lemma numeral_js_num [js_num_simps]: "(numeral n :: js_num) = Num (numeral n)"
proof (induction n)
  case One
  show ?case by (simp only: numeral.simps one_js_num_def)
next
  case (Bit0 n)
  then show ?case by (simp only: numeral.simps plus_js_num.simps)
next
  case (Bit1 n)
  then show ?case by (simp only: numeral.simps plus_js_num.simps one_js_num_def)
qed

lemmas js_const_simps [js_num_simps] = zero_js_num_def one_js_num_def

lemma minus_Num [simp]: "Num a - Num b = Num (a - b)"
  by (simp add: minus_js_num_def)

lemma minus_NaN [simp]:
  "NaN - x = NaN" "x - NaN = NaN" "Undef - x = NaN" "x - Undef = NaN"
  by (cases x; simp add: minus_js_num_def)+

lemma times_Undef [simp]: "Undef * x = NaN" "x * Undef = NaN" "NaN * x = NaN" "x * NaN = NaN"
  by (cases x; simp)+

lemma not_less_NaN [simp]:
  "\<not> NaN < x" "\<not> x < NaN" "\<not> Undef < x" "\<not> x < Undef"
  "\<not> NaN \<le> x" "\<not> x \<le> NaN" "\<not> Undef \<le> x" "\<not> x \<le> Undef"
  by (cases x; simp)+

subsection \<open>Finite numbers\<close>

fun is_finite_num :: "js_num \<Rightarrow> bool" where
  "is_finite_num (Num _) = True"
| "is_finite_num _ = False"

primrec val :: "js_num \<Rightarrow> rat" where
  "val (Num a) = a"
| "val PInf = 0"
| "val NInf = 0"
| "val NaN = 0"
| "val Undef = 0"

lemma finite_numE [elim]:
  assumes "is_finite_num x"
  obtains a where "x = Num a"
  using assms by (cases x) auto

lemma finite_num_iff: "is_finite_num x \<longleftrightarrow> x = Num (val x)"
  by (cases x) auto

lemma finite_arith [simp]:
  assumes "is_finite_num x" "is_finite_num y"
  shows "is_finite_num (x + y)" "is_finite_num (x - y)" "is_finite_num (x * y)"
  using assms by (auto elim!: finite_numE)

lemma finite_divide [simp]:
  assumes "is_finite_num x" "is_finite_num y" "val y \<noteq> 0"
  shows "is_finite_num (x / y)"
  using assms by (auto elim!: finite_numE)

lemma val_arith [simp]:
  assumes "is_finite_num x" "is_finite_num y"
  shows "val (x + y) = val x + val y" "val (x - y) = val x - val y"
    "val (x * y) = val x * val y"
  using assms by (auto elim!: finite_numE)

lemma val_divide [simp]:
  assumes "is_finite_num x" "is_finite_num y" "val y \<noteq> 0"
  shows "val (x / y) = val x / val y"
  using assms by (auto elim!: finite_numE)

lemma finite_less_iff:
  assumes "is_finite_num x" "is_finite_num y"
  shows "x < y \<longleftrightarrow> val x < val y" and "x \<le> y \<longleftrightarrow> val x \<le> val y"
  using assms by (auto elim!: finite_numE)

lemma finite_const [simp]:
  "is_finite_num 0" "is_finite_num 1" "is_finite_num (numeral n)"
  "val 0 = 0" "val 1 = 1" "val (numeral n) = numeral n"
  by (simp_all add: js_num_simps)

text \<open>Subtraction decides the order of two numbers, for every value that is not an infinity.\<close>

lemma sub_pos_iff_less: "is_finite_num a \<Longrightarrow> is_finite_num b \<Longrightarrow> 0 < a - b \<longleftrightarrow> b < a"
  by (auto simp: js_num_simps elim!: finite_numE)

subsection \<open>The functions of \<open>Math\<close> and \<open>Number\<close> the sources use\<close>

fun js_abs :: "js_num \<Rightarrow> js_num" where
  "js_abs (Num a) = Num \<bar>a\<bar>"
| "js_abs PInf = PInf"
| "js_abs NInf = PInf"
| "js_abs _ = NaN"

fun js_floor :: "js_num \<Rightarrow> js_num" where
  "js_floor (Num a) = Num (of_int \<lfloor>a\<rfloor>)"
| "js_floor Undef = NaN"
| "js_floor x = x"

fun js_ceil :: "js_num \<Rightarrow> js_num" where
  "js_ceil (Num a) = Num (of_int \<lceil>a\<rceil>)"
| "js_ceil Undef = NaN"
| "js_ceil x = x"

definition js_round :: "js_num \<Rightarrow> js_num" where
  \<comment> \<open>\<open>Math.round\<close> rounds halves up\<close>
  "js_round x = js_floor (x + Num (1 / 2))"

definition js_max2 :: "js_num \<Rightarrow> js_num \<Rightarrow> js_num" where
  "js_max2 x y =
     (if x \<in> {NaN, Undef} \<or> y \<in> {NaN, Undef} then NaN else if x < y then y else x)"

definition js_max :: "js_num list \<Rightarrow> js_num" where
  \<comment> \<open>\<open>Math.max(...xs)\<close>; \<open>-Infinity\<close> when called with no argument\<close>
  "js_max xs = fold js_max2 xs NInf"

definition js_strict_eq :: "js_num \<Rightarrow> js_num \<Rightarrow> bool" where
  \<comment> \<open>\<open>===\<close>: \<open>NaN\<close> differs from itself\<close>
  "js_strict_eq x y \<longleftrightarrow> x \<noteq> NaN \<and> x = y"

definition max_value :: js_num where
  "max_value = Num ((2 - 1 / 2 ^ 52) * 2 ^ 1023)"

definition min_value :: js_num where
  \<comment> \<open>\<open>Number.MIN_VALUE\<close>, the least \<^emph>\<open>positive\<close> number\<close>
  "min_value = Num (1 / 2 ^ 1074)"

abbreviation of_nat_num :: "nat \<Rightarrow> js_num" where
  "of_nat_num n \<equiv> Num (of_nat n)"

abbreviation of_int_num :: "int \<Rightarrow> js_num" where
  "of_int_num n \<equiv> Num (of_int n)"

end
