(* ===== verification/Js_Collections.thy ===== *)
theory Js_Collections
  imports Js_Number "HOL-Library.AList" "HOL-Library.Multiset"
    "HOL-Library.List_Lexorder" "HOL-Library.Char_ord"
begin

text \<open>
  Errors, arrays and maps of JavaScript.  An exception is a value of \<open>js_error\<close>, carried in
  the left summand of a result.  \<open>Array.prototype.sort\<close> with a comparison function is a stable
  insertion sort; the language fixes its result whenever the comparison is consistent, and the
  lemmas below identify it with the library's \<^const>\<open>sort_key\<close> for the numeric
  comparisons of the sources.  A \<open>Map\<close> keeps its keys in insertion order and is an
  association list, presented to its clients through the locale \<open>ordered_map\<close>.
\<close>

subsection \<open>Errors\<close>

datatype js_error = Throw string | TypeError | ReferenceError string

type_synonym 'a js_result = "js_error + 'a"

definition bind_result :: "'a js_result \<Rightarrow> ('a \<Rightarrow> 'b js_result) \<Rightarrow> 'b js_result" where
  "bind_result r f = (case r of Inl e \<Rightarrow> Inl e | Inr x \<Rightarrow> f x)"

lemma bind_result_simps [simp]:
  "bind_result (Inl e) f = Inl e" "bind_result (Inr x) f = f x"
  by (simp_all add: bind_result_def)

lemma bind_result_Inr_iff: "bind_result r f = Inr y \<longleftrightarrow> (\<exists>x. r = Inr x \<and> f x = Inr y)"
  by (cases r) auto

subsection \<open>Arrays\<close>

definition js_nth :: "'a list \<Rightarrow> nat \<Rightarrow> 'a option" where
  \<comment> \<open>reading an array out of range gives \<open>undefined\<close>\<close>
  "js_nth xs i = (if i < length xs then Some (xs ! i) else None)"

lemma js_nth_simps:
  "i < length xs \<Longrightarrow> js_nth xs i = Some (xs ! i)"
  "length xs \<le> i \<Longrightarrow> js_nth xs i = None"
  by (simp_all add: js_nth_def)

fun js_insert :: "('a \<Rightarrow> 'a \<Rightarrow> js_num) \<Rightarrow> 'a \<Rightarrow> 'a list \<Rightarrow> 'a list" where
  "js_insert cmp x [] = [x]"
| "js_insert cmp x (y # ys) =
     (if 0 < cmp x y then y # js_insert cmp x ys else x # y # ys)"

fun js_sort :: "('a \<Rightarrow> 'a \<Rightarrow> js_num) \<Rightarrow> 'a list \<Rightarrow> 'a list" where
  "js_sort cmp [] = []"
| "js_sort cmp (x # xs) = js_insert cmp x (js_sort cmp xs)"

lemma mset_js_insert [simp]: "mset (js_insert cmp x xs) = add_mset x (mset xs)"
  by (induction xs) auto

lemma mset_js_sort [simp]: "mset (js_sort cmp xs) = mset xs"
  by (induction xs) auto

lemma set_js_sort [simp]: "set (js_sort cmp xs) = set xs"
  by (metis mset_js_sort set_mset_mset)

lemma length_js_sort [simp]: "length (js_sort cmp xs) = length xs"
  by (metis mset_js_sort size_mset)

lemma distinct_js_sort [simp]: "distinct (js_sort cmp xs) \<longleftrightarrow> distinct xs"
  by (metis mset_js_sort mset_eq_imp_distinct_iff)

text \<open>Comparison by the difference of a finite numeric key.\<close>

lemma js_insert_key:
  assumes "is_finite_num (key x)" "\<And>y. y \<in> set ys \<Longrightarrow> is_finite_num (key y)"
  shows "js_insert (\<lambda>a b. key a - key b) x ys = insort_key (\<lambda>a. val (key a)) x ys"
  using assms by (induction ys) (auto simp: sub_pos_iff_less finite_less_iff)

lemma js_sort_key:
  assumes "\<And>y. y \<in> set ys \<Longrightarrow> is_finite_num (key y)"
  shows "js_sort (\<lambda>a b. key a - key b) ys = sort_key (\<lambda>a. val (key a)) ys"
  using assms
proof (induction ys)
  case (Cons y ys)
  then show ?case using js_insert_key [of key y "sort_key (\<lambda>a. val (key a)) ys"] by simp
qed simp

lemma sorted_wrt_sort_key: "sorted_wrt (\<lambda>x y. f x \<le> f y) (sort_key f xs)"
  using sorted_sort_key [of f xs] by (simp add: sorted_map)

lemma sorted_wrt_pair: "sorted_wrt P xs \<Longrightarrow> a \<in> set xs \<Longrightarrow> b \<in> set xs \<Longrightarrow> a \<noteq> b \<Longrightarrow> P a b \<or> P b a"
  by (induction xs) auto

subsection \<open>Insertion-ordered maps\<close>

locale ordered_map =
  fixes get :: "'m \<Rightarrow> 'k \<Rightarrow> 'v option"
    and put :: "'k \<Rightarrow> 'v \<Rightarrow> 'm \<Rightarrow> 'm"
    and del :: "'k \<Rightarrow> 'm \<Rightarrow> 'm"
    and keys :: "'m \<Rightarrow> 'k list"
    and invar :: "'m \<Rightarrow> bool"
  assumes get_put: "get (put k v m) = (get m)(k \<mapsto> v)"
    and get_del: "get (del k m) = (get m)(k := None)"
    and keys_put: "keys (put k v m) = (if k \<in> set (keys m) then keys m else keys m @ [k])"
    and keys_del: "keys (del k m) = filter (\<lambda>x. x \<noteq> k) (keys m)"
    and keys_dom: "set (keys m) = dom (get m)"
    and invar_distinct: "invar m \<longleftrightarrow> distinct (keys m)"
begin

lemma invar_put: "invar m \<Longrightarrow> invar (put k v m)"
  by (simp add: invar_distinct keys_put)

lemma invar_del: "invar m \<Longrightarrow> invar (del k m)"
  by (simp add: invar_distinct keys_del)

lemma get_None_iff: "get m k = None \<longleftrightarrow> k \<notin> set (keys m)"
  by (auto simp: keys_dom)

lemma size_put_new:
  "get m k = None \<Longrightarrow> length (keys (put k v m)) = Suc (length (keys m))"
  by (simp add: keys_put get_None_iff)

lemma size_put_old: "get m k = Some w \<Longrightarrow> keys (put k v m) = keys m"
  by (metis get_None_iff keys_put option.distinct(1))

lemma fold_put_keys_mono:
  "set (keys m) \<subseteq> set (keys (fold (\<lambda>x. put (f x) (g x)) xs m))"
proof (induction xs arbitrary: m)
  case (Cons x xs)
  have "set (keys m) \<subseteq> set (keys (put (f x) (g x) m))"
    by (auto simp: keys_put)
  with Cons.IH [of "put (f x) (g x) m"] show ?case by auto
qed simp

end

type_synonym ('k, 'v) js_map = "('k \<times> 'v) list"

abbreviation map_get :: "('k, 'v) js_map \<Rightarrow> 'k \<Rightarrow> 'v option" where
  "map_get \<equiv> map_of"

abbreviation map_set :: "'k \<Rightarrow> 'v \<Rightarrow> ('k, 'v) js_map \<Rightarrow> ('k, 'v) js_map" where
  "map_set \<equiv> AList.update"

abbreviation map_delete :: "'k \<Rightarrow> ('k, 'v) js_map \<Rightarrow> ('k, 'v) js_map" where
  "map_delete \<equiv> AList.delete"

abbreviation map_keys :: "('k, 'v) js_map \<Rightarrow> 'k list" where
  "map_keys m \<equiv> map fst m"

abbreviation map_ok :: "('k, 'v) js_map \<Rightarrow> bool" where
  "map_ok m \<equiv> distinct (map fst m)"

lemma keys_update_js: "map fst (AList.update k v m) =
    (if k \<in> set (map fst m) then map fst m else map fst m @ [k])"
  by (induction m) auto

lemma keys_delete_js: "map fst (AList.delete k m) = filter (\<lambda>x. x \<noteq> k) (map fst m)"
  by (simp add: AList.delete_eq filter_map o_def) (metis (mono_tags) case_prod_unfold)

interpretation jm: ordered_map map_get map_set map_delete map_keys map_ok
  by unfold_locales
    (simp_all add: update_conv' delete_conv' keys_update_js keys_delete_js dom_map_of_conv_image_fst)

subsection \<open>Objects used as maps\<close>

definition object_prototype_keys :: "string list" where
  \<comment> \<open>names that every object literal inherits: looking one up gives a truthy value that is no task\<close>
  "object_prototype_keys =
     [''constructor'', ''toString'', ''toLocaleString'', ''valueOf'', ''hasOwnProperty'',
      ''isPrototypeOf'', ''propertyIsEnumerable'', ''__proto__'', ''__defineGetter__'',
      ''__defineSetter__'', ''__lookupGetter__'', ''__lookupSetter__'']"

subsection \<open>Strings\<close>

fun split_on :: "char \<Rightarrow> string \<Rightarrow> string list" where
  \<comment> \<open>\<open>s.split(c)\<close> for a separator of one character\<close>
  "split_on c [] = [[]]"
| "split_on c (x # xs) =
     (if x = c then [] # split_on c xs
      else (case split_on c xs of [] \<Rightarrow> [[x]] | t # ts \<Rightarrow> (x # t) # ts))"

fun join_with :: "string \<Rightarrow> string list \<Rightarrow> string" where
  "join_with sep [] = []"
| "join_with sep [s] = s"
| "join_with sep (s # t # ts) = s @ sep @ join_with sep (t # ts)"

lemma split_on_ne [simp]: "split_on c s \<noteq> []"
  by (induction s) (auto split: list.splits)

lemma join_split: "join_with [c] (split_on c s) = s"
proof (induction s)
  case (Cons x xs)
  then show ?case by (cases "split_on c xs" rule: list.exhaust; cases "tl (split_on c xs)") auto
qed simp

lemma split_on_append: "c \<notin> set s \<Longrightarrow> split_on c (s @ c # t) = s # split_on c t"
  by (induction s) auto

lemma split_on_atom: "c \<notin> set s \<Longrightarrow> split_on c s = [s]"
  by (induction s) auto

lemma split_on_tokens: "t \<in> set (split_on c s) \<Longrightarrow> c \<notin> set t"
proof (induction s arbitrary: t)
  case (Cons x xs)
  then show ?case by (cases "split_on c xs") (auto split: if_splits)
qed simp

lemma split_join:
  "ts \<noteq> [] \<Longrightarrow> (\<And>t. t \<in> set ts \<Longrightarrow> c \<notin> set t) \<Longrightarrow> split_on c (join_with [c] ts) = ts"
  by (induction "[c]" ts rule: join_with.induct) (auto simp: split_on_append split_on_atom)

end
