(* ===== verification/Task_Model.thy ===== *)
theory Task_Model
  imports Js_Collections
begin

text \<open>
  The data of \<open>daisen/static/src/task.ts\<close>.  Task objects are shared between the arrays that
  hold them and are updated in place, so an object is a reference into a store and the arrays
  are lists of references.
\<close>

type_synonym ref = nat

record dim =
  dim_x :: js_num
  dim_y :: js_num
  dim_width :: js_num
  dim_height :: js_num
  dim_startTime :: js_num
  dim_endTime :: js_num

record task =
  task_id :: string
  parent_id :: string
  kind :: string
  what :: string
  location :: string \<comment> \<open>the field \<open>where\<close>\<close>
  start_time :: js_num
  end_time :: js_num
  subTasks :: "ref list"
  level :: js_num
  dim_of :: "dim option" \<comment> \<open>the field \<open>dim\<close>; \<open>None\<close> is \<open>undefined\<close>\<close>
  isMainTask :: bool
  isParentTask :: bool
  yIndex :: js_num

type_synonym store = "ref \<Rightarrow> task"

definition new_task :: task where
  \<comment> \<open>\<open>new Task()\<close>: every field is \<open>undefined\<close>\<close>
  "new_task =
     \<lparr> task_id = [], parent_id = [], kind = [], what = [], location = [],
       start_time = Undef, end_time = Undef, subTasks = [], level = Undef, dim_of = None,
       isMainTask = False, isParentTask = False, yIndex = Undef \<rparr>"

definition trace_task :: "string \<Rightarrow> string \<Rightarrow> rat \<Rightarrow> rat \<Rightarrow> task" where
  \<comment> \<open>a task as the trace server sends it, with the fields the views compute still unset\<close>
  "trace_task i p s e = new_task\<lparr> task_id := i, parent_id := p, start_time := Num s, end_time := Num e \<rparr>"

text \<open>A task whose times are finite, and one that also takes time.\<close>

definition timed :: "task \<Rightarrow> bool" where
  "timed t \<longleftrightarrow> is_finite_num (start_time t) \<and> is_finite_num (end_time t)"

definition lasting :: "task \<Rightarrow> bool" where
  "lasting t \<longleftrightarrow> timed t \<and> start_time t < end_time t"

definition active_at :: "rat \<Rightarrow> task \<Rightarrow> bool" where
  "active_at \<tau> t \<longleftrightarrow> start_time t \<le> Num \<tau> \<and> Num \<tau> < end_time t"

lemma lastingE [elim]:
  assumes "lasting t"
  obtains s e where "start_time t = Num s" "end_time t = Num e" "s < e"
  using assms by (cases "start_time t"; cases "end_time t") (auto simp: lasting_def timed_def)

lemma lasting_timed [dest]: "lasting t \<Longrightarrow> timed t"
  by (simp add: lasting_def)

lemma trace_task_simps [simp]:
  "task_id (trace_task i p s e) = i" "parent_id (trace_task i p s e) = p"
  "start_time (trace_task i p s e) = Num s" "end_time (trace_task i p s e) = Num e"
  "subTasks (trace_task i p s e) = []" "level (trace_task i p s e) = Undef"
  "yIndex (trace_task i p s e) = Undef" "dim_of (trace_task i p s e) = None"
  "isMainTask (trace_task i p s e) = False" "isParentTask (trace_task i p s e) = False"
  "timed (trace_task i p s e)" "lasting (trace_task i p s e) \<longleftrightarrow> s < e"
  by (simp_all add: trace_task_def new_task_def timed_def lasting_def)

end
