(* ===== verification/Y_Index.thy ===== *)
theory Y_Index
  imports Task_Model
begin

text \<open>
  \<open>daisen/static/src/taskyindexassigner.js\<close>: the rows of a task bar chart.  Tasks are taken
  in the order of their start times and each goes to the first row in which it conflicts with
  no earlier task.  The search for a row always ends, the internal consistency error is never
  thrown, tasks that share a row do not overlap in time, and the number of rows is the least
  possible: the greatest number of tasks that are active at one instant.
\<close>

subsection \<open>The operations\<close>

definition conflict :: "task \<Rightarrow> task \<Rightarrow> bool" where
  \<comment> \<open>the body of the loop of \<open>_hasConflictWithAssignment\<close>: \<open>t\<close> is in the row, \<open>task\<close> is new\<close>
  "conflict t task \<longleftrightarrow>
     (start_time t \<le> start_time task \<and> end_time t > start_time task) \<or>
     (start_time t < end_time task \<and> end_time t \<ge> end_time task) \<or>
     (start_time task \<le> start_time t \<and> end_time task \<ge> end_time t) \<or>
     (start_time task \<ge> start_time t \<and> end_time task \<le> end_time t)"

fun conflict_in_row :: "store \<Rightarrow> task \<Rightarrow> ref list \<Rightarrow> bool" where
  "conflict_in_row h task [] = False"
| "conflict_in_row h task (t # ts) = (if conflict (h t) task then True else conflict_in_row h task ts)"

definition hasConflictWithAssignment :: "store \<Rightarrow> ref \<Rightarrow> ref list option \<Rightarrow> bool" where
  "hasConflictWithAssignment h task row =
     (case row of None \<Rightarrow> False | Some ts \<Rightarrow> conflict_in_row h (h task) ts)"

text \<open>The \<open>while (true)\<close> search ends at the latest one past the last row, which is undefined.\<close>

function free_row :: "store \<Rightarrow> ref \<Rightarrow> ref list list \<Rightarrow> nat \<Rightarrow> nat" where
  "free_row h t assignment index =
     (if \<not> hasConflictWithAssignment h t (js_nth assignment index) then index
      else free_row h t assignment (index + 1))"
  by pat_completeness auto
termination
  by (relation "measure (\<lambda>(h, t, assignment, index). length assignment - index)")
    (auto simp: hasConflictWithAssignment_def js_nth_def split: if_splits)

declare free_row.simps [simp del]

definition assignYIndexToOneTask ::
    "store \<Rightarrow> ref \<Rightarrow> nat \<Rightarrow> ref list list \<Rightarrow> (store \<times> ref list list) js_result" where
  "assignYIndexToOneTask h task index assignment =
     (if length assignment < index then Inl (Throw ''Something's wrong :)'')
      else
        let rows = (if length assignment = index then assignment @ [[]] else assignment)
        in Inr (h(task := (h task)\<lparr>yIndex := of_nat_num index\<rparr>),
                rows[index := rows ! index @ [task]]))"

fun assign_each ::
    "store \<Rightarrow> ref list \<Rightarrow> ref list list \<Rightarrow> nat \<Rightarrow> (store \<times> ref list list \<times> nat) js_result" where
  "assign_each h [] assignment maxYIndex = Inr (h, assignment, maxYIndex)"
| "assign_each h (t # ts) assignment maxYIndex =
     (let index = free_row h t assignment 0 in
      bind_result (assignYIndexToOneTask h t index assignment) (\<lambda>(h', assignment').
        assign_each h' ts assignment' (if index > maxYIndex then index else maxYIndex)))"

definition sort_by_start :: "store \<Rightarrow> ref list \<Rightarrow> ref list" where
  "sort_by_start h tasks = js_sort (\<lambda>a b. start_time (h a) - start_time (h b)) tasks"

definition assignYIndex :: "store \<Rightarrow> ref list \<Rightarrow> (store \<times> ref list \<times> nat) js_result" where
  \<comment> \<open>the array is sorted in place, so its new order is part of the result\<close>
  "assignYIndex h tasks =
     (let sorted = sort_by_start h tasks in
      bind_result (assign_each h sorted [] 0) (\<lambda>(h', _, maxYIndex). Inr (h', sorted, maxYIndex)))"

definition assign :: "store \<Rightarrow> ref list \<Rightarrow> (store \<times> ref list \<times> nat) js_result" where
  "assign h tasks = assignYIndex h tasks"

subsection \<open>The row search\<close>

lemma conflict_in_row_iff: "conflict_in_row h task ts \<longleftrightarrow> (\<exists>a \<in> set ts. conflict (h a) task)"
  by (induction ts) auto

lemma hasConflict_iff:
  "hasConflictWithAssignment h t (js_nth rows i) \<longleftrightarrow>
     i < length rows \<and> (\<exists>a \<in> set (rows ! i). conflict (h a) (h t))"
  by (simp add: hasConflictWithAssignment_def js_nth_def conflict_in_row_iff)

lemma free_row_spec:
  assumes "i \<le> length rows"
  shows "i \<le> free_row h t rows i \<and> free_row h t rows i \<le> length rows \<and>
    \<not> hasConflictWithAssignment h t (js_nth rows (free_row h t rows i)) \<and>
    (\<forall>j. i \<le> j \<and> j < free_row h t rows i \<longrightarrow> hasConflictWithAssignment h t (js_nth rows j))"
  using assms
proof (induction h t rows i rule: free_row.induct)
  case (1 h t rows i)
  show ?case
  proof (cases "hasConflictWithAssignment h t (js_nth rows i)")
    case False
    then show ?thesis using "1.prems" by (auto simp: free_row.simps [of h t rows i])
  next
    case True
    then have "i + 1 \<le> length rows" by (simp add: hasConflict_iff)
    from "1.IH" [OF _ this] True
    have IH: "i + 1 \<le> free_row h t rows (i + 1)" "free_row h t rows (i + 1) \<le> length rows"
      "\<not> hasConflictWithAssignment h t (js_nth rows (free_row h t rows (i + 1)))"
      "\<forall>j. i + 1 \<le> j \<and> j < free_row h t rows (i + 1) \<longrightarrow> hasConflictWithAssignment h t (js_nth rows j)"
      by simp_all
    have eq: "free_row h t rows i = free_row h t rows (i + 1)"
      using True by (simp add: free_row.simps [of h t rows i])
    show ?thesis unfolding eq
      using IH True by (metis Suc_eq_plus1 Suc_leD le_antisym not_less_eq_eq)
  qed
qed

lemmas free_row_le = free_row_spec [OF le0, THEN conjunct2, THEN conjunct1]
lemmas free_row_free =
  free_row_spec [OF le0, THEN conjunct2, THEN conjunct2, THEN conjunct1]
lemmas free_row_first =
  free_row_spec [OF le0, THEN conjunct2, THEN conjunct2, THEN conjunct2, rule_format]

subsection \<open>The invariant of the assignment loop\<close>

text \<open>
  After the tasks \<open>done\<close>: only row indices were written, row \<open>i\<close> lists the tasks
  with index \<open>i\<close> in the order they came, no task conflicts with an earlier one of its row,
  and each task was kept out of every lower row by a conflict.
\<close>

definition only_rows_written :: "store \<Rightarrow> store \<Rightarrow> ref list \<Rightarrow> bool" where
  "only_rows_written h0 h ts \<longleftrightarrow>
     (\<forall>r. h r = (h0 r)\<lparr>yIndex := yIndex (h r)\<rparr>) \<and> (\<forall>r. r \<notin> set ts \<longrightarrow> h r = h0 r)"

definition first_fit :: "store \<Rightarrow> store \<Rightarrow> ref list \<Rightarrow> bool" where
  "first_fit h0 h ts \<longleftrightarrow>
     (\<forall>xs t ys i j. ts = xs @ t # ys \<and> yIndex (h t) = of_nat_num i \<and> j < i \<longrightarrow>
        (\<exists>a \<in> set xs. yIndex (h a) = of_nat_num j \<and> conflict (h0 a) (h0 t)))"

definition row_inv :: "store \<Rightarrow> store \<Rightarrow> ref list \<Rightarrow> ref list list \<Rightarrow> nat \<Rightarrow> bool" where
  "row_inv h0 h done rows m \<longleftrightarrow>
     only_rows_written h0 h done \<and>
     (\<forall>i < length rows. rows ! i = filter (\<lambda>t. yIndex (h t) = of_nat_num i) done) \<and>
     (\<forall>t \<in> set done. \<exists>i < length rows. yIndex (h t) = of_nat_num i) \<and>
     (\<forall>i < length rows. rows ! i \<noteq> []) \<and>
     length rows = (if done = [] then 0 else Suc m) \<and> (done = [] \<longrightarrow> m = 0) \<and>
     (\<forall>i < length rows. sorted_wrt (\<lambda>a b. \<not> conflict (h0 a) (h0 b)) (rows ! i)) \<and>
     first_fit h0 h done"

lemma only_rows_writtenD:
  assumes "only_rows_written h0 h ts"
  shows "start_time (h r) = start_time (h0 r)" "end_time (h r) = end_time (h0 r)"
    "task_id (h r) = task_id (h0 r)" "parent_id (h r) = parent_id (h0 r)"
    "subTasks (h r) = subTasks (h0 r)" "level (h r) = level (h0 r)" "dim_of (h r) = dim_of (h0 r)"
proof -
  have "h r = (h0 r)\<lparr>yIndex := yIndex (h r)\<rparr>"
    using assms by (auto simp: only_rows_written_def)
  from this [THEN arg_cong, of start_time] this [THEN arg_cong, of end_time]
    this [THEN arg_cong, of task_id] this [THEN arg_cong, of parent_id]
    this [THEN arg_cong, of subTasks] this [THEN arg_cong, of level]
    this [THEN arg_cong, of dim_of]
  show "start_time (h r) = start_time (h0 r)" "end_time (h r) = end_time (h0 r)"
    "task_id (h r) = task_id (h0 r)" "parent_id (h r) = parent_id (h0 r)"
    "subTasks (h r) = subTasks (h0 r)" "level (h r) = level (h0 r)" "dim_of (h r) = dim_of (h0 r)"
    by simp_all
qed

lemma conflict_frame: "only_rows_written h0 h ts \<Longrightarrow> conflict (h a) (h b) = conflict (h0 a) (h0 b)"
  by (simp add: conflict_def only_rows_writtenD)

lemma row_inv_Nil: "row_inv h h [] [] 0"
  by (simp add: row_inv_def only_rows_written_def first_fit_def)

lemma only_rows_written_step:
  assumes "only_rows_written h0 h done"
  shows "only_rows_written h0 (h(t := (h t)\<lparr>yIndex := k\<rparr>)) (done @ [t])"
  using assms by (auto simp: only_rows_written_def) (metis task.surjective task.update_convs(13))+

lemma first_fit_step:
  assumes ff: "first_fit h0 h done" and new: "t \<notin> set done"
    and low: "\<And>j. j < k \<Longrightarrow> \<exists>a \<in> set done. yIndex (h a) = of_nat_num j \<and> conflict (h0 a) (h0 t)"
  shows "first_fit h0 (h(t := (h t)\<lparr>yIndex := of_nat_num k\<rparr>)) (done @ [t])"
  unfolding first_fit_def
proof (intro allI impI, elim conjE)
  fix xs s ys i j
  let ?h = "h(t := (h t)\<lparr>yIndex := of_nat_num k\<rparr>)"
  assume eq: "done @ [t] = xs @ s # ys" and i: "yIndex (?h s) = of_nat_num i" and j: "j < i"
  show "\<exists>a \<in> set xs. yIndex (?h a) = of_nat_num j \<and> conflict (h0 a) (h0 s)"
  proof (cases ys rule: rev_cases)
    case Nil
    with eq have "xs = done" "s = t" by auto
    with i have "i = k" by simp
    with j low [of j] new \<open>xs = done\<close> \<open>s = t\<close> show ?thesis by (metis fun_upd_other)
  next
    case (snoc zs z)
    with eq have d: "done = xs @ s # zs" by auto
    with new have "t \<notin> set xs" "s \<noteq> t" by auto
    moreover from ff d i j \<open>s \<noteq> t\<close>
    have "\<exists>a \<in> set xs. yIndex (h a) = of_nat_num j \<and> conflict (h0 a) (h0 s)"
      unfolding first_fit_def by auto
    ultimately show ?thesis by (metis fun_upd_other)
  qed
qed

lemma of_nat_num_eq [simp]: "(of_nat_num i = of_nat_num j) = (i = j)"
  by simp

lemma row_inv_step:
  assumes inv: "row_inv h0 h done rows m" and new: "t \<notin> set done"
    and k: "k = free_row h t rows 0"
    and rows': "rows' = (if length rows = k then rows @ [[]] else rows)"
  shows "row_inv h0 (h(t := (h t)\<lparr>yIndex := of_nat_num k\<rparr>)) (done @ [t])
           (rows'[k := rows' ! k @ [t]]) (if k > m then k else m)"
proof -
  let ?h = "h(t := (h t)\<lparr>yIndex := of_nat_num k\<rparr>)"
  let ?rows = "rows'[k := rows' ! k @ [t]]"
  have frame: "only_rows_written h0 h done" using inv by (simp add: row_inv_def)
  have kle: "k \<le> length rows" using k free_row_le by simp
  have klt: "k < length rows'" using kle rows' by auto
  have low: "\<exists>a \<in> set done. yIndex (h a) = of_nat_num j \<and> conflict (h0 a) (h0 t)" if "j < k" for j
  proof -
    have "hasConflictWithAssignment h t (js_nth rows j)" using that k free_row_first by auto
    then obtain a where "j < length rows" "a \<in> set (rows ! j)" "conflict (h a) (h t)"
      by (auto simp: hasConflict_iff)
    with inv show ?thesis by (auto simp: row_inv_def conflict_frame [OF frame])
  qed
  have free: "\<not> (\<exists>a \<in> set (rows' ! k). conflict (h0 a) (h0 t))"
    using free_row_free [of h t rows] k rows' kle
    by (auto simp: hasConflict_iff conflict_frame [OF frame] nth_append)
  have len: "length rows = (if done = [] then 0 else Suc m)" "done = [] \<longrightarrow> m = 0"
    using inv by (simp_all add: row_inv_def)
  have old: "rows' ! i = filter (\<lambda>s. yIndex (h s) = of_nat_num i) done" if "i < length rows'" for i
  proof (cases "i < length rows")
    case True
    then show ?thesis using inv rows' by (auto simp: row_inv_def nth_append)
  next
    case False
    with that rows' have "i = length rows" "rows' ! i = []"
      by (auto simp: nth_append split: if_splits)
    moreover have "filter (\<lambda>s. yIndex (h s) = of_nat_num (length rows)) done = []"
      using inv by (fastforce simp: row_inv_def filter_empty_conv)
    ultimately show ?thesis by simp
  qed
  have rows_eq: "?rows ! i = filter (\<lambda>s. yIndex (?h s) = of_nat_num i) (done @ [t])"
    if "i < length ?rows" for i
    using that old [of i] new
    by (auto simp: nth_list_update intro!: filter_cong [OF refl] dest: sym)
  have "\<forall>s \<in> set (done @ [t]). \<exists>i < length ?rows. yIndex (?h s) = of_nat_num i"
  proof
    fix s assume s: "s \<in> set (done @ [t])"
    show "\<exists>i < length ?rows. yIndex (?h s) = of_nat_num i"
    proof (cases "s = t")
      case True
      then show ?thesis using klt by auto
    next
      case False
      with s inv obtain i where "i < length rows" "yIndex (h s) = of_nat_num i"
        by (auto simp: row_inv_def)
      moreover have "length rows \<le> length rows'" using rows' by simp
      ultimately show ?thesis using False by auto
    qed
  qed
  moreover have "\<forall>i < length ?rows. ?rows ! i \<noteq> []"
    using inv rows' klt by (auto simp: row_inv_def nth_list_update nth_append less_Suc_eq)
  moreover have "length ?rows = (if done @ [t] = [] then 0 else Suc (if k > m then k else m))"
    using kle len rows' by (auto split: if_splits)
  moreover have "sorted_wrt (\<lambda>a b. \<not> conflict (h0 a) (h0 b)) (?rows ! i)" if "i < length ?rows" for i
    using that inv free rows'
    by (auto simp: row_inv_def nth_list_update nth_append sorted_wrt_append less_Suc_eq
        split: if_splits)
  ultimately show ?thesis
    using rows_eq only_rows_written_step [OF frame] first_fit_step [of h0 h "done" t k] new low inv
    by (auto simp: row_inv_def)
qed

lemma assign_each_Cons:
  fixes h t rows
  defines "k \<equiv> free_row h t rows 0"
  defines "rows' \<equiv> (if length rows = k then rows @ [[]] else rows)"
  shows "assign_each h (t # ts) rows m =
    assign_each (h(t := (h t)\<lparr>yIndex := of_nat_num k\<rparr>)) ts (rows'[k := rows' ! k @ [t]])
      (if k > m then k else m)"
  using free_row_le [of h t rows]
  by (simp add: assignYIndexToOneTask_def Let_def k_def rows'_def)

declare assign_each.simps(2) [simp del]

lemma assign_each_inv:
  assumes "row_inv h0 h done rows m" "distinct (done @ ts)"
  shows "\<exists>h' rows' m'. assign_each h ts rows m = Inr (h', rows', m') \<and> row_inv h0 h' (done @ ts) rows' m'"
  using assms
proof (induction ts arbitrary: h "done" rows m)
  case Nil
  then show ?case by simp
next
  case (Cons t ts)
  let ?k = "free_row h t rows 0"
  let ?rows = "if length rows = ?k then rows @ [[]] else rows"
  from Cons.prems have "row_inv h0 (h(t := (h t)\<lparr>yIndex := of_nat_num ?k\<rparr>)) (done @ [t])
      (?rows[?k := ?rows ! ?k @ [t]]) (if ?k > m then ?k else m)"
    by (intro row_inv_step [of h0 h "done" rows m]) auto
  moreover have "distinct ((done @ [t]) @ ts)" using Cons.prems(2) by simp
  ultimately have "\<exists>h' rows' m'. assign_each (h(t := (h t)\<lparr>yIndex := of_nat_num ?k\<rparr>)) ts
      (?rows[?k := ?rows ! ?k @ [t]]) (if ?k > m then ?k else m) = Inr (h', rows', m')
      \<and> row_inv h0 h' ((done @ [t]) @ ts) rows' m'"
    by (rule Cons.IH)
  then show ?case unfolding assign_each_Cons by simp
qed

subsection \<open>Totality and frame\<close>

lemma assign_each_total:
  "\<exists>h' rows' m'. assign_each h ts rows m = Inr (h', rows', m') \<and> (\<forall>r. h' r = (h r)\<lparr>yIndex := yIndex (h' r)\<rparr>)
     \<and> (\<forall>r. r \<notin> set ts \<longrightarrow> h' r = h r)"
proof (induction ts arbitrary: h rows m)
  case (Cons t ts)
  let ?k = "free_row h t rows 0"
  let ?h = "h(t := (h t)\<lparr>yIndex := of_nat_num ?k\<rparr>)"
  let ?rows = "if length rows = ?k then rows @ [[]] else rows"
  obtain h' rows' m' where eq: "assign_each ?h ts (?rows[?k := ?rows ! ?k @ [t]]) (if ?k > m then ?k else m)
      = Inr (h', rows', m')" and fr: "\<And>r. h' r = (?h r)\<lparr>yIndex := yIndex (h' r)\<rparr>"
    "\<And>r. r \<notin> set ts \<Longrightarrow> h' r = ?h r"
    using Cons.IH by blast
  have "h' r = (h r)\<lparr>yIndex := yIndex (h' r)\<rparr>" for r
    using fr(1) [of r] by (cases "r = t") simp_all
  moreover have "r \<notin> set (t # ts) \<Longrightarrow> h' r = h r" for r
    using fr(2) [of r] by simp
  ultimately show ?case unfolding assign_each_Cons using eq by blast
qed simp

lemma assign_cases:
  obtains h' m where "assign h ts = Inr (h', sort_by_start h ts, m)" "only_rows_written h h' ts"
  using assign_each_total [of h "sort_by_start h ts" "[]" 0]
  by (auto simp: assign_def assignYIndex_def Let_def only_rows_written_def sort_by_start_def)

lemma assign_inv:
  assumes "distinct ts" "assign h ts = Inr (h', s, m)"
  obtains rows where "row_inv h h' s rows m" "s = sort_by_start h ts"
proof -
  have "distinct ([] @ sort_by_start h ts)" using assms(1) by (simp add: sort_by_start_def)
  from assign_each_inv [OF row_inv_Nil [of h] this]
  obtain h1 rows m1 where run: "assign_each h (sort_by_start h ts) [] 0 = Inr (h1, rows, m1)"
    and inv: "row_inv h h1 (sort_by_start h ts) rows m1"
    by auto
  have "h' = h1" "s = sort_by_start h ts" "m = m1"
    using assms(2) run by (simp_all add: assign_def assignYIndex_def Let_def)
  with inv show thesis using that by blast
qed

lemma sort_by_start_sorted:
  assumes "\<And>t. t \<in> set ts \<Longrightarrow> timed (h t)"
  shows "sorted_wrt (\<lambda>a b. val (start_time (h a)) \<le> val (start_time (h b))) (sort_by_start h ts)"
  using js_sort_key [of ts "\<lambda>a. start_time (h a)"] assms sorted_wrt_sort_key
  by (auto simp: sort_by_start_def timed_def)

lemma set_sort_by_start [simp]: "set (sort_by_start h ts) = set ts"
  by (simp add: sort_by_start_def)

subsection \<open>What a user of the assigner relies on\<close>

type_synonym assigner = "store \<Rightarrow> ref list \<Rightarrow> (store \<times> ref list \<times> nat) js_result"

definition apart :: "task \<Rightarrow> task \<Rightarrow> bool" where
  "apart a b \<longleftrightarrow> end_time a \<le> start_time b \<or> end_time b \<le> start_time a"

lemma same_row_apart:
  assumes inv: "row_inv h h' s rows m"
    and sorted: "sorted_wrt (\<lambda>a b. val (start_time (h a)) \<le> val (start_time (h b))) s"
    and timed: "\<And>t. t \<in> set s \<Longrightarrow> timed (h t)"
    and ab: "a \<in> set s" "b \<in> set s" "a \<noteq> b" "yIndex (h' a) = yIndex (h' b)"
  shows "apart (h a) (h b)"
proof -
  obtain i where i: "i < length rows" "yIndex (h' a) = of_nat_num i"
    using inv ab(1) by (auto simp: row_inv_def)
  let ?row = "filter (\<lambda>t. yIndex (h' t) = of_nat_num i) s"
  have in_row: "a \<in> set ?row" "b \<in> set ?row" using ab i by auto
  have "sorted_wrt (\<lambda>x y. \<not> conflict (h x) (h y)) ?row" using inv i(1) by (auto simp: row_inv_def)
  moreover have "sorted_wrt (\<lambda>x y. val (start_time (h x)) \<le> val (start_time (h y))) ?row"
    using sorted by (rule sorted_wrt_filter)
  ultimately have "sorted_wrt (\<lambda>x y. \<not> conflict (h x) (h y) \<and>
      val (start_time (h x)) \<le> val (start_time (h y))) ?row"
    by (simp add: sorted_wrt_iff_nth_less)
  then have "(\<not> conflict (h a) (h b) \<and> val (start_time (h a)) \<le> val (start_time (h b))) \<or>
      (\<not> conflict (h b) (h a) \<and> val (start_time (h b)) \<le> val (start_time (h a)))"
    using in_row ab(3) by (rule sorted_wrt_pair)
  moreover have "timed (h a)" "timed (h b)" using timed ab by auto
  ultimately show ?thesis
    by (auto simp: apart_def conflict_def timed_def finite_less_iff)
qed

locale row_assigner =
  fixes assign_rows :: assigner
  assumes assign_ok: "\<exists>h' s m. assign_rows h ts = Inr (h', s, m)"
    and assign_perm: "assign_rows h ts = Inr (h', s, m) \<Longrightarrow> mset s = mset ts"
    and assign_frame: "assign_rows h ts = Inr (h', s, m) \<Longrightarrow> only_rows_written h h' ts"
    and assign_bound: "assign_rows h ts = Inr (h', s, m) \<Longrightarrow> distinct ts \<Longrightarrow> t \<in> set ts \<Longrightarrow>
      \<exists>k \<le> m. yIndex (h' t) = of_nat_num k"
    and assign_apart: "assign_rows h ts = Inr (h', s, m) \<Longrightarrow> distinct ts \<Longrightarrow>
      (\<And>t. t \<in> set ts \<Longrightarrow> timed (h t)) \<Longrightarrow> a \<in> set ts \<Longrightarrow> b \<in> set ts \<Longrightarrow> a \<noteq> b \<Longrightarrow>
      yIndex (h' a) = yIndex (h' b) \<Longrightarrow> apart (h a) (h b)"

interpretation yia: row_assigner assign
proof (unfold_locales, goal_cases)
  case (1 h ts)
  show ?case by (rule assign_cases [of h ts]) blast
next
  case (2 h ts h' s m)
  then show ?case by (cases rule: assign_cases [of h ts]) (auto simp: sort_by_start_def)
next
  case (3 h ts h' s m)
  then show ?case by (cases rule: assign_cases [of h ts]) auto
next
  case (4 h ts h' s m t)
  then obtain rows where "row_inv h h' s rows m" "s = sort_by_start h ts"
    by (metis assign_inv)
  with 4 have "t \<in> set s" "\<exists>i < length rows. yIndex (h' t) = of_nat_num i"
    "length rows = Suc m" by (auto simp: row_inv_def split: if_splits)
  then show ?case by auto
next
  case (5 h ts h' s m a b)
  then obtain rows where "row_inv h h' s rows m" "s = sort_by_start h ts"
    by (metis assign_inv)
  with 5 show ?case by (intro same_row_apart [of h h' s rows m]) (auto intro: sort_by_start_sorted)
qed

subsection \<open>Properties\<close>

text \<open>
  (C3) The assigner always returns: the row search ends for every task and the consistency
  error is never thrown, whatever the times are.  It permutes the array and writes nothing but
  row indices of the given tasks.
\<close>

theorem assign_returns:
  "\<exists>h' s m. assign h ts = Inr (h', s, m) \<and> mset s = mset ts \<and>
     (\<forall>r. h' r = (h r)\<lparr>yIndex := yIndex (h' r)\<rparr>) \<and> (\<forall>r. h' r = h r \<or> r \<in> set ts)"
  by (rule assign_cases [of h ts]) (auto simp: only_rows_written_def sort_by_start_def)

text \<open>
  (C1) Tasks that are drawn in the same row do not overlap in time: one ends before the other
  starts.
\<close>

theorem assign_same_row_apart:
  assumes "assign h ts = Inr (h', s, m)" "distinct ts" "\<And>t. t \<in> set ts \<Longrightarrow> timed (h t)"
    and "a \<in> set ts" "b \<in> set ts" "a \<noteq> b" "yIndex (h' a) = yIndex (h' b)"
  shows "end_time (h a) \<le> start_time (h b) \<or> end_time (h b) \<le> start_time (h a)"
  using yia.assign_apart [OF assms] by (simp add: apart_def)

definition three_tasks :: store where
  "three_tasks = (\<lambda>_. new_task)(0 := trace_task ''a'' [] 0 2, 1 := trace_task ''b'' [] 1 3,
     2 := trace_task ''c'' [] 2 4)"

lemma three_tasks_run:
  "\<exists>h'. assign three_tasks [2, 1, 0] = Inr (h', [0, 1, 2], 1) \<and>
     yIndex (h' 0) = Num 0 \<and> yIndex (h' 1) = Num 1 \<and> yIndex (h' 2) = Num 0"
  by (simp add: three_tasks_def assign_def assignYIndex_def sort_by_start_def js_num_simps
      assign_each_Cons free_row.simps hasConflictWithAssignment_def js_nth_def conflict_def Let_def)

theorem assign_same_row_apart_witness:
  "end_time (three_tasks 0) \<le> start_time (three_tasks 2) \<or>
   end_time (three_tasks 2) \<le> start_time (three_tasks 0)"
proof -
  obtain h' where "assign three_tasks [2, 1, 0] = Inr (h', [0, 1, 2], 1)"
    "yIndex (h' 0) = Num 0" "yIndex (h' 2) = Num 0"
    using three_tasks_run by blast
  then show ?thesis
    by (intro assign_same_row_apart [of three_tasks "[2, 1, 0]" h' "[0, 1, 2]" 1])
      (auto simp: three_tasks_def)
qed

text \<open>Tasks that are active at one instant are in different rows.\<close>

lemma active_rows_inj:
  assumes "assign h ts = Inr (h', s, m)" "distinct ts" "\<And>t. t \<in> set ts \<Longrightarrow> timed (h t)"
  shows "inj_on (\<lambda>t. yIndex (h' t)) {t \<in> set ts. active_at \<tau> (h t)}"
proof (rule inj_onI, rule ccontr)
  fix a b assume ab: "a \<in> {t \<in> set ts. active_at \<tau> (h t)}" "b \<in> {t \<in> set ts. active_at \<tau> (h t)}"
    "yIndex (h' a) = yIndex (h' b)" "a \<noteq> b"
  with yia.assign_apart [OF assms, of a b] have "apart (h a) (h b)" by auto
  moreover have "timed (h a)" "timed (h b)" "active_at \<tau> (h a)" "active_at \<tau> (h b)"
    using ab assms(3) by auto
  ultimately show False
    by (auto simp: apart_def active_at_def timed_def elim!: finite_numE)
qed

lemma active_le_rows:
  assumes "assign h ts = Inr (h', s, m)" "distinct ts" "\<And>t. t \<in> set ts \<Longrightarrow> timed (h t)"
  shows "card {t \<in> set ts. active_at \<tau> (h t)} \<le> Suc m"
proof -
  let ?A = "{t \<in> set ts. active_at \<tau> (h t)}"
  have "(\<lambda>t. yIndex (h' t)) ` ?A \<subseteq> (\<lambda>i. of_nat_num i) ` {..m}"
    using yia.assign_bound [OF assms(1,2)] by auto
  then have "card ((\<lambda>t. yIndex (h' t)) ` ?A) \<le> card ((\<lambda>i. of_nat_num i) ` {..m})"
    by (intro card_mono) auto
  moreover have "card ((\<lambda>i. of_nat_num i) ` {..m}) \<le> Suc m"
    using card_image_le [of "{..m}" "\<lambda>i. of_nat_num i"] by simp
  ultimately show ?thesis
    using card_image [OF active_rows_inj [OF assms, of \<tau>]] by simp
qed

text \<open>The task that opened the last row overlaps one task of every other row when it starts.\<close>

lemma conflict_active:
  assumes "lasting a" "lasting t" "conflict a t" "val (start_time a) \<le> val (start_time t)"
  shows "active_at (val (start_time t)) a"
  using assms by (auto simp: lasting_def timed_def conflict_def active_at_def elim!: finite_numE)

lemma rows_le_active:
  assumes run: "assign h ts = Inr (h', s, m)" "distinct ts" and ne: "ts \<noteq> []"
    and lasting: "\<And>t. t \<in> set ts \<Longrightarrow> lasting (h t)"
  shows "\<exists>\<tau>. Suc m \<le> card {t \<in> set ts. active_at \<tau> (h t)}"
proof -
  obtain rows where inv: "row_inv h h' s rows m" and s: "s = sort_by_start h ts"
    using assign_inv [OF run(2,1)] by metis
  have set_s: "set s = set ts" "s \<noteq> []" using s ne by (auto simp flip: set_empty)
  then have len: "length rows = Suc m" using inv by (simp add: row_inv_def)
  then have "rows ! m \<noteq> []" "rows ! m = filter (\<lambda>t. yIndex (h' t) = of_nat_num m) s"
    using inv by (auto simp: row_inv_def)
  then obtain t where t: "t \<in> set s" "yIndex (h' t) = of_nat_num m"
    by (auto simp: filter_empty_conv)
  then obtain xs ys where split: "s = xs @ t # ys" by (meson split_list)
  have "timed (h u)" if "u \<in> set ts" for u using lasting [OF that] by (simp add: lasting_def)
  then have sorted: "sorted_wrt (\<lambda>a b. val (start_time (h a)) \<le> val (start_time (h b))) s"
    unfolding s by (rule sort_by_start_sorted)
  let ?\<tau> = "val (start_time (h t))"
  let ?A = "{t \<in> set ts. active_at ?\<tau> (h t)}"
  have "\<exists>a \<in> ?A. yIndex (h' a) = of_nat_num j" if "j \<le> m" for j
  proof (cases "j = m")
    case True
    have "lasting (h t)" using t set_s lasting by simp
    then have "active_at ?\<tau> (h t)" by (auto simp: active_at_def lasting_def timed_def)
    then show ?thesis using t True set_s by blast
  next
    case False
    with that have "j < m" by simp
    moreover have "first_fit h h' s" using inv by (simp add: row_inv_def)
    ultimately obtain a where a: "a \<in> set xs" "yIndex (h' a) = of_nat_num j" "conflict (h a) (h t)"
      using split t(2) unfolding first_fit_def by blast
    then have "active_at ?\<tau> (h a)"
      using sorted lasting set_s split by (intro conflict_active) (auto simp: sorted_wrt_append)
    then show ?thesis using a split set_s by auto
  qed
  then have "(\<lambda>i. of_nat_num i) ` {..m} \<subseteq> (\<lambda>t. yIndex (h' t)) ` ?A" by (force simp: image_iff)
  then have "card ((\<lambda>i. of_nat_num i) ` {..m}) \<le> card ((\<lambda>t. yIndex (h' t)) ` ?A)"
    by (intro card_mono) auto
  moreover have "card ((\<lambda>i. of_nat_num i) ` {..m}) = Suc m"
    by (subst card_image) (auto simp: inj_on_def)
  ultimately show ?thesis
    using card_image_le [of ?A "\<lambda>t. yIndex (h' t)"] by (intro exI [of _ ?\<tau>]) simp
qed

text \<open>
  (C2) The number of rows is optimal: for tasks that take time, \<open>maxY + 1\<close> is the greatest
  number of tasks that are active at the same instant, so no drawing without overlaps has
  fewer rows.
\<close>

theorem assign_optimal:
  assumes "assign h ts = Inr (h', s, m)" "distinct ts" "ts \<noteq> []"
    and "\<And>t. t \<in> set ts \<Longrightarrow> lasting (h t)"
  shows "(\<forall>\<tau>. card {t \<in> set ts. active_at \<tau> (h t)} \<le> m + 1) \<and>
         (\<exists>\<tau>. card {t \<in> set ts. active_at \<tau> (h t)} = m + 1)"
proof -
  have le: "card {t \<in> set ts. active_at \<tau> (h t)} \<le> Suc m" for \<tau>
    using active_le_rows [OF assms(1,2)] assms(4) by (auto simp: lasting_def)
  with rows_le_active [OF assms] show ?thesis by (metis Suc_eq_plus1 le_antisym)
qed

theorem assign_optimal_witness:
  "\<exists>\<tau>. card {t \<in> set [2, 1, 0]. active_at \<tau> (three_tasks t)} = 2"
proof -
  obtain h' where "assign three_tasks [2, 1, 0] = Inr (h', [0, 1, 2], 1)"
    using three_tasks_run by blast
  moreover have "distinct [2, 1, 0 :: ref]" "[2, 1, 0 :: ref] \<noteq> []" by simp_all
  moreover have "lasting (three_tasks t)" if "t \<in> set [2, 1, 0]" for t
    using that by (auto simp: three_tasks_def)
  ultimately have "\<exists>\<tau>. card {t \<in> set [2, 1, 0]. active_at \<tau> (three_tasks t)} = 1 + 1"
    using assign_optimal by blast
  then show ?thesis by (simp only: one_add_one)
qed

end
