(* ===== verification/Task_Renderer.thy ===== *)
theory Task_Renderer
  imports Task_Model
begin

text \<open>
  \<open>daisen/static/src/taskrenderer.js\<close>: the task bars of a canvas.  The accessors a view
  installs are functions, numbers or \<open>null\<close>; \<open>render\<close> binds tasks to bars, and
  \<open>hightlight\<close> and \<open>updateXAxis\<close> change the attributes of the bars that are there.

  Two pieces of d3 are arguments of the definitions: \<open>scale\<close> applies a linear scale to a value
  and \<open>join\<close> is the data join by key, which gives for every datum the existing element it is
  bound to.  What is documented of them is stated by \<open>linear_scale\<close> and \<open>keyed_join\<close>.
\<close>

subsection \<open>d3 scales\<close>

record lin_scale =
  domain_from :: js_num
  domain_to :: js_num
  range_from :: js_num
  range_to :: js_num

type_synonym scaling = "lin_scale \<Rightarrow> js_num \<Rightarrow> js_num"

definition linear_scale :: "scaling \<Rightarrow> bool" where
  \<comment> \<open>\<open>d3.scaleLinear\<close> maps the domain linearly to the range\<close>
  "linear_scale scale \<longleftrightarrow>
     (\<forall>s a b p q x. domain_from s = Num a \<longrightarrow> domain_to s = Num b \<longrightarrow> range_from s = Num p \<longrightarrow>
        range_to s = Num q \<longrightarrow> a \<noteq> b \<longrightarrow> scale s (Num x) = Num (p + (x - a) / (b - a) * (q - p)))"

definition lerp :: scaling where
  \<comment> \<open>a scale that satisfies the law\<close>
  "lerp s x = range_from s + (x - domain_from s) / (domain_to s - domain_from s) * (range_to s - range_from s)"

lemma linear_lerp: "linear_scale lerp"
  by (simp add: linear_scale_def lerp_def)

lemma linear_scaleD:
  assumes "linear_scale scale" "a \<noteq> b"
  shows "scale \<lparr>domain_from = Num a, domain_to = Num b, range_from = Num p, range_to = Num q\<rparr> (Num x) =
    Num (p + (x - a) / (b - a) * (q - p))"
  using assms by (simp add: linear_scale_def)

subsection \<open>Accessors\<close>

datatype accessor = ANull | ANum js_num | AFun "task \<Rightarrow> nat \<Rightarrow> js_num js_result"

fun falsy_accessor :: "accessor \<Rightarrow> bool" where
  "falsy_accessor ANull = True"
| "falsy_accessor (ANum n) = (n \<in> {0, NaN, Undef})"
| "falsy_accessor (AFun _) = False"

record task_renderer =
  tr_x :: accessor
  tr_y :: accessor
  tr_width :: accessor
  tr_height :: accessor
  tr_xScale :: lin_scale

definition new_task_renderer :: "lin_scale \<Rightarrow> task_renderer" where
  "new_task_renderer s = \<lparr> tr_x = ANull, tr_y = ANull, tr_width = ANull, tr_height = ANull, tr_xScale = s \<rparr>"

definition setXScale :: "lin_scale \<Rightarrow> task_renderer \<Rightarrow> task_renderer" where
  "setXScale s r = r\<lparr>tr_xScale := s\<rparr>"

definition renderWithX :: "accessor \<Rightarrow> task_renderer \<Rightarrow> task_renderer" where
  "renderWithX f r = r\<lparr>tr_x := f\<rparr>"

definition renderWithY :: "accessor \<Rightarrow> task_renderer \<Rightarrow> task_renderer" where
  "renderWithY f r = r\<lparr>tr_y := f\<rparr>"

definition renderWithWidth :: "accessor \<Rightarrow> task_renderer \<Rightarrow> task_renderer" where
  "renderWithWidth f r = r\<lparr>tr_width := f\<rparr>"

definition renderWithHeight :: "accessor \<Rightarrow> task_renderer \<Rightarrow> task_renderer" where
  "renderWithHeight f r = r\<lparr>tr_height := f\<rparr>"

text \<open>An attribute value is a number or \<open>null\<close>, which removes the attribute.\<close>

definition getXValue :: "scaling \<Rightarrow> task_renderer \<Rightarrow> task \<Rightarrow> nat \<Rightarrow> js_num option js_result" where
  "getXValue scale r t i =
     (if falsy_accessor (tr_x r) then Inr (Some (scale (tr_xScale r) (start_time t)))
      else case tr_x r of
        AFun f \<Rightarrow> bind_result (f t i) (\<lambda>v. Inr (Some v))
      | ANum n \<Rightarrow> Inr (Some n)
      | ANull \<Rightarrow> Inr None)"

definition getYValue :: "task_renderer \<Rightarrow> task \<Rightarrow> nat \<Rightarrow> js_num option js_result" where
  \<comment> \<open>the value of \<open>_defaultYFunc\<close> is computed and dropped\<close>
  "getYValue r t i =
     (case tr_y r of
        AFun f \<Rightarrow> bind_result (f t i) (\<lambda>v. Inr (Some v))
      | ANum n \<Rightarrow> Inr (Some n)
      | ANull \<Rightarrow> Inr None)"

definition getWidthValue :: "scaling \<Rightarrow> task_renderer \<Rightarrow> task \<Rightarrow> nat \<Rightarrow> js_num option js_result" where
  "getWidthValue scale r t i =
     (if falsy_accessor (tr_width r)
      then Inr (Some (scale (tr_xScale r) (end_time t) - scale (tr_xScale r) (start_time t)))
      else case tr_width r of
        AFun f \<Rightarrow> bind_result (f t i) (\<lambda>v. Inr (Some v))
      | ANum n \<Rightarrow> Inr (Some n)
      | ANull \<Rightarrow> Inr None)"

definition getHeightValue :: "task_renderer \<Rightarrow> task \<Rightarrow> nat \<Rightarrow> js_num js_result" where
  "getHeightValue r t i = (case tr_height r of AFun f \<Rightarrow> f t i | _ \<Rightarrow> Inr 10)"

subsection \<open>Bars\<close>

definition replaceAll :: "char \<Rightarrow> char \<Rightarrow> string \<Rightarrow> string" where
  "replaceAll a b s = map (\<lambda>c. if c = a then b else c) s"

definition taskIdTag :: "task \<Rightarrow> string" where
  "taskIdTag t =
     replaceAll (CHR ''_'') (CHR ''-'') (replaceAll (CHR '']'') (CHR ''-'')
       (replaceAll (CHR ''['') (CHR ''-'') (replaceAll (CHR ''.'') (CHR ''-'')
         (replaceAll (CHR ''@'') (CHR ''-'') (task_id t)))))"

record bar =
  bar_task :: ref \<comment> \<open>the datum bound to the element\<close>
  bar_id :: string
  bar_x :: "js_num option"
  bar_y :: "js_num option"
  bar_width :: "js_num option"
  bar_height :: js_num
  bar_fill :: string
  bar_opacity :: "rat option" \<comment> \<open>\<open>None\<close>: the attribute was never set\<close>
  bar_stroke_opacity :: rat

type_synonym join = "string list \<Rightarrow> string list \<Rightarrow> nat option list"

definition keyed_join :: "join \<Rightarrow> bool" where
  \<comment> \<open>\<open>selection.data(data, key)\<close> when no two data have the same key\<close>
  "keyed_join join \<longleftrightarrow>
     (\<forall>olds news. distinct olds \<longrightarrow> distinct news \<longrightarrow>
        length (join olds news) = length news \<and>
        (\<forall>i < length news. join olds news ! i =
           (if news ! i \<in> set olds then Some (LEAST j. j < length olds \<and> olds ! j = news ! i) else None)))"

definition bind_bar ::
    "scaling \<Rightarrow> (task \<Rightarrow> string js_result) \<Rightarrow> task_renderer \<Rightarrow> store \<Rightarrow> bar option \<Rightarrow> ref \<Rightarrow> nat \<Rightarrow> bar js_result" where
  \<comment> \<open>the attributes that the enter selection and the merged selection set on one element\<close>
  "bind_bar scale lookup r h old t i =
     bind_result (getXValue scale r (h t) i) (\<lambda>x.
     bind_result (getYValue r (h t) i) (\<lambda>y.
     bind_result (getWidthValue scale r (h t) i) (\<lambda>w.
     bind_result (getHeightValue r (h t) i) (\<lambda>ht.
     bind_result (lookup (h t)) (\<lambda>fill.
       Inr \<lparr> bar_task = t,
         bar_id = (case old of None \<Rightarrow> ''task-'' @ taskIdTag (h t) | Some b \<Rightarrow> bar_id b),
         bar_x = x, bar_y = y, bar_width = w, bar_height = ht, bar_fill = fill,
         bar_opacity = (case old of None \<Rightarrow> None | Some b \<Rightarrow> bar_opacity b),
         bar_stroke_opacity = 1 / 5 \<rparr>)))))"

fun bind_bars ::
    "scaling \<Rightarrow> (task \<Rightarrow> string js_result) \<Rightarrow> task_renderer \<Rightarrow> store \<Rightarrow> bar list \<Rightarrow> (nat option \<times> ref) list \<Rightarrow>
     nat \<Rightarrow> bar list js_result" where
  "bind_bars scale lookup r h olds [] i = Inr []"
| "bind_bars scale lookup r h olds ((k, t) # rest) i =
     bind_result (bind_bar scale lookup r h (map_option (\<lambda>j. olds ! j) k) t i) (\<lambda>b.
     bind_result (bind_bars scale lookup r h olds rest (i + 1)) (\<lambda>bs. Inr (b # bs)))"

definition render_bars ::
    "join \<Rightarrow> scaling \<Rightarrow> (task \<Rightarrow> string js_result) \<Rightarrow> task_renderer \<Rightarrow> store \<Rightarrow> bar list option \<Rightarrow> ref list \<Rightarrow>
     bar list option js_result" where
  \<comment> \<open>\<open>render\<close>: the bar group is created when it is missing, and bars without a task are removed\<close>
  "render_bars join scale lookup r h grp tasks =
     (let olds = (case grp of None \<Rightarrow> [] | Some bs \<Rightarrow> bs);
          slots = join (map (\<lambda>b. task_id (h (bar_task b))) olds) (map (\<lambda>t. task_id (h t)) tasks)
      in bind_result (bind_bars scale lookup r h olds (zip slots tasks) 0) (\<lambda>bs. Inr (Some bs)))"

definition renderer_updateXAxis :: "scaling \<Rightarrow> task_renderer \<Rightarrow> store \<Rightarrow> bar list option \<Rightarrow> bar list option" where
  "renderer_updateXAxis scale r h grp =
     (case grp of
        None \<Rightarrow> None
      | Some bs \<Rightarrow> Some (map (\<lambda>b.
          b\<lparr>bar_x := Some (scale (tr_xScale r) (start_time (h (bar_task b)))),
            bar_width := Some (scale (tr_xScale r) (end_time (h (bar_task b))) -
                               scale (tr_xScale r) (start_time (h (bar_task b))))\<rparr>) bs))"

datatype highlight_arg = HNone | HTask task | HPred "task \<Rightarrow> bool"

fun mark_first :: "string \<Rightarrow> bar list \<Rightarrow> bar list" where
  \<comment> \<open>\<open>select('#...')\<close> takes the first element with that identifier\<close>
  "mark_first tag [] = []"
| "mark_first tag (b # bs) =
     (if bar_id b = tag then b\<lparr>bar_opacity := Some 1, bar_stroke_opacity := 4 / 5\<rparr> # bs
      else b # mark_first tag bs)"

definition hightlight :: "store \<Rightarrow> highlight_arg \<Rightarrow> bar list option \<Rightarrow> bar list option" where
  "hightlight h arg grp =
     (case grp of
        None \<Rightarrow> None
      | Some bs \<Rightarrow>
          let faded = map (\<lambda>b. b\<lparr>bar_opacity := Some (2 / 5), bar_stroke_opacity := 1 / 5\<rparr>) bs in
          Some (case arg of
             HNone \<Rightarrow> map (\<lambda>b. b\<lparr>bar_opacity := Some 1, bar_stroke_opacity := 1 / 5\<rparr>) bs
           | HTask t \<Rightarrow> mark_first (''task-'' @ taskIdTag t) faded
           | HPred p \<Rightarrow> map (\<lambda>b. if p (h (bar_task b))
               then b\<lparr>bar_opacity := Some 1, bar_stroke_opacity := 4 / 5\<rparr> else b) faded))"

subsection \<open>What the operations do to the bars\<close>

named_theorems bar_simps \<open>effect of the bar operations, element by element\<close>

lemma length_mark_first [simp]: "length (mark_first tag bs) = length bs"
  by (induction bs) auto

lemma mark_first_nth:
  "distinct (map bar_id bs) \<Longrightarrow> i < length bs \<Longrightarrow> mark_first tag bs ! i =
     (if bar_id (bs ! i) = tag then (bs ! i)\<lparr>bar_opacity := Some 1, bar_stroke_opacity := 4 / 5\<rparr> else bs ! i)"
proof (induction bs arbitrary: i)
  case (Cons b bs)
  have "bar_id (bs ! j) \<noteq> bar_id b" if "j < length bs" for j
    using Cons.prems(1) nth_mem [OF that] by (auto simp: image_iff)
  with Cons show ?case by (cases i) auto
qed simp

lemma bind_bars_nth:
  "bind_bars scale lookup r h olds kts i0 = Inr bs \<longleftrightarrow>
     length bs = length kts \<and>
     (\<forall>i < length kts. bind_bar scale lookup r h (map_option (\<lambda>j. olds ! j) (fst (kts ! i)))
        (snd (kts ! i)) (i0 + i) = Inr (bs ! i))"
proof (induction kts arbitrary: i0 bs)
  case (Cons kt kts)
  obtain k t where kt: "kt = (k, t)" by (cases kt)
  show ?case
  proof (cases bs)
    case (Cons b bs')
    then show ?thesis
      unfolding kt using Cons.IH [of "i0 + 1" bs']
      by (auto simp: bind_result_Inr_iff All_less_Suc2)
  qed (auto simp: kt bind_result_Inr_iff)
qed auto

lemma bind_bar_fields:
  assumes "bind_bar scale lookup r h old t i = Inr b"
  shows "bar_task b = t"
    and "bar_id b = (case old of None \<Rightarrow> ''task-'' @ taskIdTag (h t) | Some o' \<Rightarrow> bar_id o')"
    and "getXValue scale r (h t) i = Inr (bar_x b)" "getYValue r (h t) i = Inr (bar_y b)"
    and "getWidthValue scale r (h t) i = Inr (bar_width b)" "getHeightValue r (h t) i = Inr (bar_height b)"
    and "lookup (h t) = Inr (bar_fill b)"
  using assms by (auto simp: bind_bar_def bind_result_Inr_iff split: option.splits)

text \<open>The bars of a canvas carry the tag of the task they show, and no task has two bars.\<close>

definition bars_ok :: "store \<Rightarrow> bar list option \<Rightarrow> bool" where
  "bars_ok h grp \<longleftrightarrow>
     (case grp of
        None \<Rightarrow> True
      | Some bs \<Rightarrow> distinct (map (\<lambda>b. task_id (h (bar_task b))) bs) \<and>
          (\<forall>b \<in> set bs. bar_id b = ''task-'' @ taskIdTag (h (bar_task b))))"

lemma least_index:
  "x \<in> set xs \<Longrightarrow> (LEAST j. j < length xs \<and> xs ! j = x) < length xs \<and>
     xs ! (LEAST j. j < length xs \<and> xs ! j = x) = x"
  using LeastI_ex [of "\<lambda>j. j < length xs \<and> xs ! j = x"] by (auto simp: in_set_conv_nth)

lemma taskIdTag_cong: "task_id s = task_id t \<Longrightarrow> taskIdTag s = taskIdTag t"
  by (simp add: taskIdTag_def)

lemma render_bars_spec:
  assumes "keyed_join join" and ids: "distinct (map (\<lambda>t. task_id (h t)) tasks)"
    and old: "bars_ok h grp"
    and run: "render_bars join scale lookup r h grp tasks = Inr grp'"
  obtains bs where "grp' = Some bs" "map bar_task bs = tasks" "bars_ok h grp'"
    "\<And>i. i < length tasks \<Longrightarrow> getXValue scale r (h (tasks ! i)) i = Inr (bar_x (bs ! i)) \<and>
       getYValue r (h (tasks ! i)) i = Inr (bar_y (bs ! i)) \<and>
       getWidthValue scale r (h (tasks ! i)) i = Inr (bar_width (bs ! i)) \<and>
       getHeightValue r (h (tasks ! i)) i = Inr (bar_height (bs ! i)) \<and>
       lookup (h (tasks ! i)) = Inr (bar_fill (bs ! i))"
proof -
  define olds where "olds = (case grp of None \<Rightarrow> [] | Some bs \<Rightarrow> bs)"
  define okeys where "okeys = map (\<lambda>b. task_id (h (bar_task b))) olds"
  define keys where "keys = map (\<lambda>t. task_id (h t)) tasks"
  have olds: "distinct okeys" "\<And>b. b \<in> set olds \<Longrightarrow> bar_id b = ''task-'' @ taskIdTag (h (bar_task b))"
    using old by (auto simp: bars_ok_def olds_def okeys_def split: option.splits)
  have join: "length (join okeys keys) = length tasks"
    "\<And>i. i < length tasks \<Longrightarrow> join okeys keys ! i =
       (if keys ! i \<in> set okeys then Some (LEAST j. j < length okeys \<and> okeys ! j = keys ! i) else None)"
    using assms(1) olds(1) ids by (simp_all add: keyed_join_def keys_def)
  from run obtain bs where bs: "grp' = Some bs"
    "bind_bars scale lookup r h olds (zip (join okeys keys) tasks) 0 = Inr bs"
    by (auto simp: render_bars_def Let_def olds_def okeys_def keys_def bind_result_Inr_iff)
  have len: "length bs = length tasks" and each: "\<And>i. i < length tasks \<Longrightarrow>
      bind_bar scale lookup r h (map_option (\<lambda>j. olds ! j) (join okeys keys ! i)) (tasks ! i) i = Inr (bs ! i)"
    using bs(2) join(1) by (simp_all add: bind_bars_nth)
  have tasks: "map bar_task bs = tasks"
    using len each bind_bar_fields(1) by (metis nth_equalityI length_map nth_map)
  have "bar_id (bs ! i) = ''task-'' @ taskIdTag (h (tasks ! i))" if i: "i < length tasks" for i
  proof (cases "keys ! i \<in> set okeys")
    case False
    then show ?thesis using bind_bar_fields(2) [OF each [OF i]] join(2) [OF i] by simp
  next
    case True
    define j where "j = (LEAST j. j < length okeys \<and> okeys ! j = keys ! i)"
    have j: "j < length olds" "okeys ! j = keys ! i"
      using least_index [OF True] by (simp_all add: j_def okeys_def)
    have "bar_id (bs ! i) = bar_id (olds ! j)"
      using bind_bar_fields(2) [OF each [OF i]] join(2) [OF i] True by (simp add: j_def)
    also have "\<dots> = ''task-'' @ taskIdTag (h (bar_task (olds ! j)))" using olds(2) j(1) by simp
    also have "taskIdTag (h (bar_task (olds ! j))) = taskIdTag (h (tasks ! i))"
      using j i by (intro taskIdTag_cong) (simp add: okeys_def keys_def)
    finally show ?thesis .
  qed
  moreover have "map (\<lambda>b. task_id (h (bar_task b))) bs = map (\<lambda>t. task_id (h t)) tasks"
    unfolding tasks [symmetric] by simp
  moreover have "bar_task (bs ! i) = tasks ! i" if "i < length tasks" for i
    using tasks len that by (metis nth_map)
  ultimately have "bars_ok h grp'"
    using ids bs(1) len by (auto simp: bars_ok_def in_set_conv_nth)
  then show thesis
    using bind_bar_fields(3-7) [OF each] by (intro that [OF bs(1) tasks]) simp_all
qed

subsection \<open>Properties\<close>

definition list_join :: join where
  \<comment> \<open>a join that satisfies the law\<close>
  "list_join olds news = map (\<lambda>k. if k \<in> set olds then Some (LEAST j. j < length olds \<and> olds ! j = k) else None) news"

lemma keyed_list_join: "keyed_join list_join"
  by (simp add: keyed_join_def list_join_def)

text \<open>
  After \<open>render\<close> the canvas shows one bar for each task of the array, in its order and no
  other bar, each with the position, size and colour that the accessors and the colour coder give
  for its task, whatever was drawn before.
\<close>

theorem render_bars_exact:
  assumes "keyed_join join" "distinct (map (\<lambda>t. task_id (h t)) tasks)" "bars_ok h grp"
    and "render_bars join scale lookup r h grp tasks = Inr grp'"
  shows "\<exists>bs. grp' = Some bs \<and> map bar_task bs = tasks \<and> bars_ok h grp' \<and>
    (\<forall>i < length tasks. getXValue scale r (h (tasks ! i)) i = Inr (bar_x (bs ! i)) \<and>
       getYValue r (h (tasks ! i)) i = Inr (bar_y (bs ! i)) \<and>
       getWidthValue scale r (h (tasks ! i)) i = Inr (bar_width (bs ! i)) \<and>
       getHeightValue r (h (tasks ! i)) i = Inr (bar_height (bs ! i)) \<and>
       lookup (h (tasks ! i)) = Inr (bar_fill (bs ! i)))"
  using render_bars_spec [OF assms] by metis

definition two_bars :: store where
  "two_bars = (\<lambda>_. new_task)(1 := trace_task ''a'' [] 0 1, 2 := trace_task ''b'' [] 2 3)"

definition unit_scale :: lin_scale where
  "unit_scale = \<lparr>domain_from = 0, domain_to = 10, range_from = 0, range_to = 100\<rparr>"

theorem render_bars_exact_witness:
  "\<exists>bs. map bar_task bs = [1, 2] \<and>
     getXValue lerp (new_task_renderer unit_scale) (two_bars 2) 1 = Inr (bar_x (bs ! 1)) \<and>
     bars_ok two_bars (Some bs)"
proof -
  have "\<exists>bs. render_bars list_join lerp (\<lambda>_. Inr ''#000000'') (new_task_renderer unit_scale) two_bars None [1, 2] =
      Inr (Some bs)"
    by (simp add: render_bars_def list_join_def bind_bar_def new_task_renderer_def getXValue_def
        getYValue_def getWidthValue_def getHeightValue_def)
  then obtain bs where run: "render_bars list_join lerp (\<lambda>_. Inr ''#000000'') (new_task_renderer unit_scale)
      two_bars None [1, 2] = Inr (Some bs)" ..
  have "distinct (map (\<lambda>t. task_id (two_bars t)) [1, 2])" by (simp add: two_bars_def)
  from render_bars_exact [OF keyed_list_join this _ run]
  obtain bs' where "Some bs = Some bs'" "map bar_task bs' = [1, 2]" "bars_ok two_bars (Some bs)"
    "\<forall>i < 2. getXValue lerp (new_task_renderer unit_scale) (two_bars ([1, 2] ! i)) i = Inr (bar_x (bs' ! i))"
    by (auto simp: bars_ok_def)
  then show ?thesis by (intro exI [of _ bs']) (auto dest: spec [of _ 1])
qed

text \<open>
  Highlighting a task that is drawn, when no two bars have the same tag, makes its bar
  opaque and fades every other one, whatever was highlighted before; the bars keep their places.
\<close>

theorem hightlight_task_exact:
  assumes "bars_ok h (Some bs)" "distinct (map bar_id bs)" "i < length bs" "j < length bs"
  shows "\<exists>bs'. hightlight h (HTask (h (bar_task (bs ! i)))) (Some bs) = Some bs' \<and>
    bar_opacity (bs' ! j) = Some (if j = i then 1 else 2 / 5) \<and>
    bar_stroke_opacity (bs' ! j) = (if j = i then 4 / 5 else 1 / 5) \<and>
    bar_x (bs' ! j) = bar_x (bs ! j) \<and> bar_width (bs' ! j) = bar_width (bs ! j) \<and>
    bar_task (bs' ! j) = bar_task (bs ! j)"
proof -
  let ?fade = "\<lambda>b. b\<lparr>bar_opacity := Some (2 / 5), bar_stroke_opacity := 1 / 5\<rparr> :: bar"
  have ids: "bar_id (bs ! k) = ''task-'' @ taskIdTag (h (bar_task (bs ! k)))" if "k < length bs" for k
    using assms(1) that by (simp add: bars_ok_def)
  have "map bar_id (map ?fade bs) = map bar_id bs" by simp
  then have d: "distinct (map bar_id (map ?fade bs))" using assms(2) by (simp only:)
  have "bar_id (bs ! j) = bar_id (bs ! i) \<longleftrightarrow> j = i"
    using assms nth_eq_iff_index_eq [OF assms(2)] by simp
  then show ?thesis
    using assms(3,4) ids mark_first_nth [OF d, of j] by (simp add: hightlight_def Let_def)
qed

definition plain_bar :: "store \<Rightarrow> ref \<Rightarrow> bar" where
  "plain_bar h t = \<lparr> bar_task = t, bar_id = ''task-'' @ taskIdTag (h t), bar_x = None, bar_y = None,
     bar_width = None, bar_height = 10, bar_fill = [], bar_opacity = None, bar_stroke_opacity = 1 / 5 \<rparr>"

theorem hightlight_task_exact_witness:
  "\<exists>bs'. hightlight two_bars (HTask (two_bars 1)) (Some [plain_bar two_bars 1, plain_bar two_bars 2]) = Some bs' \<and>
     bar_opacity (bs' ! 1) = Some (2 / 5)"
proof -
  have "bars_ok two_bars (Some [plain_bar two_bars 1, plain_bar two_bars 2])"
    by (simp add: bars_ok_def plain_bar_def two_bars_def)
  moreover have "distinct (map bar_id [plain_bar two_bars 1, plain_bar two_bars 2])"
    by (simp add: plain_bar_def two_bars_def taskIdTag_def replaceAll_def)
  ultimately show ?thesis
    using hightlight_task_exact [of two_bars "[plain_bar two_bars 1, plain_bar two_bars 2]" 0 1]
    by (auto simp: plain_bar_def)
qed

text \<open>
  The tags of two different tasks can be equal, and then highlighting the second of them
  marks the bar of the first: identifiers that differ only in one of the five replaced
  characters.
\<close>

theorem hightlight_tag_collision:
  "\<exists>h bs. bars_ok h (Some bs) \<and> task_id (h (bar_task (bs ! 0))) \<noteq> task_id (h (bar_task (bs ! 1))) \<and>
     (\<exists>bs'. hightlight h (HTask (h (bar_task (bs ! 1)))) (Some bs) = Some bs' \<and>
        bar_opacity (bs' ! 0) = Some 1 \<and> bar_opacity (bs' ! 1) = Some (2 / 5))"
proof -
  define h :: store where "h = (\<lambda>_. new_task)(1 := trace_task ''a_b'' [] 0 1, 2 := trace_task ''a.b'' [] 2 3)"
  show ?thesis
    by (rule exI [of _ h], rule exI [of _ "[plain_bar h 1, plain_bar h 2]"])
      (simp add: bars_ok_def plain_bar_def h_def taskIdTag_def replaceAll_def hightlight_def Let_def)
qed

end
