(* ===== verification/Task_View.thy ===== *)
theory Task_View
  imports Y_Index Task_Renderer
begin

text \<open>
  \<open>daisen/static/src/taskview.ts\<close> and \<open>xaxisdrawer.ts\<close>: the parent of a task, the task
  and its subtasks as three groups of bars between two time axes.  Every bar lies between the
  axes, the groups are in order, and subtasks that overlap in time are drawn apart.
\<close>

subsection \<open>The axis drawer\<close>

record x_axis_drawer =
  xa_axisHeight :: js_num
  xa_marginLeft :: js_num
  xa_canvasWidth :: js_num
  xa_canvasHeight :: js_num
  xa_xScale :: "lin_scale option"

definition new_x_axis_drawer :: x_axis_drawer where
  "new_x_axis_drawer = \<lparr> xa_axisHeight = 20, xa_marginLeft = 0, xa_canvasWidth = Undef,
     xa_canvasHeight = Undef, xa_xScale = None \<rparr>"

definition setMarginLeft :: "js_num \<Rightarrow> x_axis_drawer \<Rightarrow> x_axis_drawer" where
  "setMarginLeft px d = d\<lparr>xa_marginLeft := px\<rparr>"

definition setCanvasWidth :: "js_num \<Rightarrow> x_axis_drawer \<Rightarrow> x_axis_drawer" where
  "setCanvasWidth px d = d\<lparr>xa_canvasWidth := px\<rparr>"

definition setCanvasHeight :: "js_num \<Rightarrow> x_axis_drawer \<Rightarrow> x_axis_drawer" where
  "setCanvasHeight px d = d\<lparr>xa_canvasHeight := px\<rparr>"

definition setScale :: "lin_scale \<Rightarrow> x_axis_drawer \<Rightarrow> x_axis_drawer" where
  "setScale s d = d\<lparr>xa_xScale := Some s\<rparr>"

text \<open>An axis that is drawn: its scale, where its group is moved to and its white background.\<close>

record axis_group =
  ag_scale :: "lin_scale option"
  ag_left :: js_num
  ag_top :: js_num
  ag_rect_height :: js_num
  ag_rect_width :: js_num
  ag_rect_y :: js_num

definition renderTop :: "js_num \<Rightarrow> x_axis_drawer \<Rightarrow> axis_group" where
  "renderTop yOffset d =
     (let xAxisTop = xa_axisHeight d + yOffset
      in \<lparr> ag_scale = xa_xScale d, ag_left = xa_marginLeft d, ag_top = xAxisTop,
           ag_rect_height = xa_axisHeight d, ag_rect_width = xa_canvasWidth d,
           ag_rect_y = - xAxisTop + yOffset \<rparr>)"

definition renderBottom :: "js_num \<Rightarrow> x_axis_drawer \<Rightarrow> axis_group" where
  "renderBottom yOffset d =
     (let xAxisTop = xa_canvasHeight d - xa_axisHeight d + yOffset
      in \<lparr> ag_scale = xa_xScale d, ag_left = xa_marginLeft d, ag_top = xAxisTop,
           ag_rect_height = xa_axisHeight d, ag_rect_width = xa_canvasWidth d, ag_rect_y = 0 \<rparr>)"

subsection \<open>The view\<close>

record task_view =
  tv_canvasWidth :: js_num
  tv_canvasHeight :: js_num
  tv_marginTop :: js_num
  tv_marginBottom :: js_num
  tv_marginLeft :: js_num
  tv_marginRight :: js_num
  tv_largeTaskHeight :: js_num
  tv_taskGroupGap :: js_num
  tv_startTime :: js_num
  tv_endTime :: js_num
  tv_task :: "ref option"
  tv_parentTask :: "ref option"
  tv_subTasks :: "ref list"
  tv_allTasks :: "ref list option" \<comment> \<open>\<open>None\<close> until the first \<open>render\<close>\<close>
  tv_maxY :: js_num
  tv_renderer :: task_renderer
  tv_xAxis :: x_axis_drawer
  tv_axes :: "(axis_group \<times> axis_group) option" \<comment> \<open>the axes on the canvas\<close>
  tv_bars :: "bar list option" \<comment> \<open>the bar group of the canvas\<close>

definition new_task_view :: "task_renderer \<Rightarrow> x_axis_drawer \<Rightarrow> task_view" where
  "new_task_view r d =
     \<lparr> tv_canvasWidth = 0, tv_canvasHeight = 0, tv_marginTop = 20, tv_marginBottom = 20,
       tv_marginLeft = 5, tv_marginRight = 5, tv_largeTaskHeight = 15, tv_taskGroupGap = 10,
       tv_startTime = 0, tv_endTime = 0, tv_task = None, tv_parentTask = None, tv_subTasks = [],
       tv_allTasks = None, tv_maxY = Undef, tv_renderer = r, tv_xAxis = d, tv_axes = None,
       tv_bars = None \<rparr>"

definition time_scale :: "js_num \<Rightarrow> js_num \<Rightarrow> js_num \<Rightarrow> lin_scale" where
  "time_scale s e w = \<lparr>domain_from = s, domain_to = e, range_from = 0, range_to = w\<rparr>"

definition tv_updateTimeScale :: "task_view \<Rightarrow> task_view" where
  \<comment> \<open>\<open>_updateTimeScale\<close> with \<open>_drawXAxis\<close>\<close>
  "tv_updateTimeScale v =
     (let s = time_scale (tv_startTime v) (tv_endTime v) (tv_canvasWidth v);
          d = setScale s (setCanvasWidth (tv_canvasWidth v) (setCanvasHeight (tv_canvasHeight v) (tv_xAxis v)))
      in v\<lparr>tv_renderer := setXScale s (tv_renderer v), tv_xAxis := d,
           tv_axes := Some (renderTop 0 d, renderBottom 0 d)\<rparr>)"

definition tv_setTimeAxis :: "js_num \<Rightarrow> js_num \<Rightarrow> task_view \<Rightarrow> task_view" where
  "tv_setTimeAxis s e v = tv_updateTimeScale (v\<lparr>tv_startTime := s, tv_endTime := e\<rparr>)"

definition tv_updateLayout :: "js_num \<Rightarrow> js_num \<Rightarrow> task_view \<Rightarrow> task_view" where
  \<comment> \<open>the size of the canvas element is read again; the divider lines are \<open>dividers\<close>\<close>
  "tv_updateLayout offsetWidth offsetHeight v =
     tv_updateTimeScale (v\<lparr>tv_canvasWidth := offsetWidth, tv_canvasHeight := offsetHeight\<rparr>)"

definition dividers :: "task_view \<Rightarrow> js_num \<times> js_num" where
  \<comment> \<open>the two lines of \<open>_drawDivider\<close>\<close>
  "dividers v =
     (tv_marginTop v + tv_taskGroupGap v * Num (3 / 2) + tv_largeTaskHeight v,
      tv_marginTop v + tv_taskGroupGap v * Num (5 / 2) + tv_largeTaskHeight v * 2)"

definition group_titles :: "task_view \<Rightarrow> (js_num \<times> string) list" where
  \<comment> \<open>the texts of \<open>_drawDivider\<close> with the height of their base line; the font has 20 pixels\<close>
  "group_titles v =
     [(tv_marginTop v + tv_taskGroupGap v + 15, ''Parent Task''),
      (tv_marginTop v + tv_taskGroupGap v * 2 + tv_largeTaskHeight v + 16, ''Current Task''),
      (tv_marginTop v + tv_taskGroupGap v * 3 + tv_largeTaskHeight v * 2 + 16, ''Subtasks'')]"

definition tv_barHeight :: "task_view \<Rightarrow> js_num" where
  "tv_barHeight v =
     (let barRegionHeight = tv_canvasHeight v - tv_marginBottom v - tv_marginTop v;
          nonSubTaskRegionHeight = tv_taskGroupGap v * 4 + tv_largeTaskHeight v * 2;
          subTaskRegionHeight = barRegionHeight - nonSubTaskRegionHeight;
          barHeight = subTaskRegionHeight / tv_maxY v
      in if barHeight > 10 then 10 else barHeight)"

definition tv_height_of :: "task_view \<Rightarrow> task \<Rightarrow> js_num" where
  "tv_height_of v t =
     (if isParentTask t then tv_largeTaskHeight v
      else if isMainTask t then tv_largeTaskHeight v
      else tv_barHeight v * Num (3 / 4))"

definition tv_y_of :: "task_view \<Rightarrow> task \<Rightarrow> js_num" where
  "tv_y_of v t =
     (if isParentTask t then tv_taskGroupGap v + tv_marginTop v
      else if isMainTask t then (tv_taskGroupGap v * 2 + tv_largeTaskHeight v) + tv_marginTop v
      else yIndex t * tv_barHeight v + (tv_taskGroupGap v * 3 + tv_largeTaskHeight v * 2) + tv_marginTop v)"

definition tv_doRender ::
    "join \<Rightarrow> scaling \<Rightarrow> (task \<Rightarrow> string js_result) \<Rightarrow> store \<Rightarrow> task_view \<Rightarrow> task_view js_result" where
  "tv_doRender join scale lookup h v =
     (case tv_allTasks v of
        None \<Rightarrow> Inr v
      | Some tasks \<Rightarrow>
          let r = renderWithY (AFun (\<lambda>t _. Inr (tv_y_of v t)))
                    (renderWithHeight (AFun (\<lambda>t _. Inr (tv_height_of v t))) (tv_renderer v))
          in bind_result (render_bars join scale lookup r h (tv_bars v) tasks) (\<lambda>bars.
               Inr (v\<lparr>tv_renderer := r, tv_bars := bars\<rparr>)))"

definition tv_setCanvas ::
    "join \<Rightarrow> scaling \<Rightarrow> (task \<Rightarrow> string js_result) \<Rightarrow> js_num \<Rightarrow> js_num \<Rightarrow> store \<Rightarrow> task_view \<Rightarrow> task_view js_result" where
  "tv_setCanvas join scale lookup offsetWidth offsetHeight h v =
     tv_doRender join scale lookup h (tv_updateLayout offsetWidth offsetHeight v)"

definition tv_updateXAxis :: "scaling \<Rightarrow> store \<Rightarrow> task_view \<Rightarrow> task_view" where
  "tv_updateXAxis scale h v = v\<lparr>tv_bars := renderer_updateXAxis scale (tv_renderer v) h (tv_bars v)\<rparr>"

definition tv_highlight :: "store \<Rightarrow> highlight_arg \<Rightarrow> task_view \<Rightarrow> task_view" where
  "tv_highlight h arg v = v\<lparr>tv_bars := hightlight h arg (tv_bars v)\<rparr>"

definition mark_groups :: "ref option \<Rightarrow> ref \<Rightarrow> store \<Rightarrow> store" where
  \<comment> \<open>the parent is flagged first, then the task\<close>
  "mark_groups parentTask task h =
     (let h1 = (case parentTask of None \<Rightarrow> h | Some p \<Rightarrow> h(p := (h p)\<lparr>isParentTask := True\<rparr>))
      in h1(task := (h1 task)\<lparr>isMainTask := True\<rparr>))"

definition tv_render ::
    "assigner \<Rightarrow> join \<Rightarrow> scaling \<Rightarrow> (task \<Rightarrow> string js_result) \<Rightarrow> ref \<Rightarrow> ref list \<Rightarrow> ref option \<Rightarrow> store \<Rightarrow>
     task_view \<Rightarrow> (task_view \<times> store) js_result" where
  \<comment> \<open>\<open>concat\<close> copies the subtasks before \<open>assign\<close> sorts their array in place\<close>
  "tv_render asg join scale lookup task subs parentTask h v =
     (let tasks = (case parentTask of None \<Rightarrow> [] | Some p \<Rightarrow> [p]) @ [task] @ subs
      in bind_result (asg (mark_groups parentTask task h) subs) (\<lambda>(h', sorted, maxY).
           bind_result (tv_doRender join scale lookup h'
             (v\<lparr>tv_task := Some task, tv_subTasks := sorted, tv_parentTask := parentTask,
                tv_allTasks := Some tasks, tv_maxY := of_nat_num maxY\<rparr>)) (\<lambda>v'. Inr (v', h'))))"

subsection \<open>Geometry\<close>

definition tv_geometry :: "rat \<Rightarrow> task_view \<Rightarrow> bool" where
  \<comment> \<open>a canvas of height \<open>H\<close> with the distances that the constructor sets\<close>
  "tv_geometry H v \<longleftrightarrow> tv_canvasHeight v = Num H \<and> tv_marginTop v = 20 \<and> tv_marginBottom v = 20 \<and>
     tv_largeTaskHeight v = 15 \<and> tv_taskGroupGap v = 10"

lemma tv_barHeight_bounds:
  assumes "tv_geometry H v" "110 < H" "tv_maxY v = of_nat_num m"
  obtains b where "tv_barHeight v = Num b" "0 < b" "b \<le> 10" "of_nat m * b \<le> H - 110"
proof (cases "m = 0")
  case True
  then have "tv_barHeight v = Num 10"
    using assms by (simp add: tv_barHeight_def tv_geometry_def js_num_simps signed_inf_def)
  with True assms(2) show ?thesis by (intro that [of 10]) simp_all
next
  case False
  then have "tv_barHeight v = Num (if (H - 110) / of_nat m > 10 then 10 else (H - 110) / of_nat m)"
    using assms by (simp add: tv_barHeight_def tv_geometry_def js_num_simps)
  with False assms(2) show ?thesis
    by (intro that) (auto simp: field_simps)
qed

lemma tv_subtask_place:
  assumes "tv_barHeight v = Num b" "tv_geometry H v" "\<not> isParentTask t" "\<not> isMainTask t"
    and "yIndex t = of_nat_num k"
  shows "tv_y_of v t = Num (of_nat k * b + 80)" "tv_height_of v t = Num (b * (3 / 4))"
  using assms by (simp_all add: tv_y_of_def tv_height_of_def tv_geometry_def js_num_simps)

lemma tv_large_place:
  assumes "tv_geometry H v"
  shows "isParentTask t \<Longrightarrow> tv_y_of v t = Num 30" "isParentTask t \<Longrightarrow> tv_height_of v t = Num 15"
    and "\<not> isParentTask t \<Longrightarrow> isMainTask t \<Longrightarrow> tv_y_of v t = Num 55"
    and "isMainTask t \<Longrightarrow> tv_height_of v t = Num 15" "dividers v = (Num 50, Num 75)"
  using assms by (simp_all add: tv_y_of_def tv_height_of_def tv_geometry_def dividers_def js_num_simps)

text \<open>
  The title of a group stands on a base line inside its region, one pixel below the lower edge of a
  large bar at most: the bar of the parent ends at its base line, that of the task a pixel above.
\<close>

lemma titles_between_dividers:
  assumes "tv_geometry H v"
  shows "\<exists>a b c. map fst (group_titles v) = [a, b, c] \<and> a < fst (dividers v) \<and> fst (dividers v) < b \<and>
    b < snd (dividers v) \<and> snd (dividers v) < c \<and>
    (isParentTask t \<longrightarrow> tv_y_of v t + tv_height_of v t = a) \<and>
    (\<not> isParentTask t \<and> isMainTask t \<longrightarrow> tv_y_of v t + tv_height_of v t + 1 = b)"
  using assms tv_large_place(1-4) [OF assms, of t] tv_large_place(5) [OF assms] by (auto simp: group_titles_def tv_geometry_def js_num_simps)

text \<open>Which of the three groups a task of the view belongs to.\<close>

definition groups_ok :: "ref option \<Rightarrow> ref \<Rightarrow> ref list \<Rightarrow> store \<Rightarrow> bool" where
  "groups_ok parentTask task subs h \<longleftrightarrow>
     distinct (map (\<lambda>t. task_id (h t)) ((case parentTask of None \<Rightarrow> [] | Some p \<Rightarrow> [p]) @ [task] @ subs)) \<and>
     (\<forall>t \<in> set (task # subs). timed (h t) \<and> \<not> isParentTask (h t)) \<and> (\<forall>t \<in> set subs. \<not> isMainTask (h t))"

lemma mark_groups_simps [simp]:
  "task_id (mark_groups p t h r) = task_id (h r)" "start_time (mark_groups p t h r) = start_time (h r)"
  "end_time (mark_groups p t h r) = end_time (h r)"
  "isParentTask (mark_groups p t h r) = (isParentTask (h r) \<or> p = Some r)"
  "isMainTask (mark_groups p t h r) = (isMainTask (h r) \<or> r = t)"
  by (auto simp: mark_groups_def Let_def split: option.splits)

lemma bars_ok_cong:
  "(\<And>r. task_id (h' r) = task_id (h r)) \<Longrightarrow> bars_ok h' grp = bars_ok h grp"
  using taskIdTag_cong [of "h' r" "h r" for r] by (simp add: bars_ok_def split: option.split)

lemma only_rows_fields:
  assumes "only_rows_written h h' ts"
  shows "task_id (h' r) = task_id (h r)" "start_time (h' r) = start_time (h r)"
    "end_time (h' r) = end_time (h r)" "isParentTask (h' r) = isParentTask (h r)"
    "isMainTask (h' r) = isMainTask (h r)"
proof -
  have "h' r = (h r)\<lparr>yIndex := yIndex (h' r)\<rparr>" using assms by (simp add: only_rows_written_def)
  then obtain y where "h' r = (h r)\<lparr>yIndex := y\<rparr>" ..
  then show "task_id (h' r) = task_id (h r)" "start_time (h' r) = start_time (h r)"
    "end_time (h' r) = end_time (h r)" "isParentTask (h' r) = isParentTask (h r)"
    "isMainTask (h' r) = isMainTask (h r)"
    by simp_all
qed

lemma tv_doRender_bars:
  assumes "keyed_join join" "tv_allTasks w = Some ts" "distinct (map (\<lambda>t. task_id (h t)) ts)"
    and "bars_ok h (tv_bars w)" and run: "tv_doRender join scale lookup h w = Inr v'"
  obtains bs where "tv_bars v' = Some bs" "map bar_task bs = ts"
    "\<And>x. x \<in> set bs \<Longrightarrow> bar_y x = Some (tv_y_of w (h (bar_task x))) \<and>
       bar_height x = tv_height_of w (h (bar_task x))"
proof -
  define r where "r = renderWithY (AFun (\<lambda>t _. Inr (tv_y_of w t)))
    (renderWithHeight (AFun (\<lambda>t _. Inr (tv_height_of w t))) (tv_renderer w))"
  have get: "getYValue r t i = Inr (Some (tv_y_of w t))" "getHeightValue r t i = Inr (tv_height_of w t)" for t i
    by (simp_all add: r_def renderWithY_def renderWithHeight_def getYValue_def getHeightValue_def)
  from run obtain g where g: "render_bars join scale lookup r h (tv_bars w) ts = Inr g"
    and v': "tv_bars v' = g"
    unfolding tv_doRender_def assms(2) option.case Let_def r_def [symmetric]
    by (auto simp: bind_result_Inr_iff)
  obtain bs where bs: "g = Some bs" "map bar_task bs = ts"
    and at: "\<And>i. i < length ts \<Longrightarrow> bar_y (bs ! i) = Some (tv_y_of w (h (ts ! i))) \<and>
       bar_height (bs ! i) = tv_height_of w (h (ts ! i))"
    by (rule render_bars_spec [OF assms(1,3,4) g]) (simp add: get)
  have "bar_y x = Some (tv_y_of w (h (bar_task x))) \<and> bar_height x = tv_height_of w (h (bar_task x))"
    if x: "x \<in> set bs" for x
  proof -
    obtain i where i: "i < length bs" "x = bs ! i" using x by (auto simp: in_set_conv_nth)
    then have "i < length ts" "bar_task x = ts ! i" using bs(2) by (metis length_map, metis nth_map)
    then show ?thesis using at [of i] i by simp
  qed
  then show thesis using that v' bs by simp
qed

context row_assigner
begin

lemma tv_render_cases:
  assumes "keyed_join join" "groups_ok parentTask task subs h" "bars_ok h (tv_bars v)"
    and "tv_geometry H v" "110 < H"
    and run: "tv_render assign_rows join scale lookup task subs parentTask h v = Inr (v', h')"
  obtains bs b where "tv_bars v' = Some bs" "0 < b" "b \<le> 10"
    "map bar_task bs = (case parentTask of None \<Rightarrow> [] | Some p \<Rightarrow> [p]) @ [task] @ subs"
    "\<And>x. x \<in> set bs \<Longrightarrow> parentTask = Some (bar_task x) \<Longrightarrow> bar_y x = Some (Num 30) \<and> bar_height x = Num 15"
    "\<And>x. x \<in> set bs \<Longrightarrow> bar_task x = task \<Longrightarrow> bar_y x = Some (Num 55) \<and> bar_height x = Num 15"
    "\<And>x. x \<in> set bs \<Longrightarrow> bar_task x \<in> set subs \<Longrightarrow> \<exists>k. yIndex (h' (bar_task x)) = of_nat_num k \<and>
       bar_y x = Some (Num (of_nat k * b + 80)) \<and> bar_height x = Num (b * (3 / 4)) \<and>
       of_nat k * b + 80 + b * (3 / 4) \<le> H - 20"
proof -
  let ?ts = "(case parentTask of None \<Rightarrow> [] | Some p \<Rightarrow> [p]) @ [task] @ subs"
  let ?h = "mark_groups parentTask task h"
  from run obtain s m where asg: "assign_rows ?h subs = Inr (h', s, m)"
    and draw: "tv_doRender join scale lookup h' (v\<lparr>tv_task := Some task, tv_subTasks := s,
      tv_parentTask := parentTask, tv_allTasks := Some ?ts, tv_maxY := of_nat_num m\<rparr>) = Inr v'"
    by (auto simp: tv_render_def bind_result_Inr_iff)
  define w where "w = v\<lparr>tv_task := Some task, tv_subTasks := s, tv_parentTask := parentTask,
    tv_allTasks := Some ?ts, tv_maxY := of_nat_num m\<rparr>"
  have w: "tv_geometry H w" "tv_maxY w = of_nat_num m" "tv_allTasks w = Some ?ts" "tv_bars w = tv_bars v"
    using assms(4) by (simp_all add: w_def tv_geometry_def)
  note rows = only_rows_fields [OF assign_frame [OF asg]]
  have ids: "distinct (map (\<lambda>t. task_id (h' t)) ?ts)"
    using assms(2) by (simp only: groups_ok_def rows(1) mark_groups_simps)
  have old: "bars_ok h' (tv_bars v)" using assms(3) bars_ok_cong [of h' h] rows(1) by simp
  obtain bs where bs: "tv_bars v' = Some bs" "map bar_task bs = ?ts"
    and each: "\<And>x. x \<in> set bs \<Longrightarrow> bar_y x = Some (tv_y_of w (h' (bar_task x))) \<and>
      bar_height x = tv_height_of w (h' (bar_task x))"
    using tv_doRender_bars [OF assms(1) w(3) ids _ draw [folded w_def]] old w(4) by metis
  have dist: "distinct ?ts" using ids distinct_map by blast
  obtain b where b: "tv_barHeight w = Num b" "0 < b" "b \<le> 10" "of_nat m * b \<le> H - 110"
    using tv_barHeight_bounds [OF w(1) assms(5) w(2)] .
  have sub: "\<exists>k. yIndex (h' (bar_task x)) = of_nat_num k \<and>
       bar_y x = Some (Num (of_nat k * b + 80)) \<and> bar_height x = Num (b * (3 / 4)) \<and>
       of_nat k * b + 80 + b * (3 / 4) \<le> H - 20"
    if x: "x \<in> set bs" "bar_task x \<in> set subs" for x
  proof -
    obtain k where k: "k \<le> m" "yIndex (h' (bar_task x)) = of_nat_num k"
      using assign_bound [OF asg _ x(2)] dist by auto
    have flags: "\<not> isParentTask (h' (bar_task x))" "\<not> isMainTask (h' (bar_task x))"
      using assms(2) x(2) dist by (auto simp: rows groups_ok_def split: option.splits)
    have "of_nat k * b \<le> of_nat m * b" using k(1) b(2) by (simp add: mult_right_mono)
    then have "of_nat k * b + 80 + b * (3 / 4) \<le> H - 20" using b by linarith
    then show ?thesis
      using k(2) each [OF x(1)] tv_subtask_place [OF b(1) w(1) flags k(2)] by auto
  qed
  have main: "bar_y x = Some (Num 55) \<and> bar_height x = Num 15" if "x \<in> set bs" "bar_task x = task" for x
  proof -
    have "isMainTask (h' task)" by (simp add: rows)
    moreover have "\<not> isParentTask (h' task)"
      using assms(2) dist by (auto simp: rows groups_ok_def split: option.splits)
    ultimately show ?thesis using each [OF that(1)] that(2) tv_large_place [OF w(1)] by simp
  qed
  have parent: "bar_y x = Some (Num 30) \<and> bar_height x = Num 15"
    if "x \<in> set bs" "parentTask = Some (bar_task x)" for x
    using each [OF that(1)] that(2) tv_large_place(1,2) [OF w(1)] by (simp add: rows)
  show thesis using that bs b(2,3) sub main parent by simp
qed

end

subsection \<open>Properties\<close>

text \<open>
  The three groups of the task view: on a canvas higher than 110 pixels the bar of the
  parent is above the first divider, the bar of the task between the dividers, and every bar
  of a subtask between the second divider and the bottom axis, however many rows the subtasks
  need.
\<close>

theorem task_view_groups:
  assumes "keyed_join join" "groups_ok parentTask task subs h" "bars_ok h (tv_bars v)"
    and "tv_geometry H v" "110 < H"
    and "tv_render assign join scale lookup task subs parentTask h v = Inr (v', h')"
  shows "\<exists>bs. tv_bars v' = Some bs \<and>
    map bar_task bs = (case parentTask of None \<Rightarrow> [] | Some p \<Rightarrow> [p]) @ [task] @ subs \<and>
    (\<forall>x \<in> set bs. \<exists>y ht. bar_y x = Some (Num y) \<and> bar_height x = Num ht \<and> 0 < ht \<and>
      (parentTask = Some (bar_task x) \<longrightarrow> Num 20 < Num y \<and> Num (y + ht) < fst (dividers v)) \<and>
      (bar_task x = task \<longrightarrow> fst (dividers v) < Num y \<and> Num (y + ht) < snd (dividers v)) \<and>
      (bar_task x \<in> set subs \<longrightarrow> snd (dividers v) < Num y \<and> y + ht \<le> H - 20))"
proof -
  obtain bs b where bs: "tv_bars v' = Some bs" "0 < b" "b \<le> 10"
    "map bar_task bs = (case parentTask of None \<Rightarrow> [] | Some p \<Rightarrow> [p]) @ [task] @ subs"
    and parent: "\<And>x. x \<in> set bs \<Longrightarrow> parentTask = Some (bar_task x) \<Longrightarrow> bar_y x = Some (Num 30) \<and> bar_height x = Num 15"
    and main: "\<And>x. x \<in> set bs \<Longrightarrow> bar_task x = task \<Longrightarrow> bar_y x = Some (Num 55) \<and> bar_height x = Num 15"
    and sub: "\<And>x. x \<in> set bs \<Longrightarrow> bar_task x \<in> set subs \<Longrightarrow> \<exists>k. yIndex (h' (bar_task x)) = of_nat_num k \<and>
       bar_y x = Some (Num (of_nat k * b + 80)) \<and> bar_height x = Num (b * (3 / 4)) \<and>
       of_nat k * b + 80 + b * (3 / 4) \<le> H - 20"
    by (rule yia.tv_render_cases [OF assms]) blast
  have div: "dividers v = (Num 50, Num 75)" using tv_large_place(5) [OF assms(4)] .
  have kind: "parentTask = Some (bar_task x) \<or> bar_task x = task \<or> bar_task x \<in> set subs" if "x \<in> set bs" for x
  proof -
    have "bar_task x \<in> set (map bar_task bs)" using that by simp
    then show ?thesis unfolding bs(4) by (auto split: option.splits)
  qed
  have dist: "distinct ((case parentTask of None \<Rightarrow> [] | Some p \<Rightarrow> [p]) @ [task] @ subs)"
    using assms(2) distinct_map unfolding groups_ok_def by blast
  have "\<exists>y ht. bar_y x = Some (Num y) \<and> bar_height x = Num ht \<and> 0 < ht \<and>
      (parentTask = Some (bar_task x) \<longrightarrow> Num 20 < Num y \<and> Num (y + ht) < fst (dividers v)) \<and>
      (bar_task x = task \<longrightarrow> fst (dividers v) < Num y \<and> Num (y + ht) < snd (dividers v)) \<and>
      (bar_task x \<in> set subs \<longrightarrow> snd (dividers v) < Num y \<and> y + ht \<le> H - 20)" if x: "x \<in> set bs" for x
    using kind [OF x]
  proof (elim disjE)
    assume "parentTask = Some (bar_task x)"
    then show ?thesis using parent [OF x] dist div by auto
  next
    assume "bar_task x = task"
    then show ?thesis using main [OF x] dist div by auto
  next
    assume "bar_task x \<in> set subs"
    then show ?thesis
      using sub [OF x] dist div bs(2) by (fastforce split: option.splits simp: add_pos_nonneg)
  qed
  then show ?thesis using bs(1,4) by blast
qed

text \<open>Nothing can go wrong when every task has a colour.\<close>

lemma bind_bars_total:
  assumes "\<And>old t i. \<exists>b. bind_bar scale lookup r h old t i = Inr b"
  shows "\<exists>bs. bind_bars scale lookup r h olds kts i = Inr bs"
proof (induction kts arbitrary: i)
  case (Cons kt kts)
  obtain k t where kt: "kt = (k, t)" by (cases kt)
  show ?case
    using Cons.IH [of "i + 1"] assms [of "map_option (\<lambda>j. olds ! j) k" t i] by (auto simp: kt)
qed simp

lemma tv_render_total:
  assumes "\<And>t. \<exists>c. lookup t = Inr c" "tr_x (tv_renderer v) = ANull" "tr_width (tv_renderer v) = ANull"
  shows "\<exists>v' h'. tv_render assign join scale lookup task subs parentTask h v = Inr (v', h')"
proof -
  have bar: "\<exists>b. bind_bar scale lookup (renderWithY (AFun (\<lambda>t _. Inr (tv_y_of w t)))
      (renderWithHeight (AFun (\<lambda>t _. Inr (tv_height_of w t))) (tv_renderer v))) g old t i = Inr b" for w g old t i
    using assms(1) [of "g t"] assms(2,3)
    by (auto simp: bind_bar_def getXValue_def getYValue_def getWidthValue_def getHeightValue_def
        renderWithY_def renderWithHeight_def)
  obtain h' s m where "assign (mark_groups parentTask task h) subs = Inr (h', s, m)"
    using yia.assign_ok by blast
  then show ?thesis
    using bind_bars_total [OF bar]
    by (fastforce simp: tv_render_def tv_doRender_def render_bars_def Let_def bind_result_Inr_iff)
qed

definition sample_view :: task_view where
  "sample_view = tv_setTimeAxis 0 10 (tv_updateLayout 800 200
     (new_task_view (new_task_renderer (time_scale 0 0 0)) new_x_axis_drawer))"

definition family :: store where
  "family = (\<lambda>_. new_task)(1 := trace_task ''p'' [] 0 10, 2 := trace_task ''t'' ''p'' 1 9,
     3 := trace_task ''a'' ''t'' 2 5, 4 := trace_task ''b'' ''t'' 3 6)"

lemma family_ok_groups: "groups_ok (Some 1) 2 [3, 4] family"
  by (simp add: groups_ok_def family_def)

lemma sample_view_simps:
  "tv_geometry 200 sample_view" "bars_ok h (tv_bars sample_view)"
  "tr_x (tv_renderer sample_view) = ANull" "tr_width (tv_renderer sample_view) = ANull"
  by (simp_all add: sample_view_def tv_setTimeAxis_def tv_updateLayout_def tv_updateTimeScale_def
      new_task_view_def new_task_renderer_def setXScale_def tv_geometry_def bars_ok_def Let_def js_num_simps)

theorem task_view_groups_witness:
  "\<exists>v' h' bs. tv_render assign list_join lerp (\<lambda>_. Inr []) 2 [3, 4] (Some 1) family sample_view = Inr (v', h') \<and>
     tv_bars v' = Some bs \<and> map bar_task bs = [1, 2, 3, 4]"
proof -
  obtain v' h' where run:
    "tv_render assign list_join lerp (\<lambda>_. Inr []) 2 [3, 4] (Some 1) family sample_view = Inr (v', h')"
    using tv_render_total [of "\<lambda>_. Inr []" sample_view] sample_view_simps(3,4) by blast
  show ?thesis
    using task_view_groups [OF keyed_list_join family_ok_groups sample_view_simps(2,1) _ run] run by auto
qed

text \<open>
  (C35) Subtasks whose times overlap are drawn in different rows: the bar of one ends above the
  bar of the other.
\<close>

theorem task_view_overlap_apart:
  assumes "keyed_join join" "groups_ok parentTask task subs h" "bars_ok h (tv_bars v)"
    and "tv_geometry H v" "110 < H"
    and "tv_render assign join scale lookup task subs parentTask h v = Inr (v', h')"
    and "a \<in> set subs" "b \<in> set subs" "a \<noteq> b" "\<not> apart (h a) (h b)"
  shows "\<exists>bs x z yx yz hx hz. tv_bars v' = Some bs \<and> x \<in> set bs \<and> z \<in> set bs \<and>
    bar_task x = a \<and> bar_task z = b \<and> bar_y x = Some (Num yx) \<and> bar_y z = Some (Num yz) \<and>
    bar_height x = Num hx \<and> bar_height z = Num hz \<and> 0 < hx \<and> 0 < hz \<and> (yx + hx < yz \<or> yz + hz < yx)"
proof -
  obtain bs c where bs: "tv_bars v' = Some bs" "0 < c"
    "map bar_task bs = (case parentTask of None \<Rightarrow> [] | Some p \<Rightarrow> [p]) @ [task] @ subs"
    and sub: "\<And>x. x \<in> set bs \<Longrightarrow> bar_task x \<in> set subs \<Longrightarrow> \<exists>k. yIndex (h' (bar_task x)) = of_nat_num k \<and>
       bar_y x = Some (Num (of_nat k * c + 80)) \<and> bar_height x = Num (c * (3 / 4)) \<and>
       of_nat k * c + 80 + c * (3 / 4) \<le> H - 20"
    by (rule yia.tv_render_cases [OF assms(1-6)]) blast
  have "a \<in> set (map bar_task bs)" "b \<in> set (map bar_task bs)" unfolding bs(3) using assms(7,8) by simp_all
  then obtain x z where xz: "x \<in> set bs" "bar_task x = a" "z \<in> set bs" "bar_task z = b" by auto
  obtain i j where i: "yIndex (h' a) = of_nat_num i" "bar_y x = Some (Num (of_nat i * c + 80))" "bar_height x = Num (c * (3 / 4))"
    and j: "yIndex (h' b) = of_nat_num j" "bar_y z = Some (Num (of_nat j * c + 80))" "bar_height z = Num (c * (3 / 4))"
    using sub xz assms(7,8) by metis
  obtain s m where asg: "assign (mark_groups parentTask task h) subs = Inr (h', s, m)"
    using assms(6) by (auto simp: tv_render_def bind_result_Inr_iff)
  have dist: "distinct subs" and timed: "\<And>t. t \<in> set subs \<Longrightarrow> timed (mark_groups parentTask task h t)"
    using assms(2) by (auto simp: groups_ok_def timed_def distinct_map split: option.splits)
  have "i \<noteq> j"
    using yia.assign_apart [OF asg dist timed assms(7-9)] assms(10) i(1) j(1) by (auto simp: apart_def)
  then have "of_nat i + 1 \<le> (of_nat j :: rat) \<or> of_nat j + 1 \<le> (of_nat i :: rat)"
    by (metis Suc_leI add.commute linorder_neqE_nat of_nat_Suc of_nat_mono)
  then have "(of_nat i + 1) * c \<le> of_nat j * c \<or> (of_nat j + 1) * c \<le> of_nat i * c"
    using bs(2) by (simp add: mult_right_mono)
  then have "of_nat i * c + 80 + c * (3 / 4) < of_nat j * c + 80 \<or> of_nat j * c + 80 + c * (3 / 4) < of_nat i * c + 80"
    using bs(2) by (auto simp: algebra_simps)
  moreover have "0 < c * (3 / 4)" using bs(2) by simp
  ultimately show ?thesis using bs(1) xz i(2,3) j(2,3) by blast
qed

theorem task_view_overlap_apart_witness:
  "\<exists>v' h' bs x z. tv_render assign list_join lerp (\<lambda>_. Inr []) 2 [3, 4] (Some 1) family sample_view = Inr (v', h') \<and>
     tv_bars v' = Some bs \<and> x \<in> set bs \<and> z \<in> set bs \<and> bar_task x = 3 \<and> bar_task z = 4 \<and> bar_y x \<noteq> bar_y z"
proof -
  obtain v' h' where run:
    "tv_render assign list_join lerp (\<lambda>_. Inr []) 2 [3, 4] (Some 1) family sample_view = Inr (v', h')"
    using tv_render_total [of "\<lambda>_. Inr []" sample_view] sample_view_simps(3,4) by blast
  have "\<not> apart (family 3) (family 4)" by (simp add: apart_def family_def)
  then obtain bs x z yx yz hx hz where "tv_bars v' = Some bs" "x \<in> set bs" "z \<in> set bs"
    "bar_task x = 3" "bar_task z = 4" "bar_y x = Some (Num yx)" "bar_y z = Some (Num yz)"
    "0 < hx" "0 < hz" "yx + hx < yz \<or> yz + hz < yx"
    using task_view_overlap_apart [OF keyed_list_join family_ok_groups sample_view_simps(2,1) _ run, of 3 4]
    by auto
  then show ?thesis using run by (intro exI [of _ v'] exI [of _ h'] exI [of _ bs] exI [of _ x] exI [of _ z]) auto
qed

end
