(* ===== verification/Component_View.thy ===== *)
theory Component_View
  imports Task_View
begin

text \<open>
  \<open>daisen/static/src/componentview.ts\<close>: the tasks of one location drawn as nested boxes.
  \<open>rearrangeAsTree\<close> links the tasks to their parents, \<open>assignTaskLevel\<close> numbers the
  levels, \<open>assignDimension\<close> lays the levels out from the outside in, and
  \<open>_filterTasks\<close> drops what would be smaller than a pixel.  The assigner of rows is the
  object the constructor receives and is an argument here; the laws it has to satisfy are those
  of the locale \<open>row_assigner\<close>.

  The root that \<open>rearrangeAsTree\<close> allocates is kept at a reference of its own.
\<close>

named_theorems tree_simps \<open>fields of the store that the passes over the task tree leave alone\<close>

subsection \<open>The task tree\<close>

definition virtualRoot :: ref where
  "virtualRoot = 0"

fun clear_and_index :: "store \<Rightarrow> (string \<rightharpoonup> ref) \<Rightarrow> ref list \<Rightarrow> store \<times> (string \<rightharpoonup> ref)" where
  \<comment> \<open>the first \<open>tasks.forEach\<close>\<close>
  "clear_and_index h idToTaskMap [] = (h, idToTaskMap)"
| "clear_and_index h idToTaskMap (t # ts) =
     (let h' = h(t := (h t)\<lparr>subTasks := []\<rparr>)
      in clear_and_index h' (idToTaskMap(task_id (h' t) \<mapsto> t)) ts)"

fun link_to_parents ::
    "store \<Rightarrow> (string \<rightharpoonup> ref) \<Rightarrow> ref list \<Rightarrow> ref list \<Rightarrow> (store \<times> ref list) js_result" where
  \<comment> \<open>the second \<open>tasks.forEach\<close>\<close>
  "link_to_parents h idToTaskMap forest [] = Inr (h, forest)"
| "link_to_parents h idToTaskMap forest (t # ts) =
     (case idToTaskMap (parent_id (h t)) of
        Some p \<Rightarrow>
          link_to_parents (h(p := (h p)\<lparr>subTasks := subTasks (h p) @ [t]\<rparr>)) idToTaskMap forest ts
      | None \<Rightarrow>
          if parent_id (h t) \<in> set object_prototype_keys then Inl TypeError
          else link_to_parents h idToTaskMap (forest @ [t]) ts)"

fun each_opt :: "('a \<Rightarrow> store \<Rightarrow> store option) \<Rightarrow> 'a list \<Rightarrow> store \<Rightarrow> store option" where
  \<comment> \<open>\<open>forEach\<close> with a callback that may not return\<close>
  "each_opt f [] h = Some h"
| "each_opt f (x # xs) h = (case f x h of None \<Rightarrow> None | Some h' \<Rightarrow> each_opt f xs h')"

fun assignTaskLevel :: "nat \<Rightarrow> ref \<Rightarrow> nat \<Rightarrow> store \<Rightarrow> store option" where
  \<comment> \<open>the first argument bounds the depth of the recursion\<close>
  "assignTaskLevel 0 task lvl h = None"
| "assignTaskLevel (Suc n) task lvl h =
     each_opt (\<lambda>t. assignTaskLevel n t (lvl + 1)) (subTasks (h task))
       (h(task := (h task)\<lparr>level := of_nat_num lvl\<rparr>))"

definition rearrangeAsTree :: "store \<Rightarrow> ref list \<Rightarrow> store js_result option" where
  \<comment> \<open>the recursion of \<open>assignTaskLevel\<close> is at most as deep as there are tasks\<close>
  "rearrangeAsTree h tasks =
     (let (h1, idToTaskMap) = clear_and_index h Map.empty tasks in
      case link_to_parents h1 idToTaskMap [] tasks of
        Inl e \<Rightarrow> Some (Inl e)
      | Inr (h2, forest) \<Rightarrow>
          (case each_opt (\<lambda>t. assignTaskLevel (length tasks) t 1) forest h2 of
             None \<Rightarrow> None
           | Some h3 \<Rightarrow> Some (Inr (h3(virtualRoot := new_task\<lparr>level := 0, subTasks := forest\<rparr>)))))"

fun getTasksAtLevel :: "store \<Rightarrow> ref \<Rightarrow> nat \<Rightarrow> ref list" where
  "getTasksAtLevel h tree 0 = [tree]"
| "getTasksAtLevel h tree (Suc depth) =
     concat (map (\<lambda>t. getTasksAtLevel h t depth) (subTasks (h tree)))"

subsection \<open>The layout\<close>

definition padTaskHeight :: "js_num \<Rightarrow> js_num" where
  "padTaskHeight height = (if height > 10 then height * Num (8 / 10) else height * Num (6 / 10))"

fun assign_level_rows ::
    "assigner \<Rightarrow> store \<Rightarrow> ref list \<Rightarrow> int \<Rightarrow> (store \<times> int) js_result" where
  "assign_level_rows asg h [] globalMaxY = Inr (h, globalMaxY)"
| "assign_level_rows asg h (t # ts) globalMaxY =
     bind_result (asg h (subTasks (h t))) (\<lambda>(h', sorted, maxY).
       assign_level_rows asg (h'(t := (h' t)\<lparr>subTasks := sorted\<rparr>)) ts
         (if int maxY > globalMaxY then int maxY else globalMaxY))"

definition subtask_dim :: "dim \<Rightarrow> js_num \<Rightarrow> js_num \<Rightarrow> task \<Rightarrow> dim" where
  "subtask_dim parentDim taskHeight paddedTaskHeight subT =
     (let pixelPerSecond = dim_width parentDim / (dim_endTime parentDim - dim_startTime parentDim);
          duration = end_time subT - start_time subT;
          offsetDuration = start_time subT - dim_startTime parentDim
      in \<lparr> dim_x = offsetDuration * pixelPerSecond + dim_x parentDim,
           dim_y = (taskHeight * yIndex subT + dim_y parentDim) + (taskHeight - paddedTaskHeight) / 2,
           dim_width = duration * pixelPerSecond,
           dim_height = paddedTaskHeight,
           dim_startTime = start_time subT,
           dim_endTime = end_time subT \<rparr>)"

fun place_subtasks :: "store \<Rightarrow> dim \<Rightarrow> js_num \<Rightarrow> js_num \<Rightarrow> ref list \<Rightarrow> store" where
  "place_subtasks h d taskHeight padded [] = h"
| "place_subtasks h d taskHeight padded (s # ss) =
     place_subtasks (h(s := (h s)\<lparr>dim_of := Some (subtask_dim d taskHeight padded (h s))\<rparr>))
       d taskHeight padded ss"

fun place_level :: "store \<Rightarrow> js_num \<Rightarrow> js_num \<Rightarrow> ref list \<Rightarrow> store js_result" where
  \<comment> \<open>a task without box that has subtasks raises: its \<open>dim\<close> is \<open>undefined\<close>\<close>
  "place_level h taskHeight padded [] = Inr h"
| "place_level h taskHeight padded (t # ts) =
     (case dim_of (h t) of
        None \<Rightarrow> if subTasks (h t) = [] then place_level h taskHeight padded ts else Inl TypeError
      | Some d \<Rightarrow> place_level (place_subtasks h d taskHeight padded (subTasks (h t))) taskHeight padded ts)"

definition assignDimensionLevel ::
    "assigner \<Rightarrow> store \<Rightarrow> ref \<Rightarrow> js_num \<Rightarrow> nat \<Rightarrow> (store \<times> js_num) js_result" where
  "assignDimensionLevel asg h tree parentLevelHeight depth =
     (if parentLevelHeight < 2 then Inr (h, 0)
      else
        let tasksOfLevel = getTasksAtLevel h tree depth in
        if tasksOfLevel = [] then Inr (h, 0)
        else
          bind_result (assign_level_rows asg h tasksOfLevel (-1)) (\<lambda>(h1, globalMaxY).
            if globalMaxY = -1 then Inr (h1, 0)
            else
              let taskHeight = parentLevelHeight / (of_int_num globalMaxY + 1);
                  paddedTaskHeight = padTaskHeight taskHeight
              in bind_result (place_level h1 taskHeight paddedTaskHeight tasksOfLevel)
                   (\<lambda>h2. Inr (h2, paddedTaskHeight))))"

partial_function (option) dimension_loop ::
    "assigner \<Rightarrow> store \<Rightarrow> ref \<Rightarrow> js_num \<Rightarrow> nat \<Rightarrow> store js_result option" where
  "dimension_loop asg h tree taskHeight depth =
     (if taskHeight > 0 then
        (case assignDimensionLevel asg h tree taskHeight depth of
           Inl e \<Rightarrow> Some (Inl e)
         | Inr (h', taskHeight') \<Rightarrow> dimension_loop asg h' tree taskHeight' (depth + 1))
      else Some (Inr h))"

definition assignDimension :: "assigner \<Rightarrow> store \<Rightarrow> ref \<Rightarrow> dim \<Rightarrow> store js_result option" where
  "assignDimension asg h tree containerDim =
     dimension_loop asg (h(tree := (h tree)\<lparr>dim_of := Some containerDim\<rparr>)) tree
       (dim_height containerDim) 0"

definition shown_task :: "task \<Rightarrow> bool" where
  \<comment> \<open>the predicate of \<open>_filterTasks\<close>\<close>
  "shown_task t =
     (if level t = 1 then True
      else case dim_of t of
        None \<Rightarrow> False
      | Some d \<Rightarrow> if dim_width d < 1 then False else if dim_height d < 1 then False else True)"

definition filterTasks :: "store \<Rightarrow> ref list \<Rightarrow> ref list" where
  "filterTasks h tasks = filter (\<lambda>t. shown_task (h t)) tasks"

record component_view =
  cv_canvasWidth :: js_num
  cv_canvasHeight :: js_num
  cv_marginTop :: js_num
  cv_marginBottom :: js_num
  cv_marginLeft :: js_num
  cv_marginRight :: js_num
  cv_startTime :: js_num
  cv_endTime :: js_num
  cv_tasks :: "ref list option" \<comment> \<open>\<open>None\<close> until the first \<open>render\<close>\<close>
  cv_renderer :: task_renderer
  cv_xAxis :: x_axis_drawer
  cv_axes :: "(axis_group \<times> axis_group) option" \<comment> \<open>the axes on the canvas\<close>
  cv_bars :: "bar list option" \<comment> \<open>the bar group of the canvas\<close>
  cv_location :: "string option" \<comment> \<open>the text of the location label, when there is one\<close>

definition new_component_view :: "task_renderer \<Rightarrow> x_axis_drawer \<Rightarrow> component_view" where
  "new_component_view r d =
     \<lparr> cv_canvasWidth = Undef, cv_canvasHeight = Undef, cv_marginTop = 5, cv_marginBottom = 20,
       cv_marginLeft = 5, cv_marginRight = 5, cv_startTime = Undef, cv_endTime = Undef,
       cv_tasks = None, cv_renderer = r, cv_xAxis = d, cv_axes = None, cv_bars = None, cv_location = None \<rparr>"

definition initDim :: "component_view \<Rightarrow> dim" where
  "initDim v =
     \<lparr> dim_x = 0, dim_y = cv_marginTop v, dim_width = cv_canvasWidth v,
       dim_height = cv_canvasHeight v - cv_marginTop v - cv_marginBottom v,
       dim_startTime = cv_startTime v, dim_endTime = cv_endTime v \<rparr>"

definition layoutData ::
    "assigner \<Rightarrow> component_view \<Rightarrow> ref list \<Rightarrow> store \<Rightarrow> (store \<times> ref list) js_result option" where
  \<comment> \<open>\<open>_renderData\<close> up to the sort: the store with the boxes and the sorted array\<close>
  "layoutData asg v tasks h =
     (case rearrangeAsTree h tasks of
        None \<Rightarrow> None
      | Some (Inl e) \<Rightarrow> Some (Inl e)
      | Some (Inr h1) \<Rightarrow>
          (case assignDimension asg h1 virtualRoot (initDim v) of
             None \<Rightarrow> None
           | Some (Inl e) \<Rightarrow> Some (Inl e)
           | Some (Inr h2) \<Rightarrow> Some (Inr (h2, js_sort (\<lambda>a b. level (h2 a) - level (h2 b)) tasks))))"

definition from_dim :: "(dim \<Rightarrow> js_num) \<Rightarrow> accessor" where
  \<comment> \<open>an accessor \<open>t => t.dim.f\<close>, which raises when the task has no box\<close>
  "from_dim f = AFun (\<lambda>t _. case dim_of t of None \<Rightarrow> Inl TypeError | Some d \<Rightarrow> Inr (f d))"

definition renderData ::
    "assigner \<Rightarrow> join \<Rightarrow> scaling \<Rightarrow> (task \<Rightarrow> string js_result) \<Rightarrow> store \<Rightarrow> component_view \<Rightarrow>
     (component_view \<times> store) js_result option" where
  "renderData asg join scale lookup h v =
     (case cv_tasks v of
        None \<Rightarrow> Some (Inr (v, h))
      | Some tasks \<Rightarrow>
          (case layoutData asg v tasks h of
             None \<Rightarrow> None
           | Some (Inl e) \<Rightarrow> Some (Inl e)
           | Some (Inr (h', tasks')) \<Rightarrow>
               let r = renderWithWidth (from_dim dim_width) (renderWithHeight (from_dim dim_height)
                         (renderWithY (from_dim dim_y) (renderWithX (from_dim dim_x) (cv_renderer v))))
               in Some (bind_result (render_bars join scale lookup r h' (cv_bars v) (filterTasks h' tasks'))
                    (\<lambda>bars. Inr (v\<lparr>cv_tasks := Some tasks', cv_renderer := r, cv_bars := bars\<rparr>, h')))))"

definition cv_updateTimeScale :: "component_view \<Rightarrow> component_view" where
  \<comment> \<open>\<open>_updateTimeScale\<close> with \<open>_drawXAxis\<close>\<close>
  "cv_updateTimeScale v =
     (let s = time_scale (cv_startTime v) (cv_endTime v) (cv_canvasWidth v);
          d = setScale s (setCanvasWidth (cv_canvasWidth v) (setCanvasHeight (cv_canvasHeight v) (cv_xAxis v)))
      in v\<lparr>cv_renderer := setXScale s (cv_renderer v), cv_xAxis := d,
           cv_axes := Some (renderTop (- 15) d, renderBottom 0 d)\<rparr>)"

definition cv_setTimeAxis :: "js_num \<Rightarrow> js_num \<Rightarrow> component_view \<Rightarrow> component_view" where
  "cv_setTimeAxis startTime endTime v =
     cv_updateTimeScale (v\<lparr>cv_startTime := startTime, cv_endTime := endTime\<rparr>)"

definition cv_updateLayout :: "js_num \<Rightarrow> js_num \<Rightarrow> component_view \<Rightarrow> component_view" where
  "cv_updateLayout offsetWidth offsetHeight v =
     cv_updateTimeScale (v\<lparr>cv_canvasWidth := offsetWidth, cv_canvasHeight := offsetHeight\<rparr>)"

definition cv_setCanvas ::
    "assigner \<Rightarrow> join \<Rightarrow> scaling \<Rightarrow> (task \<Rightarrow> string js_result) \<Rightarrow> js_num \<Rightarrow> js_num \<Rightarrow> store \<Rightarrow> component_view \<Rightarrow>
     (component_view \<times> store) js_result option" where
  "cv_setCanvas asg join scale lookup offsetWidth offsetHeight h v =
     renderData asg join scale lookup h (cv_updateLayout offsetWidth offsetHeight v)"

definition cv_updateXAxis :: "scaling \<Rightarrow> store \<Rightarrow> component_view \<Rightarrow> component_view" where
  "cv_updateXAxis scale h v = v\<lparr>cv_bars := renderer_updateXAxis scale (cv_renderer v) h (cv_bars v)\<rparr>"

definition cv_highlight :: "store \<Rightarrow> highlight_arg \<Rightarrow> component_view \<Rightarrow> component_view" where
  "cv_highlight h arg v = v\<lparr>cv_bars := hightlight h arg (cv_bars v)\<rparr>"

definition cv_label :: "store \<Rightarrow> ref list \<Rightarrow> component_view \<Rightarrow> component_view" where
  \<comment> \<open>\<open>_showLocation\<close> and \<open>_removeLocation\<close>; the first task is the first of the sorted array\<close>
  "cv_label h tasks v =
     (case tasks of
        t # _ \<Rightarrow> v\<lparr>cv_location := Some (location (h t))\<rparr>
      | [] \<Rightarrow> (case cv_location v of None \<Rightarrow> v | Some _ \<Rightarrow> v\<lparr>cv_location := Some []\<rparr>))"

definition cv_render ::
    "assigner \<Rightarrow> join \<Rightarrow> scaling \<Rightarrow> (task \<Rightarrow> string js_result) \<Rightarrow> ref list \<Rightarrow> store \<Rightarrow> component_view \<Rightarrow>
     (component_view \<times> store) js_result option" where
  "cv_render asg join scale lookup tasks h v =
     (case renderData asg join scale lookup h (v\<lparr>cv_tasks := Some tasks\<rparr>) of
        Some (Inr (v', h')) \<Rightarrow> Some (Inr (cv_label h' (the (cv_tasks v')) v', h'))
      | r \<Rightarrow> r)"

subsection \<open>What the two linking passes compute\<close>

definition parent_of :: "store \<Rightarrow> ref list \<Rightarrow> ref \<Rightarrow> ref option" where
  \<comment> \<open>the last task of the array that has the identifier \<open>parent_id\<close>\<close>
  "parent_of h tasks t = map_of (rev (map (\<lambda>u. (task_id (h u), u)) tasks)) (parent_id (h t))"

definition roots :: "store \<Rightarrow> ref list \<Rightarrow> ref list" where
  "roots h tasks = filter (\<lambda>t. parent_of h tasks t = None) tasks"

definition children :: "store \<Rightarrow> ref list \<Rightarrow> ref \<Rightarrow> ref list" where
  "children h tasks p = filter (\<lambda>t. parent_of h tasks t = Some p) tasks"

definition linked :: "store \<Rightarrow> ref list \<Rightarrow> store" where
  "linked h tasks =
     (\<lambda>r. if r \<in> set tasks then (h r)\<lparr>subTasks := children h tasks r\<rparr> else h r)"

definition parents_ok :: "store \<Rightarrow> ref list \<Rightarrow> bool" where
  \<comment> \<open>no unmatched \<open>parent_id\<close> is the name of an inherited property\<close>
  "parents_ok h tasks \<longleftrightarrow>
     (\<forall>t \<in> set tasks. parent_of h tasks t = None \<longrightarrow> parent_id (h t) \<notin> set object_prototype_keys)"

lemma parent_of_in: "parent_of h tasks t = Some p \<Longrightarrow> p \<in> set tasks"
  by (auto simp: parent_of_def dest!: map_of_SomeD)

lemma children_outside [simp]: "p \<notin> set tasks \<Longrightarrow> children h tasks p = []"
  by (auto simp: children_def filter_empty_conv dest: parent_of_in)

lemma clear_and_index_eq:
  "clear_and_index h m ts =
     ((\<lambda>r. if r \<in> set ts then (h r)\<lparr>subTasks := []\<rparr> else h r),
      m ++ map_of (rev (map (\<lambda>u. (task_id (h u), u)) ts)))"
proof (induction ts arbitrary: h m)
  case (Cons t ts)
  let ?h = "h(t := (h t)\<lparr>subTasks := []\<rparr>)"
  have "clear_and_index h m (t # ts) = clear_and_index ?h (m(task_id (h t) \<mapsto> t)) ts"
    by (simp add: Let_def)
  also have "\<dots> = ((\<lambda>r. if r \<in> set ts then (?h r)\<lparr>subTasks := []\<rparr> else ?h r),
      m(task_id (h t) \<mapsto> t) ++ map_of (rev (map (\<lambda>u. (task_id (?h u), u)) ts)))"
    by (rule Cons.IH)
  also have "map (\<lambda>u. (task_id (?h u), u)) ts = map (\<lambda>u. (task_id (h u), u)) ts" by auto
  also have "(\<lambda>r. if r \<in> set ts then (?h r)\<lparr>subTasks := []\<rparr> else ?h r) =
      (\<lambda>r. if r \<in> set (t # ts) then (h r)\<lparr>subTasks := []\<rparr> else h r)"
    by auto
  also have "m(task_id (h t) \<mapsto> t) ++ map_of (rev (map (\<lambda>u. (task_id (h u), u)) ts)) =
      m ++ map_of (rev (map (\<lambda>u. (task_id (h u), u)) (t # ts)))"
    by (rule ext) (simp add: map_add_def split: option.split)
  finally show ?case .
qed auto

lemma link_to_parents_Inr:
  assumes "\<And>t. t \<in> set ts \<Longrightarrow> m (parent_id (h t)) = None \<Longrightarrow> parent_id (h t) \<notin> set object_prototype_keys"
  shows "link_to_parents h m forest ts =
    Inr (\<lambda>r. (h r)\<lparr>subTasks := subTasks (h r) @ filter (\<lambda>t. m (parent_id (h t)) = Some r) ts\<rparr>,
         forest @ filter (\<lambda>t. m (parent_id (h t)) = None) ts)"
  using assms
proof (induction ts arbitrary: h forest)
  case (Cons t ts)
  show ?case
  proof (cases "m (parent_id (h t))")
    case None
    then show ?thesis using Cons.prems [of t] Cons.IH [of h "forest @ [t]"] Cons.prems by simp
  next
    case (Some p)
    let ?h = "h(p := (h p)\<lparr>subTasks := subTasks (h p) @ [t]\<rparr>)"
    have pid: "parent_id (?h u) = parent_id (h u)" for u by simp
    have "link_to_parents h m forest (t # ts) = link_to_parents ?h m forest ts"
      using Some by simp
    also have "\<dots> = Inr (\<lambda>r. (?h r)\<lparr>subTasks := subTasks (?h r) @ filter (\<lambda>t. m (parent_id (?h t)) = Some r) ts\<rparr>,
         forest @ filter (\<lambda>t. m (parent_id (?h t)) = None) ts)"
    proof (rule Cons.IH)
      fix u assume "u \<in> set ts" "m (parent_id (?h u)) = None"
      then show "parent_id (?h u) \<notin> set object_prototype_keys"
        unfolding pid by (intro Cons.prems) simp_all
    qed
    also have "(\<lambda>r. (?h r)\<lparr>subTasks := subTasks (?h r) @ filter (\<lambda>t. m (parent_id (?h t)) = Some r) ts\<rparr>) =
      (\<lambda>r. (h r)\<lparr>subTasks := subTasks (h r) @ filter (\<lambda>t. m (parent_id (h t)) = Some r) (t # ts)\<rparr>)"
      unfolding pid using Some by auto
    finally show ?thesis unfolding pid using Some by simp
  qed
qed simp

lemma link_to_parents_Inl:
  assumes "\<exists>t \<in> set ts. m (parent_id (h t)) = None \<and> parent_id (h t) \<in> set object_prototype_keys"
  shows "link_to_parents h m forest ts = Inl TypeError"
  using assms
proof (induction ts arbitrary: h forest)
  case (Cons t ts)
  show ?case
  proof (cases "m (parent_id (h t))")
    case None
    with Cons show ?thesis by auto
  next
    case (Some p)
    with Cons.prems
    have "\<exists>t \<in> set ts. m (parent_id ((h(p := (h p)\<lparr>subTasks := subTasks (h p) @ [t']\<rparr>)) t)) = None \<and>
        parent_id ((h(p := (h p)\<lparr>subTasks := subTasks (h p) @ [t']\<rparr>)) t) \<in> set object_prototype_keys" for t'
      by auto
    with Some Cons.IH show ?thesis by simp
  qed
qed simp

text \<open>Together the passes link every task to its parent and collect the tasks without one.\<close>

lemma linking:
  fixes h tasks
  defines "r \<equiv> clear_and_index h Map.empty tasks"
  shows "link_to_parents (fst r) (snd r) [] tasks =
    (if parents_ok h tasks then Inr (linked h tasks, roots h tasks) else Inl TypeError)"
proof -
  let ?h = "\<lambda>r. if r \<in> set tasks then (h r)\<lparr>subTasks := []\<rparr> else h r"
  let ?m = "map_of (rev (map (\<lambda>u. (task_id (h u), u)) tasks))"
  have r: "r = (?h, ?m)" by (simp add: r_def clear_and_index_eq)
  have pid: "parent_id (?h u) = parent_id (h u)" for u by simp
  have par: "?m (parent_id (?h u)) = parent_of h tasks u" for u
    by (simp add: parent_of_def)
  show ?thesis
  proof (cases "parents_ok h tasks")
    case True
    have "link_to_parents ?h ?m [] tasks =
      Inr (\<lambda>r. (?h r)\<lparr>subTasks := subTasks (?h r) @ filter (\<lambda>t. ?m (parent_id (?h t)) = Some r) tasks\<rparr>,
         [] @ filter (\<lambda>t. ?m (parent_id (?h t)) = None) tasks)"
    proof (rule link_to_parents_Inr)
      fix t assume "t \<in> set tasks" "?m (parent_id (?h t)) = None"
      then show "parent_id (?h t) \<notin> set object_prototype_keys"
        using True by (simp add: parents_ok_def parent_of_def)
    qed
    also have "\<dots> = Inr (linked h tasks, roots h tasks)"
      unfolding par
      unfolding children_def [symmetric] by (auto simp: fun_eq_iff linked_def roots_def)
    finally show ?thesis using True r by simp
  next
    case False
    then have "\<exists>t \<in> set tasks. ?m (parent_id (?h t)) = None \<and> parent_id (?h t) \<in> set object_prototype_keys"
      by (auto simp: parents_ok_def parent_of_def)
    then show ?thesis using False r link_to_parents_Inl [of tasks ?m ?h] by simp
  qed
qed

subsection \<open>Levels\<close>

text \<open>The level of a task: tasks on a cycle of parents, and their descendants, have none.\<close>

inductive task_depth :: "store \<Rightarrow> ref list \<Rightarrow> nat \<Rightarrow> ref \<Rightarrow> bool" for h tasks where
  root: "t \<in> set tasks \<Longrightarrow> parent_of h tasks t = None \<Longrightarrow> task_depth h tasks (Suc 0) t"
| child: "task_depth h tasks d p \<Longrightarrow> t \<in> set tasks \<Longrightarrow> parent_of h tasks t = Some p \<Longrightarrow>
     task_depth h tasks (Suc d) t"

inductive_cases task_depthE: "task_depth h tasks d t"

inductive below :: "store \<Rightarrow> ref list \<Rightarrow> ref \<Rightarrow> ref \<Rightarrow> bool" for h tasks where
  below_refl: "below h tasks t t"
| below_step: "u \<in> set (children h tasks t) \<Longrightarrow> below h tasks u v \<Longrightarrow> below h tasks t v"

lemma task_depth_unique: "task_depth h tasks d t \<Longrightarrow> task_depth h tasks d' t \<Longrightarrow> d = d'"
proof (induction arbitrary: d' rule: task_depth.induct)
  case (root t)
  from root.prems show ?case by (cases rule: task_depth.cases) (use root in auto)
next
  case (child d p t)
  from child.prems obtain e where "d' = Suc e" "task_depth h tasks e p"
    by (cases rule: task_depth.cases) (use child.hyps in simp_all)
  with child.IH show ?case by simp
qed

lemma task_depth_in: "task_depth h tasks d t \<Longrightarrow> t \<in> set tasks \<and> 1 \<le> d"
  by (induction rule: task_depth.induct) auto

lemma task_depth_chain:
  "task_depth h tasks d t \<Longrightarrow> 1 \<le> k \<Longrightarrow> k \<le> d \<Longrightarrow> \<exists>u \<in> set tasks. task_depth h tasks k u"
proof (induction rule: task_depth.induct)
  case (root t)
  then have "k = Suc 0" by simp
  with root show ?case using task_depth.root [of t tasks h] by blast
next
  case (child d p t)
  then show ?case using task_depth.child [of h tasks d p t] by (metis le_Suc_eq)
qed

lemma task_depth_le: "task_depth h tasks d t \<Longrightarrow> d \<le> length tasks"
proof -
  assume d: "task_depth h tasks d t"
  define f where "f k = (SOME u. u \<in> set tasks \<and> task_depth h tasks k u)" for k
  have f: "f k \<in> set tasks \<and> task_depth h tasks k (f k)" if "k \<in> {1..d}" for k
  proof -
    have "\<exists>u. u \<in> set tasks \<and> task_depth h tasks k u" using task_depth_chain [OF d] that by auto
    then show ?thesis unfolding f_def by (rule someI_ex)
  qed
  then have "inj_on f {1..d}" by (metis (mono_tags) inj_onI task_depth_unique)
  moreover have "f ` {1..d} \<subseteq> set tasks" using f by auto
  ultimately have "card {1..d} \<le> card (set tasks)" by (metis List.finite_set card_inj_on_le)
  then show ?thesis using card_length [of tasks] by simp
qed

lemma child_depth:
  "task_depth h tasks d t \<Longrightarrow> u \<in> set (children h tasks t) \<Longrightarrow> task_depth h tasks (Suc d) u"
  by (auto simp: children_def intro: task_depth.child)

lemma below_depth:
  "below h tasks t u \<Longrightarrow> task_depth h tasks d t \<Longrightarrow> \<exists>d'. task_depth h tasks d' u"
  by (induction arbitrary: d rule: below.induct) (auto dest: child_depth)

lemma below_snoc:
  "below h tasks t u \<Longrightarrow> v \<in> set (children h tasks u) \<Longrightarrow> below h tasks t v"
  by (induction rule: below.induct) (auto intro: below.intros)

lemma depth_below_root:
  "task_depth h tasks d t \<Longrightarrow> \<exists>r \<in> set (roots h tasks). below h tasks r t"
proof (induction rule: task_depth.induct)
  case (root t)
  then show ?case by (auto simp: roots_def intro: below_refl)
next
  case (child d p t)
  then have "t \<in> set (children h tasks p)" by (simp add: children_def)
  with child.IH show ?case by (blast intro: below_snoc)
qed

subsection \<open>The level pass\<close>

definition depth_of :: "store \<Rightarrow> ref list \<Rightarrow> ref \<Rightarrow> nat" where
  "depth_of h tasks t = (THE d. task_depth h tasks d t)"

lemma depth_of_eq: "task_depth h tasks d t \<Longrightarrow> depth_of h tasks t = d"
  unfolding depth_of_def by (rule the_equality) (auto dest: task_depth_unique)

definition numbered :: "store \<Rightarrow> ref list \<Rightarrow> ref set \<Rightarrow> store \<Rightarrow> store" where
  "numbered h tasks A g =
     (\<lambda>u. if u \<in> A then (g u)\<lparr>level := of_nat_num (depth_of h tasks u)\<rparr> else g u)"

lemma numbered_numbered [simp]: "numbered h tasks A (numbered h tasks B g) = numbered h tasks (B \<union> A) g"
  by (auto simp: numbered_def fun_eq_iff)

lemma subTasks_numbered [simp]: "subTasks (numbered h tasks A g r) = subTasks (g r)"
  by (simp add: numbered_def)

lemma each_opt_numbered:
  assumes "\<And>g x. x \<in> set xs \<Longrightarrow> (\<And>r. subTasks (g r) = subTasks (g0 r)) \<Longrightarrow>
      f x g = Some (numbered h tasks (A x) g)"
    and "\<And>r. subTasks (g r) = subTasks (g0 r)"
  shows "each_opt f xs g = Some (numbered h tasks (\<Union>x \<in> set xs. A x) g)"
  using assms
proof (induction xs arbitrary: g)
  case Nil
  then show ?case by (simp add: numbered_def)
next
  case (Cons x xs)
  have "f x g = Some (numbered h tasks (A x) g)" using Cons.prems by simp
  moreover have "each_opt f xs (numbered h tasks (A x) g) =
      Some (numbered h tasks (\<Union>x \<in> set xs. A x) (numbered h tasks (A x) g))"
    using Cons.prems by (intro Cons.IH) simp_all
  ultimately show ?case by simp
qed

lemma below_children:
  "Collect (below h tasks t) = insert t (\<Union>u \<in> set (children h tasks t). Collect (below h tasks u))"
  by (auto intro: below.intros elim: below.cases)

lemma assignTaskLevel_numbered:
  assumes "task_depth h tasks d t" "length tasks < n + d"
    and "\<And>r. subTasks (g r) = subTasks (linked h tasks r)"
  shows "assignTaskLevel n t d g = Some (numbered h tasks (Collect (below h tasks t)) g)"
  using assms
proof (induction n arbitrary: t d g)
  case 0
  then show ?case using task_depth_le by fastforce
next
  case (Suc n)
  let ?g = "g(t := (g t)\<lparr>level := of_nat_num d\<rparr>)"
  have "?g = numbered h tasks {t} g"
    using depth_of_eq [OF Suc.prems(1)] by (auto simp: numbered_def)
  moreover have "subTasks (g t) = children h tasks t"
    using Suc.prems(3) task_depth_in [OF Suc.prems(1)] by (simp add: linked_def)
  moreover have "each_opt (\<lambda>u. assignTaskLevel n u (d + 1)) (children h tasks t) ?g =
      Some (numbered h tasks (\<Union>u \<in> set (children h tasks t). Collect (below h tasks u)) ?g)"
  proof (rule each_opt_numbered [where ?g0.0 = "linked h tasks"])
    fix g' :: store and u assume u: "u \<in> set (children h tasks t)"
      and g': "\<And>r. subTasks (g' r) = subTasks (linked h tasks r)"
    show "assignTaskLevel n u (d + 1) g' = Some (numbered h tasks (Collect (below h tasks u)) g')"
      using Suc.prems(2) child_depth [OF Suc.prems(1) u] g' by (intro Suc.IH) simp_all
  next
    fix r show "subTasks (?g r) = subTasks (linked h tasks r)" using Suc.prems(3) by simp
  qed
  ultimately show ?case using below_children [of h tasks t] by simp
qed

definition tree_store :: "store \<Rightarrow> ref list \<Rightarrow> store" where
  "tree_store h tasks =
     (numbered h tasks {t. \<exists>d. task_depth h tasks d t} (linked h tasks))
       (virtualRoot := new_task\<lparr>level := 0, subTasks := roots h tasks\<rparr>)"

lemma root_depth: "t \<in> set (roots h tasks) \<Longrightarrow> task_depth h tasks (Suc 0) t"
  by (auto simp: roots_def intro: task_depth.root)

lemma rearrangeAsTree_eq:
  "rearrangeAsTree h tasks =
     (if parents_ok h tasks then Some (Inr (tree_store h tasks)) else Some (Inl TypeError))"
proof -
  let ?A = "\<lambda>t. Collect (below h tasks t)"
  have "each_opt (\<lambda>t. assignTaskLevel (length tasks) t 1) (roots h tasks) (linked h tasks) =
    Some (numbered h tasks (\<Union>t \<in> set (roots h tasks). ?A t) (linked h tasks))"
    by (rule each_opt_numbered [where ?g0.0 = "linked h tasks"])
      (auto intro!: assignTaskLevel_numbered simp: root_depth)
  moreover have "(\<Union>t \<in> set (roots h tasks). ?A t) = {t. \<exists>d. task_depth h tasks d t}"
    using depth_below_root by (fastforce dest: root_depth below_depth)
  ultimately show ?thesis
    using linking [of h tasks]
    by (auto simp: rearrangeAsTree_def tree_store_def case_prod_unfold)
qed

lemma tree_store_simps [simp]:
  "start_time (tree_store h tasks t) = (if t = virtualRoot then Undef else start_time (h t))"
  "end_time (tree_store h tasks t) = (if t = virtualRoot then Undef else end_time (h t))"
  "t \<noteq> virtualRoot \<Longrightarrow> task_id (tree_store h tasks t) = task_id (h t)"
  "t \<noteq> virtualRoot \<Longrightarrow> dim_of (tree_store h tasks t) = dim_of (h t)"
  "subTasks (tree_store h tasks virtualRoot) = roots h tasks"
  "t \<noteq> virtualRoot \<Longrightarrow> t \<in> set tasks \<Longrightarrow> subTasks (tree_store h tasks t) = children h tasks t"
  by (simp_all add: tree_store_def numbered_def linked_def new_task_def)

lemma tree_store_level:
  "virtualRoot \<notin> set tasks \<Longrightarrow> task_depth h tasks d t \<Longrightarrow> level (tree_store h tasks t) = of_nat_num d"
  using task_depth_in [of h tasks d t]
  by (auto simp: tree_store_def numbered_def depth_of_eq)

subsection \<open>Heights\<close>

lemma padTaskHeight_Num:
  "padTaskHeight (Num x) = Num (if x > 10 then x * (8 / 10) else x * (6 / 10))"
  by (simp add: padTaskHeight_def js_num_simps)

lemma padTaskHeight_bounds:
  assumes "padTaskHeight (Num x) = Num p" "0 < x"
  shows "0 < p" "p \<le> 4 / 5 * x"
  using assms by (auto simp: padTaskHeight_Num split: if_splits)

lemma level_height_Num:
  "0 \<le> m \<Longrightarrow> Num x / (of_int_num m + 1) = Num (x / (of_int m + 1))"
  by (simp add: js_num_simps)

subsection \<open>Rows of one level\<close>

text \<open>What a pass over one level may change: the row indices and the order of subtask arrays.\<close>

definition rows_frame :: "store \<Rightarrow> store \<Rightarrow> bool" where
  "rows_frame h h' \<longleftrightarrow>
     (\<forall>r. h' r = (h r)\<lparr>subTasks := subTasks (h' r), yIndex := yIndex (h' r)\<rparr> \<and>
          mset (subTasks (h' r)) = mset (subTasks (h r)))"

lemma rows_frameD:
  assumes "rows_frame h h'"
  shows "start_time (h' r) = start_time (h r)" "end_time (h' r) = end_time (h r)"
    "dim_of (h' r) = dim_of (h r)" "mset (subTasks (h' r)) = mset (subTasks (h r))"
    "set (subTasks (h' r)) = set (subTasks (h r))" "level (h' r) = level (h r)"
    "task_id (h' r) = task_id (h r)" "kind (h' r) = kind (h r)" "what (h' r) = what (h r)"
proof -
  have *: "h' r = (h r)\<lparr>subTasks := subTasks (h' r), yIndex := yIndex (h' r)\<rparr>"
    and ms: "mset (subTasks (h' r)) = mset (subTasks (h r))"
    using assms by (auto simp: rows_frame_def)
  show "start_time (h' r) = start_time (h r)" "end_time (h' r) = end_time (h r)"
    "dim_of (h' r) = dim_of (h r)" "level (h' r) = level (h r)"
    "task_id (h' r) = task_id (h r)" "kind (h' r) = kind (h r)" "what (h' r) = what (h r)"
    by (subst *, simp)+
  show "mset (subTasks (h' r)) = mset (subTasks (h r))" by (rule ms)
  then show "set (subTasks (h' r)) = set (subTasks (h r))" by (rule mset_eq_setD)
qed

lemma rows_frame_refl: "rows_frame h h"
  by (simp add: rows_frame_def)

lemma rows_frame_trans: "rows_frame h h' \<Longrightarrow> rows_frame h' h'' \<Longrightarrow> rows_frame h h''"
  unfolding rows_frame_def
proof (intro allI)
  fix r
  assume "\<forall>r. h' r = (h r)\<lparr>subTasks := subTasks (h' r), yIndex := yIndex (h' r)\<rparr> \<and>
      mset (subTasks (h' r)) = mset (subTasks (h r))"
    and "\<forall>r. h'' r = (h' r)\<lparr>subTasks := subTasks (h'' r), yIndex := yIndex (h'' r)\<rparr> \<and>
      mset (subTasks (h'' r)) = mset (subTasks (h' r))"
  then have 1: "h' r = (h r)\<lparr>subTasks := subTasks (h' r), yIndex := yIndex (h' r)\<rparr>"
    and 2: "h'' r = (h' r)\<lparr>subTasks := subTasks (h'' r), yIndex := yIndex (h'' r)\<rparr>"
    and 3: "mset (subTasks (h'' r)) = mset (subTasks (h r))"
    by auto
  have "h'' r = ((h r)\<lparr>subTasks := subTasks (h' r), yIndex := yIndex (h' r)\<rparr>)
      \<lparr>subTasks := subTasks (h'' r), yIndex := yIndex (h'' r)\<rparr>"
    using 1 2 by metis
  with 3 show "h'' r = (h r)\<lparr>subTasks := subTasks (h'' r), yIndex := yIndex (h'' r)\<rparr> \<and>
      mset (subTasks (h'' r)) = mset (subTasks (h r))"
    by simp
qed

lemma rows_frame_step:
  assumes "only_rows_written h h' (subTasks (h t))" "mset s = mset (subTasks (h t))"
  shows "rows_frame h (h'(t := (h' t)\<lparr>subTasks := s\<rparr>))"
  unfolding rows_frame_def
proof
  fix r
  have "h' r = (h r)\<lparr>yIndex := yIndex (h' r)\<rparr>" using assms(1) by (auto simp: only_rows_written_def)
  then obtain y where eq: "h' r = (h r)\<lparr>yIndex := y\<rparr>" by blast
  show "(h'(t := (h' t)\<lparr>subTasks := s\<rparr>)) r =
      (h r)\<lparr>subTasks := subTasks ((h'(t := (h' t)\<lparr>subTasks := s\<rparr>)) r),
        yIndex := yIndex ((h'(t := (h' t)\<lparr>subTasks := s\<rparr>)) r)\<rparr> \<and>
      mset (subTasks ((h'(t := (h' t)\<lparr>subTasks := s\<rparr>)) r)) = mset (subTasks (h r))"
    using eq assms(2) by (cases "r = t") simp_all
qed

definition rows_ok :: "store \<Rightarrow> int \<Rightarrow> ref \<Rightarrow> bool" where
  \<comment> \<open>the subtasks of \<open>t\<close> have row indices up to the bound, and equal ones only if they are apart\<close>
  "rows_ok h m t \<longleftrightarrow>
     (\<forall>c \<in> set (subTasks (h t)). \<exists>k. yIndex (h c) = of_nat_num k \<and> int k \<le> m) \<and>
     (\<forall>a \<in> set (subTasks (h t)). \<forall>b \<in> set (subTasks (h t)). a \<noteq> b \<longrightarrow> yIndex (h a) = yIndex (h b) \<longrightarrow>
        apart (h a) (h b))"

lemma apart_frame: "rows_frame h h' \<Longrightarrow> apart (h' a) (h' b) = apart (h a) (h b)"
  by (simp add: apart_def rows_frameD)

context row_assigner
begin

lemma assign_level_rows_total:
  "\<exists>h' m'. assign_level_rows assign_rows h ts m = Inr (h', m') \<and> rows_frame h h' \<and> m \<le> m' \<and>
     (ts \<noteq> [] \<longrightarrow> 0 \<le> m')"
proof (induction ts arbitrary: h m)
  case Nil
  then show ?case by (simp add: rows_frame_refl)
next
  case (Cons t ts)
  obtain h1 s k where run: "assign_rows h (subTasks (h t)) = Inr (h1, s, k)"
    using assign_ok by blast
  let ?h = "h1(t := (h1 t)\<lparr>subTasks := s\<rparr>)"
  let ?m = "if int k > m then int k else m"
  obtain h' m' where "assign_level_rows assign_rows ?h ts ?m = Inr (h', m')" "rows_frame ?h h'" "?m \<le> m'"
    using Cons.IH by blast
  moreover have "rows_frame h ?h"
    using assign_frame [OF run] assign_perm [OF run] by (rule rows_frame_step)
  ultimately show ?case using run by (auto intro: rows_frame_trans split: if_splits)
qed

text \<open>The test for an empty level after the row pass can never succeed.\<close>

lemma assign_level_rows_not_neg:
  "ts \<noteq> [] \<Longrightarrow> assign_level_rows assign_rows h ts m = Inr (h', m') \<Longrightarrow> 0 \<le> m'"
  using assign_level_rows_total [of h ts m] by auto

lemma assignDimensionLevel_cases:
  obtains (stop) "assignDimensionLevel assign_rows h tree (Num x) depth = Inr (h, 0)"
  | (go) h1 m where "2 \<le> x" "getTasksAtLevel h tree depth \<noteq> []" "0 \<le> m" "rows_frame h h1"
    "assign_level_rows assign_rows h (getTasksAtLevel h tree depth) (-1) = Inr (h1, m)"
    "assignDimensionLevel assign_rows h tree (Num x) depth =
       bind_result (place_level h1 (Num (x / (of_int m + 1))) (padTaskHeight (Num (x / (of_int m + 1))))
           (getTasksAtLevel h tree depth))
         (\<lambda>h2. Inr (h2, padTaskHeight (Num (x / (of_int m + 1)))))"
proof (cases "x < 2 \<or> getTasksAtLevel h tree depth = []")
  case True
  then show ?thesis using stop by (auto simp: assignDimensionLevel_def js_num_simps Let_def)
next
  case False
  then obtain h1 m where rows: "assign_level_rows assign_rows h (getTasksAtLevel h tree depth) (-1) = Inr (h1, m)"
    and m: "0 \<le> m" "rows_frame h h1" using assign_level_rows_total by blast
  then have "assignDimensionLevel assign_rows h tree (Num x) depth =
       bind_result (place_level h1 (Num (x / (of_int m + 1))) (padTaskHeight (Num (x / (of_int m + 1))))
           (getTasksAtLevel h tree depth))
         (\<lambda>h2. Inr (h2, padTaskHeight (Num (x / (of_int m + 1)))))"
    using False by (simp add: assignDimensionLevel_def numeral_js_num Let_def level_height_Num)
  then show ?thesis using go False rows m by auto
qed

lemma assignDimensionLevel_height:
  assumes "assignDimensionLevel assign_rows h tree (Num x) depth = Inr (h', x')" "0 < x"
  shows "x' = 0 \<or> (\<exists>p. x' = Num p \<and> 0 < p \<and> p \<le> 4 / 5 * x)"
proof (cases rule: assignDimensionLevel_cases [of h tree x depth])
  case stop
  then show ?thesis using assms by simp
next
  case (go h1 m)
  let ?x = "x / (of_int m + 1)"
  have x: "0 < ?x" "?x \<le> x" using assms(2) go by (simp_all add: field_simps)
  obtain p where p: "padTaskHeight (Num ?x) = Num p" by (simp add: padTaskHeight_Num)
  from assms(1) [unfolded go(6) p] have "x' = Num p" by (auto simp: bind_result_Inr_iff)
  moreover have "p \<le> 4 / 5 * x" using padTaskHeight_bounds(2) [OF p x(1)] x(2) by linarith
  ultimately show ?thesis using padTaskHeight_bounds(1) [OF p x(1)] by simp
qed

text \<open>Every level is at most four fifths as high as the one around it, so the loop ends.\<close>

lemma dimension_loop_returns_below:
  "x < 2 * (5 / 4) ^ k \<Longrightarrow> \<exists>r. dimension_loop assign_rows h tree (Num x) depth = Some r"
proof (induction k arbitrary: x h depth)
  case 0
  then show ?case
    by (auto simp: dimension_loop.simps [of assign_rows h] assignDimensionLevel_def js_num_simps
        dimension_loop.simps [of assign_rows h tree "Num 0"])
next
  case (Suc k)
  show ?case
  proof (cases "0 < x")
    case False
    then show ?thesis by (simp add: dimension_loop.simps [of assign_rows h] js_num_simps)
  next
    case True
    show ?thesis
    proof (cases "assignDimensionLevel assign_rows h tree (Num x) depth")
      case (Inl e)
      then show ?thesis using True by (simp add: dimension_loop.simps [of assign_rows h] js_num_simps)
    next
      case (Inr r)
      then obtain h' x' where r: "assignDimensionLevel assign_rows h tree (Num x) depth = Inr (h', x')"
        by (cases r) auto
      from assignDimensionLevel_height [OF r True]
      obtain p where "x' = Num p" "p < 2 * (5 / 4) ^ k"
      proof
        assume "x' = 0" then show thesis using that [of 0] by (simp add: js_num_simps)
      next
        assume "\<exists>p. x' = Num p \<and> 0 < p \<and> p \<le> 4 / 5 * x"
        then show thesis using Suc.prems that by auto
      qed
      then show ?thesis
        using Suc.IH [of p h' "depth + 1"] r True
        by (simp add: dimension_loop.simps [of assign_rows h] js_num_simps)
    qed
  qed
qed

end

lemma power_exceeds: "\<exists>k. (x :: rat) < 2 * (5 / 4) ^ k"
proof -
  have grow: "1 + of_nat k / 4 \<le> (5 / 4 :: rat) ^ k" for k
  proof (induction k)
    case (Suc k)
    have "1 + of_nat (Suc k) / 4 \<le> (5 / 4 :: rat) * (1 + of_nat k / 4)" by (simp add: field_simps)
    also have "\<dots> \<le> 5 / 4 * (5 / 4) ^ k" using Suc by (intro mult_left_mono) simp_all
    finally show ?case by simp
  qed simp
  obtain n where "x < of_nat n" using reals_Archimedean2 by blast
  moreover have "of_nat n \<le> 2 * (5 / 4 :: rat) ^ (2 * n)" using grow [of "2 * n"] by simp
  ultimately show ?thesis by (meson less_le_trans)
qed

subsection \<open>Properties of the task tree\<close>

text \<open>
  (C6) \<open>rearrangeAsTree\<close> always ends, also when the parent links of the trace are cyclic, and
  raises a \<open>TypeError\<close> exactly when some task names a parent that is not in the array and
  whose name every JavaScript object inherits.
\<close>

theorem rearrangeAsTree_outcome:
  "\<exists>r. rearrangeAsTree h tasks = Some r \<and>
     (r = Inl TypeError \<longleftrightarrow>
        (\<exists>t \<in> set tasks. parent_id (h t) \<notin> (\<lambda>u. task_id (h u)) ` set tasks \<and>
           parent_id (h t) \<in> set object_prototype_keys)) \<and>
     (r \<noteq> Inl TypeError \<longleftrightarrow> (\<exists>h'. r = Inr h'))"
proof -
  have "parent_of h tasks t = None \<longleftrightarrow> parent_id (h t) \<notin> (\<lambda>u. task_id (h u)) ` set tasks" for t
    by (simp add: parent_of_def map_of_eq_None_iff image_image)
  then show ?thesis by (auto simp: rearrangeAsTree_eq parents_ok_def)
qed


definition small_tree :: store where
  "small_tree = (\<lambda>_. new_task)(1 := trace_task ''a'' [] 0 10, 2 := trace_task ''b'' ''a'' 1 5)"

lemma small_tree_run:
  "rearrangeAsTree small_tree [1, 2] = Some (Inr (tree_store small_tree [1, 2]))"
  by (simp add: rearrangeAsTree_eq parents_ok_def parent_of_def small_tree_def object_prototype_keys_def)


text \<open>
  (C5) The level of a task is the length of its chain of parents, counted from one at the top
  level; a task has a level of its own only when that chain ends.
\<close>

theorem rearrangeAsTree_levels:
  assumes "rearrangeAsTree h tasks = Some (Inr h')" "virtualRoot \<notin> set tasks"
  shows "level (h' virtualRoot) = 0 \<and>
    (\<forall>d t. task_depth h tasks d t \<longrightarrow> level (h' t) = of_nat_num d) \<and>
    (\<forall>t. t \<noteq> virtualRoot \<and> (\<nexists>d. task_depth h tasks d t) \<longrightarrow> level (h' t) = level (h t))"
proof -
  have h': "h' = tree_store h tasks" using assms(1) by (simp add: rearrangeAsTree_eq split: if_splits)
  have "level (tree_store h tasks t) = level (h t)"
    if "t \<noteq> virtualRoot" "\<nexists>d. task_depth h tasks d t" for t
    using that by (simp add: tree_store_def numbered_def linked_def)
  then show ?thesis
    unfolding h' using tree_store_level [OF assms(2)] by (auto simp: tree_store_def)
qed

theorem rearrangeAsTree_levels_witness:
  "level (tree_store small_tree [1, 2] 1) = Num 1 \<and> level (tree_store small_tree [1, 2] 2) = Num 2"
proof -
  have "task_depth small_tree [1, 2] (Suc 0) 1"
    by (rule task_depth.root) (simp_all add: parent_of_def small_tree_def)
  moreover from this have "task_depth small_tree [1, 2] (Suc (Suc 0)) 2"
    by (rule task_depth.child) (simp_all add: parent_of_def small_tree_def)
  ultimately show ?thesis
    using rearrangeAsTree_levels [OF small_tree_run] by (auto simp: virtualRoot_def)
qed

end
