(* ===== verification/Component_Layout.thy ===== *)
theory Component_Layout
  imports Component_View
begin

text \<open>
  The geometry of the nested boxes of \<open>componentview.ts\<close>.  Whatever the depth, the
  horizontal position and extent of a box are those of one linear time scale for the whole view;
  vertically a box lies inside the box of its parent; and the boxes of two subtasks of one task
  never overlap.  The facts about one level are proved for every assigner of rows that
  satisfies the laws of \<open>row_assigner\<close> and then lifted over the loop of
  \<open>assignDimension\<close>.
\<close>

subsection \<open>One box\<close>

definition on_scale :: "rat \<Rightarrow> rat \<Rightarrow> dim \<Rightarrow> bool" where
  \<comment> \<open>time \<open>S\<close> is drawn at 0 and a unit of time is \<open>pps\<close> pixels wide\<close>
  "on_scale S pps d \<longleftrightarrow>
     (\<exists>s e. dim_startTime d = Num s \<and> dim_endTime d = Num e \<and> s < e \<and>
        dim_x d = Num ((s - S) * pps) \<and> dim_width d = Num ((e - s) * pps))"

definition inside :: "dim \<Rightarrow> dim \<Rightarrow> bool" where
  "inside c p \<longleftrightarrow> dim_y p \<le> dim_y c \<and> dim_y c + dim_height c \<le> dim_y p + dim_height p"

definition no_overlap :: "dim \<Rightarrow> dim \<Rightarrow> bool" where
  "no_overlap a b \<longleftrightarrow>
     dim_x a + dim_width a \<le> dim_x b \<or> dim_x b + dim_width b \<le> dim_x a \<or>
     dim_y a + dim_height a \<le> dim_y b \<or> dim_y b + dim_height b \<le> dim_y a"

lemma subtask_dim_times [simp]:
  "dim_startTime (subtask_dim d H P c) = start_time c" "dim_endTime (subtask_dim d H P c) = end_time c"
  "dim_height (subtask_dim d H P c) = P"
  by (simp_all add: subtask_dim_def Let_def)

lemma subtask_dim_on_scale:
  assumes "on_scale S pps d" "lasting c"
  shows "on_scale S pps (subtask_dim d H P c)"
proof -
  obtain s e where d: "dim_startTime d = Num s" "dim_endTime d = Num e" "s < e"
    "dim_x d = Num ((s - S) * pps)" "dim_width d = Num ((e - s) * pps)"
    using assms(1) by (auto simp: on_scale_def)
  obtain cs ce where c: "start_time c = Num cs" "end_time c = Num ce" "cs < ce"
    using assms(2) by (rule lastingE)
  have "(cs - s) * pps + (s - S) * pps = (cs - S) * pps" by (simp add: algebra_simps)
  then show ?thesis using d c by (auto simp: on_scale_def subtask_dim_def Let_def)
qed

lemma subtask_dim_y:
  assumes "dim_y d = Num y" "yIndex c = of_nat_num k"
  shows "dim_y (subtask_dim d (Num H) (Num p) c) = Num (H * of_nat k + y + (H - p) / 2)"
  using assms by (simp add: subtask_dim_def Let_def js_num_simps)

lemma box_bottom:
  "a \<le> b \<Longrightarrow> a = c + H \<Longrightarrow> p \<le> H \<Longrightarrow> c + y + (H - p) / 2 + p \<le> y + (b :: rat)"
  by (simp add: field_simps)

lemma subtask_inside:
  assumes "dim_y d = Num y" "dim_height d = Num (H * (of_int m + 1))" "0 < H" "p \<le> H"
    and "yIndex c = of_nat_num k" "int k \<le> m"
  shows "inside (subtask_dim d (Num H) (Num p) c) d"
proof -
  have "of_nat k + 1 \<le> (of_int m + 1 :: rat)"
    using assms(6) by (metis add_le_cancel_right of_int_le_iff of_int_of_nat_eq)
  then have "H * (of_nat k + 1) \<le> H * (of_int m + 1)" using assms(3) by (intro mult_left_mono) simp_all
  moreover have "H * (of_nat k + 1) = H * of_nat k + H" by (simp add: algebra_simps)
  ultimately have "H * of_nat k + y + (H - p) / 2 + p \<le> y + H * (of_int m + 1)"
    using assms(4) by (rule box_bottom)
  moreover have "y \<le> H * of_nat k + y + (H - p) / 2" using assms(3,4) by simp
  ultimately show ?thesis
    unfolding inside_def subtask_dim_y [OF assms(1,5)] assms(1,2) by simp
qed

lemma subtasks_rows_apart:
  assumes "dim_y d = Num y" "0 < H" "p \<le> H"
    and "yIndex a = of_nat_num i" "yIndex b = of_nat_num j" "i < j"
  shows "no_overlap (subtask_dim d (Num H) (Num p) a) (subtask_dim d (Num H) (Num p) b)"
proof -
  have "(of_nat i + 1 :: rat) \<le> of_nat j" using assms(6)
    by (metis Suc_leI of_nat_Suc of_nat_le_iff add.commute)
  then have "H * (of_nat i + 1) \<le> H * of_nat j" using assms(2) by (intro mult_left_mono) simp_all
  moreover have "H * (of_nat i + 1) = H * of_nat i + H" by (simp add: algebra_simps)
  ultimately have "H * of_nat i + y + (H - p) / 2 + p \<le> H * of_nat j + y + (H - p) / 2"
    using assms(3) by linarith
  then show ?thesis
    unfolding no_overlap_def subtask_dim_y [OF assms(1,4)] subtask_dim_y [OF assms(1,5)] by simp
qed

lemma no_overlap_sym: "no_overlap a b \<longleftrightarrow> no_overlap b a"
  by (auto simp: no_overlap_def)

lemma apart_no_overlap:
  assumes "on_scale S pps da" "on_scale S pps db" "0 \<le> pps"
    and "dim_startTime da = start_time a" "dim_endTime da = end_time a"
    and "dim_startTime db = start_time b" "dim_endTime db = end_time b" "apart a b"
  shows "no_overlap da db"
proof -
  obtain s e where a: "start_time a = Num s" "end_time a = Num e"
    "dim_x da = Num ((s - S) * pps)" "dim_width da = Num ((e - s) * pps)"
    using assms(1,4,5) by (auto simp: on_scale_def)
  obtain s' e' where b: "start_time b = Num s'" "end_time b = Num e'"
    "dim_x db = Num ((s' - S) * pps)" "dim_width db = Num ((e' - s') * pps)"
    using assms(2,6,7) by (auto simp: on_scale_def)
  have "e \<le> s' \<or> e' \<le> s" using assms(8) a b by (auto simp: apart_def)
  then have "(e - S) * pps \<le> (s' - S) * pps \<or> (e' - S) * pps \<le> (s - S) * pps"
    using assms(3) by (auto intro: mult_right_mono)
  then show ?thesis using a b by (auto simp: no_overlap_def algebra_simps)
qed

subsection \<open>Placing the subtasks of one level\<close>

lemma place_subtasks_eq:
  "place_subtasks h d H P ss =
     (\<lambda>r. if r \<in> set ss then (h r)\<lparr>dim_of := Some (subtask_dim d H P (h r))\<rparr> else h r)"
proof (induction ss arbitrary: h)
  case (Cons s ss)
  have "place_subtasks h d H P (s # ss) =
      place_subtasks (h(s := (h s)\<lparr>dim_of := Some (subtask_dim d H P (h s))\<rparr>)) d H P ss"
    by simp
  also have "\<dots> = (\<lambda>r. if r \<in> set (s # ss) then (h r)\<lparr>dim_of := Some (subtask_dim d H P (h r))\<rparr> else h r)"
    unfolding Cons.IH by (auto simp: fun_eq_iff subtask_dim_def Let_def)
  finally show ?case .
qed simp

definition dims_frame :: "store \<Rightarrow> store \<Rightarrow> ref set \<Rightarrow> bool" where
  "dims_frame h h' A \<longleftrightarrow>
     (\<forall>r. h' r = (h r)\<lparr>dim_of := dim_of (h' r)\<rparr>) \<and> (\<forall>r. r \<notin> A \<longrightarrow> h' r = h r)"

lemma dims_frameD:
  assumes "dims_frame h h' A"
  shows "start_time (h' r) = start_time (h r)" "end_time (h' r) = end_time (h r)"
    "subTasks (h' r) = subTasks (h r)" "yIndex (h' r) = yIndex (h r)" "level (h' r) = level (h r)"
    "task_id (h' r) = task_id (h r)" "kind (h' r) = kind (h r)" "what (h' r) = what (h r)"
proof -
  have *: "h' r = (h r)\<lparr>dim_of := dim_of (h' r)\<rparr>" using assms by (auto simp: dims_frame_def)
  show "start_time (h' r) = start_time (h r)" "end_time (h' r) = end_time (h r)"
    "subTasks (h' r) = subTasks (h r)" "yIndex (h' r) = yIndex (h r)" "level (h' r) = level (h r)"
    "task_id (h' r) = task_id (h r)" "kind (h' r) = kind (h r)" "what (h' r) = what (h r)"
    by (subst *, simp)+
qed

lemma subtask_dim_frame: "dims_frame h h' A \<Longrightarrow> subtask_dim d H P (h' c) = subtask_dim d H P (h c)"
  by (simp add: subtask_dim_def dims_frameD)

definition kids :: "store \<Rightarrow> ref list \<Rightarrow> ref set" where
  "kids h ts = (\<Union>t \<in> set ts. set (subTasks (h t)))"

lemma place_level_spec:
  assumes "\<And>t. t \<in> set ts \<Longrightarrow> dim_of (h t) \<noteq> None" "distinct ts"
    and "kids h ts \<inter> set ts = {}"
    and "\<And>a b. a \<in> set ts \<Longrightarrow> b \<in> set ts \<Longrightarrow> a \<noteq> b \<Longrightarrow> set (subTasks (h a)) \<inter> set (subTasks (h b)) = {}"
  shows "\<exists>h'. place_level h H P ts = Inr h' \<and> dims_frame h h' (kids h ts) \<and>
    (\<forall>t \<in> set ts. \<forall>c \<in> set (subTasks (h t)). dim_of (h' c) = Some (subtask_dim (the (dim_of (h t))) H P (h c)))"
  using assms
proof (induction ts arbitrary: h)
  case Nil
  then show ?case by (simp add: dims_frame_def)
next
  case (Cons t ts)
  obtain d where d: "dim_of (h t) = Some d" using Cons.prems(1) [of t] by auto
  let ?h = "place_subtasks h d H P (subTasks (h t))"
  have fr: "dims_frame h ?h (set (subTasks (h t)))"
    by (auto simp: dims_frame_def place_subtasks_eq)
  have keep: "dim_of (?h u) = dim_of (h u)" if "u \<in> set ts" for u
    using that Cons.prems(3) by (auto simp: place_subtasks_eq kids_def)
  have kids: "kids ?h us = kids h us" for us by (simp add: kids_def dims_frameD [OF fr])
  obtain h' where h': "place_level ?h H P ts = Inr h'" "dims_frame ?h h' (kids h ts)"
    "\<forall>t \<in> set ts. \<forall>c \<in> set (subTasks (?h t)).
       dim_of (h' c) = Some (subtask_dim (the (dim_of (?h t))) H P (?h c))"
  proof -
    have "\<exists>h'. place_level ?h H P ts = Inr h' \<and> dims_frame ?h h' (kids ?h ts) \<and>
      (\<forall>t \<in> set ts. \<forall>c \<in> set (subTasks (?h t)).
         dim_of (h' c) = Some (subtask_dim (the (dim_of (?h t))) H P (?h c)))"
    proof (rule Cons.IH)
      show "distinct ts" using Cons.prems(2) by simp
      show "kids ?h ts \<inter> set ts = {}" using Cons.prems(3) unfolding kids by (auto simp: kids_def)
      show "dim_of (?h u) \<noteq> None" if "u \<in> set ts" for u
        using that keep [OF that] Cons.prems(1) [of u] by simp
      show "set (subTasks (?h a)) \<inter> set (subTasks (?h b)) = {}" if "a \<in> set ts" "b \<in> set ts" "a \<noteq> b" for a b
        using that Cons.prems(4) [of a b] by (simp add: dims_frameD [OF fr])
    qed
    then show thesis using that unfolding kids by blast
  qed
  have frame: "dims_frame h h' (kids h (t # ts))"
    unfolding dims_frame_def
  proof (intro conjI allI impI)
    fix r
    have "?h r = (h r)\<lparr>dim_of := dim_of (?h r)\<rparr>" "h' r = (?h r)\<lparr>dim_of := dim_of (h' r)\<rparr>"
      using fr h'(2) by (auto simp: dims_frame_def)
    then show "h' r = (h r)\<lparr>dim_of := dim_of (h' r)\<rparr>" by (metis task.update_convs(10) task.surjective)
    assume "r \<notin> kids h (t # ts)"
    then have "r \<notin> set (subTasks (h t))" "r \<notin> kids h ts" by (auto simp: kids_def)
    then show "h' r = h r" using fr h'(2) unfolding dims_frame_def by metis
  qed
  have "dim_of (h' c) = Some (subtask_dim d H P (h c))" if c: "c \<in> set (subTasks (h t))" for c
  proof -
    have "c \<notin> kids h ts" using c Cons.prems(2,4) by (fastforce simp: kids_def)
    then have "h' c = ?h c" using h'(2) by (auto simp: dims_frame_def)
    then show ?thesis using c by (simp add: place_subtasks_eq)
  qed
  moreover have "dim_of (h' c) = Some (subtask_dim (the (dim_of (h u))) H P (h c))"
    if "u \<in> set ts" "c \<in> set (subTasks (h u))" for u c
    using h'(3) that keep by (simp add: dims_frameD [OF fr] subtask_dim_frame [OF fr])
  ultimately show ?case using h'(1) frame d by auto
qed

subsection \<open>Rows of one level\<close>

context row_assigner
begin

lemma assign_level_rows_ok:
  assumes "assign_level_rows assign_rows h ts m = Inr (h', m')" "distinct ts"
    and "\<And>t. t \<in> set ts \<Longrightarrow> distinct (subTasks (h t))"
    and "\<And>c. c \<in> kids h ts \<Longrightarrow> timed (h c)"
    and "\<And>a b. a \<in> set ts \<Longrightarrow> b \<in> set ts \<Longrightarrow> a \<noteq> b \<Longrightarrow> set (subTasks (h a)) \<inter> set (subTasks (h b)) = {}"
  shows "(\<forall>t \<in> set ts. rows_ok h' m' t) \<and> (\<forall>r. r \<notin> kids h ts \<longrightarrow> yIndex (h' r) = yIndex (h r))"
  using assms
proof (induction ts arbitrary: h m)
  case Nil
  then show ?case by simp
next
  case (Cons t ts)
  obtain h1 s k where run: "assign_rows h (subTasks (h t)) = Inr (h1, s, k)"
    using assign_ok by blast
  let ?h = "h1(t := (h1 t)\<lparr>subTasks := s\<rparr>)"
  let ?m = "if int k > m then int k else m"
  have rest: "assign_level_rows assign_rows ?h ts ?m = Inr (h', m')" using Cons.prems(1) run by simp
  have fr: "rows_frame h ?h"
    using assign_frame [OF run] assign_perm [OF run] by (rule rows_frame_step)
  have fr': "rows_frame ?h h'" and m': "?m \<le> m'"
    using assign_level_rows_total [of ?h ts ?m] rest by auto
  have kids: "kids ?h us = kids h us" for us
    unfolding kids_def by (simp only: rows_frameD(5) [OF fr])
  have timed: "timed (?h c) = timed (h c)" for c
    unfolding timed_def by (simp only: rows_frameD(1,2) [OF fr])
  have IH: "(\<forall>t \<in> set ts. rows_ok h' m' t) \<and> (\<forall>r. r \<notin> kids ?h ts \<longrightarrow> yIndex (h' r) = yIndex (?h r))"
  proof (rule Cons.IH [OF rest])
    show "distinct ts" using Cons.prems(2) by simp
    show "distinct (subTasks (?h u))" if "u \<in> set ts" for u
      using Cons.prems(3) [of u] that mset_eq_imp_distinct_iff [OF rows_frameD(4) [OF fr, of u]] by simp
    show "timed (?h c)" if "c \<in> kids ?h ts" for c
      unfolding timed using that Cons.prems(4) [of c] unfolding kids by (simp add: kids_def)
    show "set (subTasks (?h a)) \<inter> set (subTasks (?h b)) = {}" if "a \<in> set ts" "b \<in> set ts" "a \<noteq> b" for a b
      using that Cons.prems(5) [of a b] by (simp only: rows_frameD(5) [OF fr]) simp
  qed
  have y1: "yIndex (?h r) = yIndex (h1 r)" for r by simp
  have t: "rows_ok h' m' t"
  proof -
    have set_eq: "set (subTasks (h' t)) = set (subTasks (h t))"
      using rows_frameD(5) [OF fr'] rows_frameD(5) [OF fr] by simp
    have same: "yIndex (h' c) = yIndex (h1 c)" if "c \<in> set (subTasks (h t))" for c
    proof -
      have "c \<notin> kids h ts" using that Cons.prems(2,5) by (fastforce simp: kids_def)
      then have "c \<notin> kids ?h ts" unfolding kids .
      with IH y1 show ?thesis by metis
    qed
    have "\<exists>j. yIndex (h' c) = of_nat_num j \<and> int j \<le> m'" if c: "c \<in> set (subTasks (h t))" for c
    proof -
      obtain j where "j \<le> k" "yIndex (h1 c) = of_nat_num j"
        using assign_bound [OF run _ c] Cons.prems(3) by auto
      then show ?thesis using same [OF c] m' by (intro exI [of _ j]) (simp split: if_splits)
    qed
    moreover have "apart (h' a) (h' b)"
      if "a \<in> set (subTasks (h t))" "b \<in> set (subTasks (h t))" "a \<noteq> b" "yIndex (h' a) = yIndex (h' b)" for a b
    proof -
      have "apart (h a) (h b)"
        using that same Cons.prems(3,4) by (intro assign_apart [OF run]) (auto simp: kids_def)
      then show ?thesis using apart_frame [OF rows_frame_trans [OF fr fr']] by simp
    qed
    ultimately show ?thesis unfolding rows_ok_def set_eq by blast
  qed
  have "yIndex (h' r) = yIndex (h r)" if "r \<notin> kids h (t # ts)" for r
  proof -
    have "r \<notin> kids ?h ts" "r \<notin> set (subTasks (h t))" using that unfolding kids by (auto simp: kids_def)
    with IH have "yIndex (h' r) = yIndex (h1 r)" using y1 by metis
    moreover have "h1 r = h r" using assign_frame [OF run] \<open>r \<notin> set (subTasks (h t))\<close>
      by (auto simp: only_rows_written_def)
    ultimately show ?thesis by simp
  qed
  then show ?case using IH t by auto
qed

end

subsection \<open>The shape of the tree\<close>

definition same_shape :: "store \<Rightarrow> store \<Rightarrow> bool" where
  "same_shape h h' \<longleftrightarrow>
     (\<forall>r. mset (subTasks (h' r)) = mset (subTasks (h r)) \<and> level (h' r) = level (h r) \<and>
          start_time (h' r) = start_time (h r) \<and> end_time (h' r) = end_time (h r) \<and>
          task_id (h' r) = task_id (h r) \<and> kind (h' r) = kind (h r) \<and> what (h' r) = what (h r))"

lemma same_shape_trans: "same_shape h h' \<Longrightarrow> same_shape h' h'' \<Longrightarrow> same_shape h h''"
  by (simp add: same_shape_def)

lemma same_shape_frames:
  "rows_frame h h' \<Longrightarrow> same_shape h h'" "dims_frame h h' A \<Longrightarrow> same_shape h h'"
  by (simp_all add: same_shape_def rows_frameD dims_frameD)

lemma same_shape_set: "same_shape h h' \<Longrightarrow> set (subTasks (h' r)) = set (subTasks (h r))"
  unfolding same_shape_def by (metis mset_eq_setD)

lemma concat_map_concat:
  "concat (map (\<lambda>c. concat (map S (f c))) xs) = concat (map S (concat (map f xs)))"
  by (induction xs) simp_all

lemma getTasksAtLevel_Suc:
  "getTasksAtLevel h t (Suc d) = concat (map (\<lambda>u. subTasks (h u)) (getTasksAtLevel h t d))"
proof (induction d arbitrary: t)
  case (Suc d)
  have "getTasksAtLevel h t (Suc (Suc d)) =
      concat (map (\<lambda>c. getTasksAtLevel h c (Suc d)) (subTasks (h t)))"
    by simp
  also have "\<dots> = concat (map (\<lambda>c. concat (map (\<lambda>u. subTasks (h u)) (getTasksAtLevel h c d))) (subTasks (h t)))"
    by (simp only: Suc.IH)
  also have "\<dots> = concat (map (\<lambda>u. subTasks (h u)) (getTasksAtLevel h t (Suc d)))"
    by (simp add: concat_map_concat)
  finally show ?case .
qed simp

lemma set_level_Suc: "set (getTasksAtLevel h t (Suc d)) = kids h (getTasksAtLevel h t d)"
  by (auto simp: getTasksAtLevel_Suc kids_def simp del: getTasksAtLevel.simps)

lemma set_level_shape: "same_shape h h' \<Longrightarrow> set (getTasksAtLevel h' t d) = set (getTasksAtLevel h t d)"
  by (induction d) (simp_all add: set_level_Suc kids_def same_shape_set del: getTasksAtLevel.simps(2))

abbreviation tasks_at :: "store \<Rightarrow> ref \<Rightarrow> nat \<Rightarrow> ref set" where
  "tasks_at h tr d \<equiv> set (getTasksAtLevel h tr d)"

definition tree_wf :: "store \<Rightarrow> ref \<Rightarrow> bool" where
  "tree_wf h tr \<longleftrightarrow>
     (\<forall>i j. i \<noteq> j \<longrightarrow> tasks_at h tr i \<inter> tasks_at h tr j = {}) \<and>
     (\<forall>d. \<forall>a \<in> tasks_at h tr d. \<forall>b \<in> tasks_at h tr d. a \<noteq> b \<longrightarrow>
        set (subTasks (h a)) \<inter> set (subTasks (h b)) = {}) \<and>
     (\<forall>d. \<forall>t \<in> tasks_at h tr d. distinct (subTasks (h t))) \<and>
     (\<forall>d. \<forall>t \<in> tasks_at h tr (Suc d). lasting (h t))"

lemma lasting_shape: "same_shape h h' \<Longrightarrow> lasting (h' r) = lasting (h r)"
  by (simp add: lasting_def timed_def same_shape_def)

lemma distinct_shape: "same_shape h h' \<Longrightarrow> distinct (subTasks (h' r)) = distinct (subTasks (h r))"
  unfolding same_shape_def by (metis mset_eq_imp_distinct_iff)

lemma tree_wf_shape: "same_shape h h' \<Longrightarrow> tree_wf h' tr = tree_wf h tr"
  unfolding tree_wf_def
  by (simp only: set_level_shape same_shape_set lasting_shape distinct_shape)

lemma distinct_level: "tree_wf h tr \<Longrightarrow> distinct (getTasksAtLevel h tr d)"
proof (induction d)
  case (Suc d)
  have "distinct (concat (map (\<lambda>u. subTasks (h u)) ts))"
    if "distinct ts" "\<And>t. t \<in> set ts \<Longrightarrow> distinct (subTasks (h t))"
      "\<And>a b. a \<in> set ts \<Longrightarrow> b \<in> set ts \<Longrightarrow> a \<noteq> b \<Longrightarrow> set (subTasks (h a)) \<inter> set (subTasks (h b)) = {}" for ts
    using that
  proof (induction ts)
    case (Cons u us)
    then have "set (subTasks (h u)) \<inter> set (subTasks (h v)) = {}" if "v \<in> set us" for v
      using that by (metis distinct.simps(2) list.set_intros)
    with Cons show ?case by auto
  qed simp
  with Suc show ?case unfolding getTasksAtLevel_Suc by (auto simp: tree_wf_def)
qed simp

subsection \<open>One level of the layout\<close>

definition family_ok :: "rat \<Rightarrow> rat \<Rightarrow> store \<Rightarrow> ref \<Rightarrow> bool" where
  "family_ok S pps h t \<longleftrightarrow>
     (\<exists>d. dim_of (h t) = Some d \<and>
        (\<forall>c \<in> set (subTasks (h t)). \<exists>dc. dim_of (h c) = Some dc \<and>
           on_scale S pps dc \<and> dim_startTime dc = start_time (h c) \<and> dim_endTime dc = end_time (h c) \<and>
           inside dc d) \<and>
        (\<forall>a \<in> set (subTasks (h t)). \<forall>b \<in> set (subTasks (h t)). a \<noteq> b \<longrightarrow>
           no_overlap (the (dim_of (h a))) (the (dim_of (h b)))))"

definition boxed :: "rat \<Rightarrow> rat \<Rightarrow> store \<Rightarrow> ref \<Rightarrow> bool" where
  \<comment> \<open>the box of a task is where the time scale puts it\<close>
  "boxed S pps h r \<longleftrightarrow>
     (\<exists>d. dim_of (h r) = Some d \<and> on_scale S pps d \<and>
        dim_startTime d = start_time (h r) \<and> dim_endTime d = end_time (h r))"

definition level_ready :: "rat \<Rightarrow> rat \<Rightarrow> store \<Rightarrow> ref set \<Rightarrow> rat \<Rightarrow> bool" where
  "level_ready S pps h A x \<longleftrightarrow>
     (\<forall>t \<in> A. \<exists>d y. dim_of (h t) = Some d \<and> on_scale S pps d \<and> dim_height d = Num x \<and> dim_y d = Num y)"

lemma family_placed:
  assumes rows: "rows_ok h m t" and m: "0 \<le> m" and pps: "0 \<le> pps"
    and d: "dim_of (h t) = Some d" "on_scale S pps d" "dim_height d = Num x" "dim_y d = Num y"
    and x: "0 < x" and p: "p \<le> x / (of_int m + 1)"
    and fr: "dims_frame h h' A" and t: "dim_of (h' t) = dim_of (h t)"
    and lasting: "\<And>c. c \<in> set (subTasks (h t)) \<Longrightarrow> lasting (h c)"
    and placed: "\<And>c. c \<in> set (subTasks (h t)) \<Longrightarrow>
      dim_of (h' c) = Some (subtask_dim d (Num (x / (of_int m + 1))) (Num p) (h c))"
  shows "family_ok S pps h' t"
proof -
  let ?H = "x / (of_int m + 1)"
  let ?box = "\<lambda>c. subtask_dim d (Num ?H) (Num p) (h c)"
  have m1: "0 < (of_int m + 1 :: rat)" using m by (simp add: add_nonneg_pos)
  then have H: "0 < ?H" "?H * (of_int m + 1) = x" using x by simp_all
  have scale: "on_scale S pps (?box c)" if "c \<in> set (subTasks (h t))" for c
    using d(2) lasting [OF that] by (rule subtask_dim_on_scale)
  have "inside (?box c) d" if c: "c \<in> set (subTasks (h t))" for c
  proof -
    obtain k where "yIndex (h c) = of_nat_num k" "int k \<le> m"
      using rows c by (auto simp: rows_ok_def)
    with d(3,4) H p show ?thesis by (intro subtask_inside) simp_all
  qed
  moreover have "no_overlap (?box a) (?box b)"
    if ab: "a \<in> set (subTasks (h t))" "b \<in> set (subTasks (h t))" "a \<noteq> b" for a b
  proof -
    obtain i j where ij: "yIndex (h a) = of_nat_num i" "yIndex (h b) = of_nat_num j"
      using rows ab by (meson rows_ok_def)
    consider "i < j" | "j < i" | "i = j" by linarith
    then show ?thesis
    proof cases
      case 1
      then show ?thesis using subtasks_rows_apart [OF d(4) H(1) p] ij by blast
    next
      case 2
      then show ?thesis using subtasks_rows_apart [OF d(4) H(1) p] ij no_overlap_sym by blast
    next
      case 3
      then have "apart (h a) (h b)" using rows ab ij by (auto simp: rows_ok_def)
      then show ?thesis using scale ab pps by (intro apart_no_overlap [of S pps _ _ "h a" "h b"]) simp_all
    qed
  qed
  ultimately show ?thesis
    using placed scale d(1) t by (simp add: family_ok_def dims_frameD [OF fr])
qed

context row_assigner
begin

lemma level_step:
  assumes wf: "tree_wf h tr" and ready: "level_ready S pps h (tasks_at h tr depth) x"
    and x: "0 < x" and pps: "0 \<le> pps"
  obtains (stop) "assignDimensionLevel assign_rows h tr (Num x) depth = Inr (h, 0)"
      "x < 2 \<or> tasks_at h tr depth = {}"
  | (go) h' p where "assignDimensionLevel assign_rows h tr (Num x) depth = Inr (h', Num p)"
      "0 < p" "p \<le> 4 / 5 * x" "same_shape h h'"
      "\<And>r. r \<notin> tasks_at h tr (Suc depth) \<Longrightarrow> dim_of (h' r) = dim_of (h r)"
      "\<And>t. t \<in> tasks_at h tr depth \<Longrightarrow> family_ok S pps h' t"
      "level_ready S pps h' (tasks_at h tr (Suc depth)) p"
proof (cases "x < 2 \<or> getTasksAtLevel h tr depth = []")
  case True
  then have "assignDimensionLevel assign_rows h tr (Num x) depth = Inr (h, 0)"
    by (auto simp: assignDimensionLevel_def js_num_simps Let_def)
  then show thesis using stop True by auto
next
  case False
  let ?L = "getTasksAtLevel h tr depth"
  obtain h1 m where rows: "assign_level_rows assign_rows h ?L (-1) = Inr (h1, m)"
    and m: "0 \<le> m" and fr1: "rows_frame h h1"
    using assign_level_rows_total False by blast
  let ?H = "x / (of_int m + 1)"
  obtain p where p: "padTaskHeight (Num ?H) = Num p" by (simp add: padTaskHeight_Num)
  have H: "0 < ?H" "?H \<le> x" using x m by (simp_all add: field_simps)
  note pb = padTaskHeight_bounds [OF p H(1)]
  have run: "assignDimensionLevel assign_rows h tr (Num x) depth =
      bind_result (place_level h1 (Num ?H) (Num p) ?L) (\<lambda>h2. Inr (h2, Num p))"
    using False rows m p
    by (simp add: assignDimensionLevel_def numeral_js_num Let_def level_height_Num)
  have kids1: "kids h1 ?L = tasks_at h tr (Suc depth)"
    unfolding set_level_Suc kids_def by (simp only: rows_frameD(5) [OF fr1])
  have lasting: "lasting (h c)" if "c \<in> kids h ?L" for c
    using wf that unfolding set_level_Suc [symmetric] tree_wf_def by blast
  have rows_ok: "\<forall>t \<in> set ?L. rows_ok h1 m t"
  proof -
    have "(\<forall>t \<in> set ?L. rows_ok h1 m t) \<and> (\<forall>r. r \<notin> kids h ?L \<longrightarrow> yIndex (h1 r) = yIndex (h r))"
      using wf lasting by (intro assign_level_rows_ok [OF rows] distinct_level [OF wf])
        (auto simp: tree_wf_def)
    then show ?thesis by blast
  qed
  have disj: "tasks_at h tr (Suc depth) \<inter> tasks_at h tr depth = {}"
    using wf unfolding tree_wf_def by (metis n_not_Suc_n)
  obtain h2 where h2: "place_level h1 (Num ?H) (Num p) ?L = Inr h2" "dims_frame h1 h2 (kids h1 ?L)"
    "\<forall>t \<in> set ?L. \<forall>c \<in> set (subTasks (h1 t)).
       dim_of (h2 c) = Some (subtask_dim (the (dim_of (h1 t))) (Num ?H) (Num p) (h1 c))"
  proof -
    have "\<exists>h2. place_level h1 (Num ?H) (Num p) ?L = Inr h2 \<and> dims_frame h1 h2 (kids h1 ?L) \<and>
      (\<forall>t \<in> set ?L. \<forall>c \<in> set (subTasks (h1 t)).
         dim_of (h2 c) = Some (subtask_dim (the (dim_of (h1 t))) (Num ?H) (Num p) (h1 c)))"
    proof (rule place_level_spec)
      show "dim_of (h1 t) \<noteq> None" if "t \<in> set ?L" for t
        using ready that unfolding level_ready_def rows_frameD(3) [OF fr1] by fastforce
      show "distinct ?L" by (rule distinct_level [OF wf])
      show "kids h1 ?L \<inter> set ?L = {}" unfolding kids1 by (rule disj)
      show "set (subTasks (h1 a)) \<inter> set (subTasks (h1 b)) = {}" if "a \<in> set ?L" "b \<in> set ?L" "a \<noteq> b" for a b
        using wf that unfolding tree_wf_def rows_frameD(5) [OF fr1] by blast
    qed
    then show thesis using that by blast
  qed
  have keep: "dim_of (h2 r) = dim_of (h r)" if "r \<notin> tasks_at h tr (Suc depth)" for r
    using that h2(2) rows_frameD(3) [OF fr1] unfolding kids1 dims_frame_def by metis
  have fam: "family_ok S pps h2 t \<and> (\<forall>c \<in> set (subTasks (h t)). \<exists>d y. dim_of (h2 c) = Some d \<and>
      on_scale S pps d \<and> dim_height d = Num p \<and> dim_y d = Num y)"
    if t: "t \<in> set ?L" for t
  proof -
    obtain d y where d: "dim_of (h t) = Some d" "on_scale S pps d" "dim_height d = Num x" "dim_y d = Num y"
      using ready t by (auto simp: level_ready_def)
    have d1: "dim_of (h1 t) = Some d" using d(1) rows_frameD(3) [OF fr1] by simp
    have lasting1: "lasting (h1 c)" if "c \<in> set (subTasks (h1 t))" for c
      using lasting [of c] that t lasting_shape [OF same_shape_frames(1) [OF fr1]]
      by (auto simp: kids_def rows_frameD(5) [OF fr1])
    have placed: "dim_of (h2 c) = Some (subtask_dim d (Num ?H) (Num p) (h1 c))"
      if "c \<in> set (subTasks (h1 t))" for c
      using h2(3) t that d1 by simp
    have "t \<notin> tasks_at h tr (Suc depth)" using t disj by auto
    then have t2: "dim_of (h2 t) = dim_of (h1 t)" using keep d(1) d1 by simp
    have "p \<le> ?H" using pb H(1) by linarith
    then have "family_ok S pps h2 t"
      using rows_ok t by (intro family_placed [OF _ m pps d1 d(2-4) x _ h2(2) t2 lasting1 placed]) auto
    moreover have "\<exists>d y. dim_of (h2 c) = Some d \<and> on_scale S pps d \<and> dim_height d = Num p \<and> dim_y d = Num y"
      if "c \<in> set (subTasks (h t))" for c
    proof -
      have c1: "c \<in> set (subTasks (h1 t))" using that rows_frameD(5) [OF fr1] by simp
      obtain k where "yIndex (h1 c) = of_nat_num k" using rows_ok t c1 by (meson rows_ok_def)
      then show ?thesis
        using placed [OF c1] subtask_dim_on_scale [OF d(2) lasting1 [OF c1]] subtask_dim_y [OF d(4)] by simp
    qed
    ultimately show ?thesis by blast
  qed
  have "same_shape h h2"
    using same_shape_frames(1) [OF fr1] same_shape_frames(2) [OF h2(2)] by (rule same_shape_trans)
  moreover have "level_ready S pps h2 (tasks_at h tr (Suc depth)) p"
    using fam unfolding level_ready_def set_level_Suc kids_def by blast
  moreover have "p \<le> 4 / 5 * x" using pb(2) H(2) by linarith
  ultimately show thesis using run h2(1) pb(1) keep fam by (intro go [of h2 p]) simp_all
qed

subsection \<open>The whole layout\<close>

lemma family_ok_keep:
  assumes "family_ok S pps h t" "same_shape h h'"
    and "dim_of (h' t) = dim_of (h t)" "\<And>c. c \<in> set (subTasks (h t)) \<Longrightarrow> dim_of (h' c) = dim_of (h c)"
  shows "family_ok S pps h' t"
  using assms unfolding family_ok_def same_shape_set [OF assms(2)]
  by (simp add: same_shape_def)

lemma family_boxed:
  "family_ok S pps h t \<Longrightarrow> c \<in> set (subTasks (h t)) \<Longrightarrow> boxed S pps h c"
  by (auto simp: family_ok_def boxed_def)

lemma boxed_keep:
  "boxed S pps h r \<Longrightarrow> same_shape h h' \<Longrightarrow> dim_of (h' r) = dim_of (h r) \<Longrightarrow> boxed S pps h' r"
  by (simp add: boxed_def same_shape_def)

lemma dimension_loop_layout:
  assumes "x < 2 * (5 / 4) ^ k" "0 < x" "tree_wf h tr" "0 \<le> pps"
    and "level_ready S pps h (tasks_at h tr depth) x"
    and "\<And>i t. i < depth \<Longrightarrow> t \<in> tasks_at h tr i \<Longrightarrow> family_ok S pps h t"
  shows "\<exists>h' n y. dimension_loop assign_rows h tr (Num x) depth = Some (Inr h') \<and> same_shape h h' \<and>
    depth \<le> n \<and> (2 \<le> x \<and> tasks_at h tr depth \<noteq> {} \<longrightarrow> depth < n) \<and> (\<forall>i t. i < n \<longrightarrow> t \<in> tasks_at h tr i \<longrightarrow> family_ok S pps h' t) \<and>
    level_ready S pps h' (tasks_at h tr n) y \<and> (y < 2 \<or> tasks_at h tr n = {}) \<and>
    (\<forall>r. dim_of (h' r) = dim_of (h r) \<or> boxed S pps h' r)"
  using assms
proof (induction k arbitrary: x h depth)
  case 0
  then have "assignDimensionLevel assign_rows h tr (Num x) depth = Inr (h, 0)" "x < 2"
    by (simp_all add: assignDimensionLevel_def js_num_simps)
  then have "dimension_loop assign_rows h tr (Num x) depth = Some (Inr h)"
    using 0 by (simp add: dimension_loop.simps [of assign_rows h] js_num_simps)
  moreover have "same_shape h h" by (simp add: same_shape_def)
  ultimately show ?case
    using 0 \<open>x < 2\<close> by (intro exI [of _ h] exI [of _ depth] exI [of _ x]) simp
next
  case (Suc k)
  from Suc.prems(3,5,2,4) show ?case
  proof (cases rule: level_step)
    case stop
    then have "dimension_loop assign_rows h tr (Num x) depth = Some (Inr h)"
      using Suc.prems(2) by (simp add: dimension_loop.simps [of assign_rows h] js_num_simps)
    moreover have "same_shape h h" by (simp add: same_shape_def)
    ultimately show ?thesis
      using Suc.prems stop by (intro exI [of _ h] exI [of _ depth] exI [of _ x]) (simp, linarith)
  next
    case (go h1 p)
    have eq: "tasks_at h1 tr i = tasks_at h tr i" for i using set_level_shape [OF go(4)] .
    have fam: "family_ok S pps h1 t" if "i < Suc depth" "t \<in> tasks_at h1 tr i" for i t
    proof (cases "i = depth")
      case True
      then show ?thesis using go(6) that(2) unfolding eq by simp
    next
      case False
      then have i: "i < depth" using that(1) by simp
      have t: "t \<in> tasks_at h tr i" using that(2) unfolding eq .
      have disj: "\<And>j u. j < Suc depth \<Longrightarrow> u \<in> tasks_at h tr j \<Longrightarrow> u \<notin> tasks_at h tr (Suc depth)"
      proof -
        fix j u assume ju: "j < Suc depth" "u \<in> tasks_at h tr j"
        then have "tasks_at h tr j \<inter> tasks_at h tr (Suc depth) = {}"
          using Suc.prems(3) unfolding tree_wf_def by (metis less_irrefl)
        with ju(2) show "u \<notin> tasks_at h tr (Suc depth)" by blast
      qed
      have kid: "c \<in> tasks_at h tr (Suc i)" if "c \<in> set (subTasks (h t))" for c
        using t that unfolding set_level_Suc kids_def by blast
      have "i < Suc depth" "Suc i < Suc depth" using i by simp_all
      then have "dim_of (h1 t) = dim_of (h t)" using go(5) disj t by blast
      moreover have "dim_of (h1 c) = dim_of (h c)" if "c \<in> set (subTasks (h t))" for c
        using go(5) disj \<open>Suc i < Suc depth\<close> kid [OF that] by blast
      ultimately show ?thesis using family_ok_keep [OF Suc.prems(6) [OF i t] go(4)] by blast
    qed
    have wf1: "tree_wf h1 tr" using Suc.prems(3) tree_wf_shape [OF go(4)] by simp
    have "p < 2 * (5 / 4) ^ k" using go(3) Suc.prems(1) by simp
    from Suc.IH [OF this go(2) wf1 Suc.prems(4), of "Suc depth"] go(7) fam
    obtain h' n y where "dimension_loop assign_rows h1 tr (Num p) (Suc depth) = Some (Inr h')"
      "same_shape h1 h'" "Suc depth \<le> n" "\<forall>i t. i < n \<longrightarrow> t \<in> tasks_at h1 tr i \<longrightarrow> family_ok S pps h' t"
      "level_ready S pps h' (tasks_at h1 tr n) y" "y < 2 \<or> tasks_at h1 tr n = {}"
      and rest: "\<forall>r. dim_of (h' r) = dim_of (h1 r) \<or> boxed S pps h' r"
      unfolding eq by blast
    moreover have "dim_of (h1 r) = dim_of (h r) \<or> boxed S pps h1 r" for r
      using go(5) [of r] go(6) family_boxed same_shape_set [OF go(4)]
      unfolding set_level_Suc kids_def by blast
    then have "\<forall>r. dim_of (h' r) = dim_of (h r) \<or> boxed S pps h' r"
      using rest boxed_keep [OF _ \<open>same_shape h1 h'\<close>] by metis
    moreover have "dimension_loop assign_rows h tr (Num x) depth =
        dimension_loop assign_rows h1 tr (Num p) (Suc depth)"
      using go(1) Suc.prems(2) by (simp add: dimension_loop.simps [of assign_rows h] js_num_simps)
    ultimately show ?thesis
      using same_shape_trans [OF go(4)] unfolding eq
      by (intro exI [of _ h'] exI [of _ n] exI [of _ y]) simp
  qed
qed

end

subsection \<open>The tree that the view builds\<close>

lemma tree_level_depth:
  assumes "virtualRoot \<notin> set tasks"
  shows "tasks_at (tree_store h tasks) virtualRoot (Suc d) = {t. task_depth h tasks (Suc d) t}"
proof (induction d)
  case 0
  have "task_depth h tasks (Suc 0) t \<longleftrightarrow> t \<in> set (roots h tasks)" for t
    by (auto simp: roots_def intro: task_depth.root elim: task_depth.cases dest: task_depth_in)
  then show ?case by simp
next
  case (Suc d)
  have kids: "kids (tree_store h tasks) (getTasksAtLevel (tree_store h tasks) virtualRoot (Suc d)) =
      (\<Union>t \<in> {t. task_depth h tasks (Suc d) t}. set (children h tasks t))"
    unfolding kids_def Suc
  proof (rule SUP_cong [OF refl])
    fix t assume "t \<in> {t. task_depth h tasks (Suc d) t}"
    then have "t \<in> set tasks" "t \<noteq> virtualRoot" using task_depth_in assms by auto
    then show "set (subTasks (tree_store h tasks t)) = set (children h tasks t)" by simp
  qed
  have "task_depth h tasks (Suc (Suc d)) t \<longleftrightarrow>
      (\<exists>p. task_depth h tasks (Suc d) p \<and> t \<in> set (children h tasks p))" for t
    by (auto simp: children_def intro: task_depth.child elim: task_depth.cases)
  then show ?case unfolding set_level_Suc [of _ _ "Suc d"] kids by auto
qed

lemma tree_store_wf:
  assumes tasks: "virtualRoot \<notin> set tasks" "distinct tasks" "\<And>t. t \<in> set tasks \<Longrightarrow> lasting (h t)"
  shows "tree_wf (tree_store h tasks) virtualRoot"
proof -
  let ?h = "tree_store h tasks"
  have lvl: "tasks_at ?h virtualRoot i = (if i = 0 then {virtualRoot} else {t. task_depth h tasks i t})" for i
    using tree_level_depth [OF tasks(1), of h "i - 1"] by (cases i) simp_all
  have in_tasks: "t \<in> set tasks \<and> t \<noteq> virtualRoot" if "task_depth h tasks i t" for i t
    using task_depth_in [OF that] tasks(1) by auto
  have kids: "subTasks (?h t) = children h tasks t" if "task_depth h tasks i t" for i t
    using in_tasks [OF that] by simp
  show ?thesis unfolding tree_wf_def
  proof (intro conjI allI impI ballI)
    fix i j :: nat assume "i \<noteq> j"
    then show "tasks_at ?h virtualRoot i \<inter> tasks_at ?h virtualRoot j = {}"
      unfolding lvl by (auto dest: in_tasks task_depth_unique)
  next
    fix d a b assume "a \<in> tasks_at ?h virtualRoot d" "b \<in> tasks_at ?h virtualRoot d" "a \<noteq> b"
    then show "set (subTasks (?h a)) \<inter> set (subTasks (?h b)) = {}"
      unfolding lvl by (auto simp: kids children_def split: if_splits)
  next
    fix d t assume "t \<in> tasks_at ?h virtualRoot d"
    then show "distinct (subTasks (?h t))"
      unfolding lvl using tasks(2) by (auto simp: kids children_def roots_def split: if_splits)
  next
    fix d t assume "t \<in> tasks_at ?h virtualRoot (Suc d)"
    then have "task_depth h tasks (Suc d) t" unfolding lvl by simp
    then have t: "t \<in> set tasks" "t \<noteq> virtualRoot" using in_tasks by auto
    have "lasting (h t)" using tasks(3) t(1) .
    then show "lasting (?h t)" using t(2) by (simp add: lasting_def timed_def)
  qed
qed

definition plain_view :: "rat \<Rightarrow> rat \<Rightarrow> rat \<Rightarrow> rat \<Rightarrow> component_view" where
  \<comment> \<open>a view with a canvas of \<open>W\<close> by \<open>H\<close> pixels that shows the times from \<open>S\<close> to \<open>E\<close>\<close>
  "plain_view W H S E = (new_component_view (new_task_renderer (time_scale 0 0 0)) new_x_axis_drawer)
     \<lparr>cv_canvasWidth := Num W, cv_canvasHeight := Num H,
     cv_startTime := Num S, cv_endTime := Num E\<rparr>"

lemma initDim_plain:
  "initDim (plain_view W H S E) = \<lparr> dim_x = Num 0, dim_y = Num 5, dim_width = Num W,
     dim_height = Num (H - 25), dim_startTime = Num S, dim_endTime = Num E \<rparr>"
  by (simp add: initDim_def plain_view_def new_component_view_def js_num_simps)

lemma layout_of_tree:
  assumes tasks: "virtualRoot \<notin> set tasks" "distinct tasks" "\<And>t. t \<in> set tasks \<Longrightarrow> lasting (h t)"
    and canvas: "0 \<le> W" "27 \<le> H" "S < E"
  obtains h' n y where
    "assignDimension assign (tree_store h tasks) virtualRoot (initDim (plain_view W H S E)) = Some (Inr h')"
    "same_shape (tree_store h tasks) h'" "0 < n"
    "\<forall>i t. i < n \<longrightarrow> t \<in> tasks_at (tree_store h tasks) virtualRoot i \<longrightarrow> family_ok S (W / (E - S)) h' t"
    "level_ready S (W / (E - S)) h' (tasks_at (tree_store h tasks) virtualRoot n) y"
    "y < 2 \<or> tasks_at (tree_store h tasks) virtualRoot n = {}"
    "\<forall>r. r \<noteq> virtualRoot \<longrightarrow> dim_of (h' r) = dim_of (tree_store h tasks r) \<or> boxed S (W / (E - S)) h' r"
proof -
  let ?g = "tree_store h tasks"
  let ?d = "initDim (plain_view W H S E)"
  let ?h = "?g(virtualRoot := (?g virtualRoot)\<lparr>dim_of := Some ?d\<rparr>)"
  have shape: "same_shape ?g ?h" by (simp add: same_shape_def)
  have lvl: "tasks_at ?h virtualRoot i = tasks_at ?g virtualRoot i" for i
    using set_level_shape [OF shape] .
  have wf: "tree_wf ?h virtualRoot"
    using tree_store_wf [OF tasks] tree_wf_shape [OF shape] by simp
  have "on_scale S (W / (E - S)) ?d" using canvas(3) by (simp add: on_scale_def initDim_plain)
  then have ready: "level_ready S (W / (E - S)) ?h (tasks_at ?h virtualRoot 0) (H - 25)"
    by (simp add: level_ready_def initDim_plain)
  obtain k where "H - 25 < 2 * (5 / 4) ^ k" using power_exceeds by blast
  from yia.dimension_loop_layout [OF this _ wf _ ready] canvas
  obtain h' n y where run: "dimension_loop assign ?h virtualRoot (Num (H - 25)) 0 = Some (Inr h')"
    "same_shape ?h h'" "0 < n" "\<forall>i t. i < n \<longrightarrow> t \<in> tasks_at ?h virtualRoot i \<longrightarrow> family_ok S (W / (E - S)) h' t"
    "level_ready S (W / (E - S)) h' (tasks_at ?h virtualRoot n) y" "y < 2 \<or> tasks_at ?h virtualRoot n = {}"
    and rest: "\<forall>r. dim_of (h' r) = dim_of (?h r) \<or> boxed S (W / (E - S)) h' r"
    by auto
  have "\<forall>r. r \<noteq> virtualRoot \<longrightarrow> dim_of (h' r) = dim_of (?g r) \<or> boxed S (W / (E - S)) h' r"
    using rest by (metis fun_upd_other)
  then show thesis
    using that [of h' n y] run same_shape_trans [OF shape] unfolding lvl assignDimension_def
    by (simp add: initDim_plain)
qed

subsection \<open>Properties\<close>

definition sample_tasks :: store where
  "sample_tasks = (\<lambda>_. new_task)(1 := trace_task ''a'' [] 0 10, 2 := trace_task ''b'' ''a'' 1 5,
     3 := trace_task ''c'' ''a'' 2 6)"

lemma sample_tasks_ok:
  "virtualRoot \<notin> set [1, 2, 3]" "distinct [1, 2, 3 :: ref]" "parents_ok sample_tasks [1, 2, 3]"
  "\<forall>t \<in> set [1, 2, 3]. lasting (sample_tasks t)" "task_depth sample_tasks [1, 2, 3] 1 1"
  by (auto intro: task_depth.intros simp: virtualRoot_def sample_tasks_def parents_ok_def parent_of_def object_prototype_keys_def)

text \<open>
  \<open>assignDimension\<close> returns for every store, tree and container box of finite height,
  also when the subtask links of the store are cyclic: a level is at most four fifths as high
  as the one around it, and a level below two pixels is the last.
\<close>

theorem assignDimension_returns:
  assumes "dim_height d = Num x"
  shows "\<exists>r. assignDimension assign h tree d = Some r"
  using power_exceeds [of x] yia.dimension_loop_returns_below assms
  by (auto simp: assignDimension_def)

theorem assignDimension_returns_witness:
  "\<exists>r. assignDimension assign (\<lambda>_. new_task\<lparr>subTasks := [0]\<rparr>) 0
     \<lparr>dim_x = 0, dim_y = 0, dim_width = 100, dim_height = Num 100, dim_startTime = 0, dim_endTime = 1\<rparr> = Some r"
  by (rule assignDimension_returns) simp

text \<open>
  (C8) One time scale: in a canvas of width \<open>W\<close> that shows the times from \<open>S\<close> to
  \<open>E\<close>, every task that the layout reaches is drawn from \<open>(start - S) * W / (E - S)\<close>
  on and \<open>(end - start) * W / (E - S)\<close> wide, at whatever depth of the tree it is.  The layout
  reaches at least the top level and stops only where the tree ends or the boxes are less than
  two pixels high.
\<close>

theorem layout_time_scale:
  assumes "virtualRoot \<notin> set tasks" "distinct tasks" "\<forall>t \<in> set tasks. lasting (h t)"
    and "parents_ok h tasks" "0 \<le> W" "27 \<le> H" "S < E"
  shows "\<exists>h1 h' n y. rearrangeAsTree h tasks = Some (Inr h1) \<and>
    assignDimension assign h1 virtualRoot (initDim (plain_view W H S E)) = Some (Inr h') \<and> 0 < n \<and>
    (\<forall>d t. d \<le> n \<and> task_depth h tasks d t \<longrightarrow>
       (\<exists>b. dim_of (h' t) = Some b \<and> dim_x b = (start_time (h t) - Num S) * Num (W / (E - S)) \<and>
            dim_width b = (end_time (h t) - start_time (h t)) * Num (W / (E - S)))) \<and>
    ((\<forall>t. \<not> task_depth h tasks n t) \<or>
     (\<forall>t. task_depth h tasks n t \<longrightarrow> (\<exists>b. dim_of (h' t) = Some b \<and> dim_height b = Num y \<and> y < 2)))"
proof -
  let ?g = "tree_store h tasks"
  let ?pps = "W / (E - S)"
  obtain h' n y where run: "assignDimension assign ?g virtualRoot (initDim (plain_view W H S E)) = Some (Inr h')"
    and shape: "same_shape ?g h'" and n: "0 < n"
    and fam: "\<forall>i t. i < n \<longrightarrow> t \<in> tasks_at ?g virtualRoot i \<longrightarrow> family_ok S ?pps h' t"
    and last: "level_ready S ?pps h' (tasks_at ?g virtualRoot n) y" "y < 2 \<or> tasks_at ?g virtualRoot n = {}"
    by (rule layout_of_tree [OF assms(1,2) _ assms(5-7)]) (use assms(3) in blast)+
  have box: "\<exists>b. dim_of (h' t) = Some b \<and> dim_x b = (start_time (h t) - Num S) * Num ?pps \<and>
        dim_width b = (end_time (h t) - start_time (h t)) * Num ?pps"
    if "d \<le> n" and t: "task_depth h tasks d t" for d t
  proof -
    obtain e where d: "d = Suc e" using task_depth_in [OF t] by (cases d) auto
    have "t \<in> tasks_at ?g virtualRoot (Suc e)"
      using t unfolding tree_level_depth [OF assms(1)] d by simp
    then obtain p where p: "p \<in> tasks_at ?g virtualRoot e" "t \<in> set (subTasks (?g p))"
      unfolding set_level_Suc kids_def by blast
    have "family_ok S ?pps h' p" using fam p(1) that(1) unfolding d by (simp add: Suc_le_eq)
    moreover have "t \<in> set (subTasks (h' p))" using p(2) same_shape_set [OF shape] by simp
    ultimately obtain b where b: "dim_of (h' t) = Some b" "on_scale S ?pps b"
      "dim_startTime b = start_time (h' t)" "dim_endTime b = end_time (h' t)"
      by (auto simp: family_ok_def)
    have "t \<noteq> virtualRoot" using task_depth_in [OF t] assms(1) by auto
    then have "start_time (h' t) = start_time (h t)" "end_time (h' t) = end_time (h t)"
      using shape by (simp_all add: same_shape_def)
    with b show ?thesis by (auto simp: on_scale_def)
  qed
  obtain m where m: "n = Suc m" using n by (cases n) auto
  have lvl: "tasks_at ?g virtualRoot n = {t. task_depth h tasks n t}"
    unfolding m by (rule tree_level_depth [OF assms(1)])
  have "(\<forall>t. \<not> task_depth h tasks n t) \<or>
     (\<forall>t. task_depth h tasks n t \<longrightarrow> (\<exists>b. dim_of (h' t) = Some b \<and> dim_height b = Num y \<and> y < 2))"
    using last unfolding lvl level_ready_def by blast
  moreover have "rearrangeAsTree h tasks = Some (Inr ?g)" using assms(4) by (simp add: rearrangeAsTree_eq)
  ultimately show ?thesis using run n box by blast
qed

theorem layout_time_scale_witness:
  "\<exists>h1 h' b. rearrangeAsTree sample_tasks [1, 2, 3] = Some (Inr h1) \<and>
     assignDimension assign h1 virtualRoot (initDim (plain_view 100 100 0 10)) = Some (Inr h') \<and>
     dim_of (h' 1) = Some b \<and> dim_x b = Num 0 \<and> dim_width b = Num 100"
proof -
  have canvas: "(0 :: rat) \<le> 100" "(27 :: rat) \<le> 100" "(0 :: rat) < 10" by simp_all
  obtain h1 h' n where run: "rearrangeAsTree sample_tasks [1, 2, 3] = Some (Inr h1)"
    "assignDimension assign h1 virtualRoot (initDim (plain_view 100 100 0 10)) = Some (Inr h')" "0 < n"
    and box: "\<forall>d t. d \<le> n \<and> task_depth sample_tasks [1, 2, 3] d t \<longrightarrow>
       (\<exists>b. dim_of (h' t) = Some b \<and> dim_x b = (start_time (sample_tasks t) - Num 0) * Num (100 / (10 - 0)) \<and>
            dim_width b = (end_time (sample_tasks t) - start_time (sample_tasks t)) * Num (100 / (10 - 0)))"
    using layout_time_scale [OF sample_tasks_ok(1,2,4,3) canvas] by (elim exE conjE) assumption
  show ?thesis
    using box [rule_format, of 1 1] run sample_tasks_ok(5) by (auto simp: sample_tasks_def)
qed

text \<open>The boxes of the subtasks of a task lie inside its own box and apart from each other.\<close>

definition well_nested :: "store \<Rightarrow> ref \<Rightarrow> bool" where
  "well_nested h p \<longleftrightarrow>
     (\<exists>d. dim_of (h p) = Some d \<and>
        (\<forall>c \<in> set (subTasks (h p)). \<exists>dc. dim_of (h c) = Some dc \<and> inside dc d) \<and>
        (\<forall>a \<in> set (subTasks (h p)). \<forall>b \<in> set (subTasks (h p)). a \<noteq> b \<longrightarrow>
           no_overlap (the (dim_of (h a))) (the (dim_of (h b)))))"

lemma family_ok_nested: "family_ok S pps h p \<Longrightarrow> well_nested h p"
  by (fastforce simp: family_ok_def well_nested_def)



end
