(* ===== verification/Component_Drawing.thy ===== *)
theory Component_Drawing
  imports Component_Layout
begin

text \<open>
  The whole rendering of the component view, from the tasks of a response to the bars on the
  canvas: it never fails for a trace without degenerate parents, it shows every top level task,
  and the bars lie where the time axis puts their tasks, so that panning and zooming, which
  recompute the positions from the axis alone, start from the picture that is there.
\<close>

definition cv_geometry :: "rat \<Rightarrow> rat \<Rightarrow> rat \<Rightarrow> rat \<Rightarrow> component_view \<Rightarrow> bool" where
  \<comment> \<open>a canvas of \<open>W\<close> by \<open>H\<close> pixels that shows the times from \<open>S\<close> to \<open>E\<close>\<close>
  "cv_geometry W H S E v \<longleftrightarrow> initDim v = initDim (plain_view W H S E) \<and>
     tr_xScale (cv_renderer v) = time_scale (Num S) (Num E) (Num W)"

definition fresh_tasks :: "store \<Rightarrow> ref list \<Rightarrow> bool" where
  \<comment> \<open>the tasks of a response: different objects, which take time and have no layout yet\<close>
  "fresh_tasks h tasks \<longleftrightarrow> virtualRoot \<notin> set tasks \<and> distinct tasks \<and>
     distinct (map (\<lambda>t. task_id (h t)) tasks) \<and>
     (\<forall>t \<in> set tasks. lasting (h t) \<and> level (h t) = Undef \<and> dim_of (h t) = None)"

lemma layout_boxes:
  assumes fresh: "fresh_tasks h tasks" and par: "parents_ok h tasks"
    and geo: "cv_geometry W H S E v" "0 \<le> W" "27 \<le> H" "S < E"
  obtains h' where
    "layoutData assign v tasks h = Some (Inr (h', js_sort (\<lambda>a b. level (h' a) - level (h' b)) tasks))"
    "same_shape (tree_store h tasks) h'"
    "\<And>t. t \<in> set tasks \<Longrightarrow> shown_task (h' t) \<Longrightarrow> boxed S (W / (E - S)) h' t"
    "\<And>t. t \<in> set (roots h tasks) \<Longrightarrow> shown_task (h' t)"
proof -
  let ?g = "tree_store h tasks"
  let ?pps = "W / (E - S)"
  have tasks: "virtualRoot \<notin> set tasks" "distinct tasks" "\<And>t. t \<in> set tasks \<Longrightarrow> lasting (h t)"
    and clean: "\<And>t. t \<in> set tasks \<Longrightarrow> level (h t) = Undef \<and> dim_of (h t) = None"
    using fresh by (auto simp: fresh_tasks_def)
  obtain h' n where run: "assignDimension assign ?g virtualRoot (initDim v) = Some (Inr h')"
    and shape: "same_shape ?g h'" and n: "0 < (n :: nat)"
    and fam: "\<forall>i t. i < n \<longrightarrow> t \<in> tasks_at ?g virtualRoot i \<longrightarrow> family_ok S ?pps h' t"
    and rest: "\<forall>r. r \<noteq> virtualRoot \<longrightarrow> dim_of (h' r) = dim_of (?g r) \<or> boxed S ?pps h' r"
    using geo(1) by (auto simp: cv_geometry_def intro: layout_of_tree [OF tasks geo(2-4)])
  have lvl: "level (h' t) = level (?g t)" for t using shape by (simp add: same_shape_def)
  have "family_ok S ?pps h' virtualRoot" using fam n by simp
  then have root: "boxed S ?pps h' t" if "t \<in> set (roots h tasks)" for t
    using yia.family_boxed that same_shape_set [OF shape, of virtualRoot] by simp
  have rootlvl: "level (h' t) = 1" if "t \<in> set (roots h tasks)" for t
    using tree_store_level [OF tasks(1) root_depth [OF that]] lvl by (simp add: js_num_simps)
  have box: "boxed S ?pps h' t" if t: "t \<in> set tasks" "shown_task (h' t)" for t
  proof (cases "level (h' t) = 1")
    case True
    obtain d where d: "task_depth h tasks d t"
    proof (cases "\<exists>d. task_depth h tasks d t")
      case False
      then have "level (h' t) = level (h t)"
        using t(1) tasks(1) lvl by (auto simp: tree_store_def numbered_def linked_def)
      then show thesis using True clean [OF t(1)] by (simp add: js_num_simps)
    qed blast
    then have "d = 1" using True lvl tree_store_level [OF tasks(1) d] by (simp add: js_num_simps)
    with d have "parent_of h tasks t = None"
      by (auto elim: task_depth.cases dest: task_depth_in)
    then show ?thesis using root t(1) by (simp add: roots_def)
  next
    case False
    then have "dim_of (h' t) \<noteq> None" using t(2) by (auto simp: shown_task_def split: option.splits)
    moreover have nr: "t \<noteq> virtualRoot" using t(1) tasks(1) by blast
    moreover have "dim_of (?g t) = None" using clean [OF t(1)] tree_store_simps(4) [OF nr] by simp
    ultimately show ?thesis using rest by metis
  qed
  have "rearrangeAsTree h tasks = Some (Inr ?g)" using par by (simp add: rearrangeAsTree_eq)
  then have "layoutData assign v tasks h = Some (Inr (h', js_sort (\<lambda>a b. level (h' a) - level (h' b)) tasks))"
    using run by (simp add: layoutData_def)
  moreover have "shown_task (h' t)" if "t \<in> set (roots h tasks)" for t
    using rootlvl [OF that] by (simp add: shown_task_def)
  ultimately show thesis using shape box by (intro that)
qed

lemma bind_bars_total_on:
  assumes "\<And>old k t i. (k, t) \<in> set kts \<Longrightarrow> \<exists>b. bind_bar scale lookup r h old t i = Inr b"
  shows "\<exists>bs. bind_bars scale lookup r h olds kts i = Inr bs"
  using assms
proof (induction kts arbitrary: i)
  case (Cons kt kts)
  obtain k t where kt: "kt = (k, t)" by (cases kt)
  obtain b where "bind_bar scale lookup r h (map_option (\<lambda>j. olds ! j) k) t i = Inr b"
    using Cons.prems [of k t] by (auto simp: kt)
  moreover obtain bs where "bind_bars scale lookup r h olds kts (i + 1) = Inr bs"
    using Cons.IH [of "i + 1"] Cons.prems by (metis list.set_intros(2))
  ultimately show ?case by (simp add: kt)
qed simp

definition dim_renderer :: "task_renderer \<Rightarrow> task_renderer" where
  \<comment> \<open>the accessors that \<open>_renderData\<close> installs\<close>
  "dim_renderer r = renderWithWidth (from_dim dim_width) (renderWithHeight (from_dim dim_height)
     (renderWithY (from_dim dim_y) (renderWithX (from_dim dim_x) r)))"

lemma dim_renderer_values:
  assumes "dim_of t = Some d"
  shows "getXValue scale (dim_renderer r) t i = Inr (Some (dim_x d))"
    "getYValue (dim_renderer r) t i = Inr (Some (dim_y d))"
    "getWidthValue scale (dim_renderer r) t i = Inr (Some (dim_width d))"
    "getHeightValue (dim_renderer r) t i = Inr (dim_height d)"
  using assms
  by (simp_all add: dim_renderer_def from_dim_def renderWithWidth_def renderWithHeight_def renderWithX_def
      renderWithY_def getXValue_def getYValue_def getWidthValue_def getHeightValue_def)

text \<open>A box on the time scale is where the axis of the view draws its times.\<close>

lemma boxed_on_axis:
  assumes "linear_scale scale" "S < E" "boxed S (W / (E - S)) h t" "dim_of (h t) = Some d"
  shows "dim_x d = scale (time_scale (Num S) (Num E) (Num W)) (start_time (h t))"
    "dim_width d = scale (time_scale (Num S) (Num E) (Num W)) (end_time (h t)) -
       scale (time_scale (Num S) (Num E) (Num W)) (start_time (h t))"
proof -
  obtain s e where box: "start_time (h t) = Num s" "end_time (h t) = Num e"
    "dim_x d = Num ((s - S) * (W / (E - S)))" "dim_width d = Num ((e - s) * (W / (E - S)))"
    using assms(3,4) unfolding boxed_def on_scale_def by (metis option.inject)
  have sc: "scale (time_scale (Num S) (Num E) (Num W)) (Num x) = Num ((x - S) / (E - S) * W)" for x
    using linear_scaleD [OF assms(1), of S E 0 W x] assms(2) by (simp add: time_scale_def js_num_simps)
  have "(e - S) / (E - S) * W - (s - S) / (E - S) * W = (e - s) * (W / (E - S))"
    by (simp add: left_diff_distrib [symmetric] diff_divide_distrib [symmetric])
  then show "dim_x d = scale (time_scale (Num S) (Num E) (Num W)) (start_time (h t))"
    "dim_width d = scale (time_scale (Num S) (Num E) (Num W)) (end_time (h t)) -
       scale (time_scale (Num S) (Num E) (Num W)) (start_time (h t))"
    by (simp_all add: box sc)
qed

definition colours_known :: "(task \<Rightarrow> string js_result) \<Rightarrow> store \<Rightarrow> ref list \<Rightarrow> bool" where
  "colours_known lookup h tasks \<longleftrightarrow>
     (\<forall>t \<in> set tasks. \<forall>u. kind u = kind (h t) \<and> what u = what (h t) \<longrightarrow> (\<exists>c. lookup u = Inr c))"

definition old_bars_ok :: "store \<Rightarrow> bar list option \<Rightarrow> bool" where
  "old_bars_ok h grp \<longleftrightarrow> bars_ok h grp \<and> (\<forall>bs. grp = Some bs \<longrightarrow> virtualRoot \<notin> bar_task ` set bs)"

lemma old_bars_ok_cong:
  assumes "\<And>r. r \<noteq> virtualRoot \<Longrightarrow> task_id (h' r) = task_id (h r)" "old_bars_ok h grp"
  shows "bars_ok h' grp"
proof (cases grp)
  case (Some bs)
  have id: "task_id (h' (bar_task b)) = task_id (h (bar_task b))" if "b \<in> set bs" for b
    using assms that Some by (metis image_eqI old_bars_ok_def)
  then have "map (\<lambda>b. task_id (h' (bar_task b))) bs = map (\<lambda>b. task_id (h (bar_task b))) bs" by simp
  moreover have "taskIdTag (h' (bar_task b)) = taskIdTag (h (bar_task b))" if "b \<in> set bs" for b
    using id [OF that] by (rule taskIdTag_cong)
  ultimately show ?thesis
    using assms(2) unfolding old_bars_ok_def bars_ok_def Some option.case by (metis (no_types, lifting))
qed (simp add: bars_ok_def)

lemma draw_boxed:
  assumes "keyed_join join" "linear_scale scale" "S < E" "distinct (map (\<lambda>t. task_id (h t)) shown)" "bars_ok h grp"
    and axis: "tr_xScale r = time_scale (Num S) (Num E) (Num W)"
    and box: "\<And>t. t \<in> set shown \<Longrightarrow> boxed S (W / (E - S)) h t \<and> (\<exists>c. lookup (h t) = Inr c)"
  obtains bs where "render_bars join scale lookup (dim_renderer r) h grp shown = Inr (Some bs)"
    "map bar_task bs = shown"
    "\<And>b. b \<in> set bs \<Longrightarrow> bar_x b = Some (scale (tr_xScale r) (start_time (h (bar_task b)))) \<and>
       bar_width b = Some (scale (tr_xScale r) (end_time (h (bar_task b))) - scale (tr_xScale r) (start_time (h (bar_task b))))"
proof -
  let ?r = "dim_renderer r"
  have bar: "\<exists>b. bind_bar scale lookup ?r h o' t i = Inr b" if t: "t \<in> set shown" for o' t i
  proof -
    obtain d c where "dim_of (h t) = Some d" "lookup (h t) = Inr c" using box [OF t] by (auto simp: boxed_def)
    then show ?thesis by (simp add: bind_bar_def dim_renderer_values)
  qed
  have "\<exists>bs. bind_bars scale lookup ?r h olds (zip slots shown) 0 = Inr bs" for olds slots
    by (rule bind_bars_total_on) (metis bar set_zip_rightD)
  then obtain g where g: "render_bars join scale lookup ?r h grp shown = Inr g"
    unfolding render_bars_def Let_def by (metis bind_result_simps(2))
  obtain bs where bs: "g = Some bs" "map bar_task bs = shown"
    and at: "\<And>i. i < length shown \<Longrightarrow> getXValue scale ?r (h (shown ! i)) i = Inr (bar_x (bs ! i)) \<and>
      getWidthValue scale ?r (h (shown ! i)) i = Inr (bar_width (bs ! i))"
    by (rule render_bars_spec [OF assms(1,4,5) g]) blast
  have "bar_x b = Some (scale (tr_xScale r) (start_time (h (bar_task b)))) \<and>
       bar_width b = Some (scale (tr_xScale r) (end_time (h (bar_task b))) - scale (tr_xScale r) (start_time (h (bar_task b))))"
    if b: "b \<in> set bs" for b
  proof -
    obtain i where i: "i < length shown" "b = bs ! i" "bar_task b = shown ! i"
      using b bs(2) by (metis in_set_conv_nth length_map nth_map)
    then have t: "boxed S (W / (E - S)) h (bar_task b)" using box nth_mem by metis
    then obtain d where d: "dim_of (h (bar_task b)) = Some d" by (auto simp: boxed_def)
    have "bar_x b = Some (dim_x d)" "bar_width b = Some (dim_width d)"
      using at [OF i(1)] i d by (simp_all add: dim_renderer_values)
    then show ?thesis using boxed_on_axis [OF assms(2,3) t d] axis by simp
  qed
  then show thesis using that g bs by blast
qed

lemma component_draw:
  assumes join: "keyed_join join" and scale: "linear_scale scale"
    and fresh: "fresh_tasks h tasks" and par: "parents_ok h tasks"
    and geo: "cv_geometry W H S E v" "0 \<le> W" "27 \<le> H" "S < E"
    and colours: "colours_known lookup h tasks" and old: "old_bars_ok h (cv_bars v)"
  obtains v' h' bs where "cv_render assign join scale lookup tasks h v = Some (Inr (v', h'))"
    "cv_bars v' = Some bs" "bar_task ` set bs \<subseteq> set tasks" "set (roots h tasks) \<subseteq> bar_task ` set bs"
    "distinct (map bar_task bs)" "tr_xScale (cv_renderer v') = tr_xScale (cv_renderer v)"
    "\<And>b. b \<in> set bs \<Longrightarrow>
       bar_x b = Some (scale (tr_xScale (cv_renderer v)) (start_time (h' (bar_task b)))) \<and>
       bar_width b = Some (scale (tr_xScale (cv_renderer v)) (end_time (h' (bar_task b))) -
         scale (tr_xScale (cv_renderer v)) (start_time (h' (bar_task b))))"
    "\<And>t. t \<in> set tasks \<Longrightarrow> start_time (h' t) = start_time (h t) \<and> end_time (h' t) = end_time (h t)"
proof -
  obtain h' where lay: "layoutData assign v tasks h = Some (Inr (h', js_sort (\<lambda>a b. level (h' a) - level (h' b)) tasks))"
    and shape: "same_shape (tree_store h tasks) h'"
    and box: "\<And>t. t \<in> set tasks \<Longrightarrow> shown_task (h' t) \<Longrightarrow> boxed S (W / (E - S)) h' t"
    and root: "\<And>t. t \<in> set (roots h tasks) \<Longrightarrow> shown_task (h' t)"
    using layout_boxes [OF fresh par geo] by metis
  define shown where "shown = filterTasks h' (js_sort (\<lambda>a b. level (h' a) - level (h' b)) tasks)"
  have shown: "set shown = {t \<in> set tasks. shown_task (h' t)}" "distinct shown"
    using fresh by (simp_all add: shown_def filterTasks_def fresh_tasks_def)
  have same: "kind (h' t) = kind (h t) \<and> what (h' t) = what (h t) \<and> task_id (h' t) = task_id (h t) \<and>
      start_time (h' t) = start_time (h t) \<and> end_time (h' t) = end_time (h t)" if "t \<noteq> virtualRoot" for t
    using that shape by (simp add: same_shape_def tree_store_def numbered_def linked_def)
  have nroot: "t \<noteq> virtualRoot" if "t \<in> set tasks" for t using that fresh by (auto simp: fresh_tasks_def)
  have "inj_on (\<lambda>t. task_id (h t)) (set tasks)" using fresh by (simp add: fresh_tasks_def distinct_map)
  then have "inj_on (\<lambda>t. task_id (h' t)) (set shown)"
    using shown(1) same nroot by (auto simp: inj_on_def)
  then have ids: "distinct (map (\<lambda>t. task_id (h' t)) shown)" using shown(2) by (simp add: distinct_map)
  have bars: "bars_ok h' (cv_bars v)" using old_bars_ok_cong [OF _ old] same by blast
  have box': "boxed S (W / (E - S)) h' t \<and> (\<exists>c. lookup (h' t) = Inr c)" if "t \<in> set shown" for t
    using that shown(1) box colours same nroot unfolding colours_known_def by blast
  have axis: "tr_xScale (cv_renderer v) = time_scale (Num S) (Num E) (Num W)" using geo(1) by (simp add: cv_geometry_def)
  obtain bs where g: "render_bars join scale lookup (dim_renderer (cv_renderer v)) h' (cv_bars v) shown = Inr (Some bs)"
    and bs: "map bar_task bs = shown"
    and pos: "\<And>b. b \<in> set bs \<Longrightarrow> bar_x b = Some (scale (tr_xScale (cv_renderer v)) (start_time (h' (bar_task b)))) \<and>
       bar_width b = Some (scale (tr_xScale (cv_renderer v)) (end_time (h' (bar_task b))) -
         scale (tr_xScale (cv_renderer v)) (start_time (h' (bar_task b))))"
    using draw_boxed [OF join scale geo(4) ids bars axis box'] by metis
  let ?v = "v\<lparr>cv_tasks := Some (js_sort (\<lambda>a b. level (h' a) - level (h' b)) tasks),
    cv_renderer := dim_renderer (cv_renderer v), cv_bars := Some bs\<rparr>"
  have "initDim (v\<lparr>cv_tasks := Some tasks\<rparr>) = initDim v" by (simp add: initDim_def)
  then have lay': "layoutData assign (v\<lparr>cv_tasks := Some tasks\<rparr>) tasks h = layoutData assign v tasks h"
    unfolding layoutData_def by (simp only:)
  have "cv_render assign join scale lookup tasks h v = Some (Inr (cv_label h' (js_sort (\<lambda>a b. level (h' a) - level (h' b)) tasks) ?v, h'))"
    using g by (simp add: cv_render_def renderData_def lay' lay Let_def shown_def dim_renderer_def)
  then show thesis
  proof (rule that)
    show "cv_bars (cv_label h' (js_sort (\<lambda>a b. level (h' a) - level (h' b)) tasks) ?v) = Some bs"
      "tr_xScale (cv_renderer (cv_label h' (js_sort (\<lambda>a b. level (h' a) - level (h' b)) tasks) ?v)) = tr_xScale (cv_renderer v)"
      using bs by (auto simp: cv_label_def dim_renderer_def renderWithWidth_def renderWithHeight_def
          renderWithX_def renderWithY_def split: list.splits option.splits)
    have "bar_task ` set bs = set shown" using bs by (metis list.set_map)
    then show "bar_task ` set bs \<subseteq> set tasks" "set (roots h tasks) \<subseteq> bar_task ` set bs" "distinct (map bar_task bs)"
      using shown root bs by (auto simp: roots_def)
  qed (use pos same nroot in auto)
qed

subsection \<open>Properties\<close>


definition sample_component_view :: component_view where
  "sample_component_view = cv_setTimeAxis 0 10 (cv_updateLayout 100 100
     (new_component_view (new_task_renderer (time_scale 0 0 0)) new_x_axis_drawer))"

lemma sample_component_ok:
  "cv_geometry 100 100 0 10 sample_component_view" "old_bars_ok h (cv_bars sample_component_view)"
  "fresh_tasks sample_tasks [1, 2, 3]" "parents_ok sample_tasks [1, 2, 3]"
  "colours_known (\<lambda>_. Inr []) h ts"
proof -
  show "cv_geometry 100 100 0 10 sample_component_view"
    by (simp add: cv_geometry_def initDim_plain)
      (simp add: sample_component_view_def initDim_def cv_setTimeAxis_def cv_updateLayout_def
        cv_updateTimeScale_def new_component_view_def setXScale_def Let_def js_num_simps)
  show "old_bars_ok h (cv_bars sample_component_view)"
    by (simp add: old_bars_ok_def bars_ok_def sample_component_view_def cv_setTimeAxis_def cv_updateLayout_def
        cv_updateTimeScale_def new_component_view_def Let_def)
  show "fresh_tasks sample_tasks [1, 2, 3]"
    using sample_tasks_ok(1) by (simp add: fresh_tasks_def sample_tasks_def)
  show "parents_ok sample_tasks [1, 2, 3]" by (rule sample_tasks_ok(3))
  show "colours_known (\<lambda>_. Inr []) h ts" by (simp add: colours_known_def)
qed


text \<open>
  (C10) Redrawing the time axis without a change of the range leaves the picture as it is: what
  \<open>updateXAxis\<close> computes from the scale is what the layout had computed from the nested boxes.
\<close>

theorem component_view_axis_consistent:
  assumes "keyed_join join" "linear_scale scale" "fresh_tasks h tasks" "parents_ok h tasks"
    and "cv_geometry W H S E v" "0 \<le> W" "27 \<le> H" "S < E"
    and "colours_known lookup h tasks" "old_bars_ok h (cv_bars v)"
    and "cv_render assign join scale lookup tasks h v = Some (Inr (v', h'))"
  shows "cv_updateXAxis scale h' v' = v'"
proof -
  obtain bs where bs: "cv_bars v' = Some bs" "tr_xScale (cv_renderer v') = tr_xScale (cv_renderer v)"
    "\<And>b. b \<in> set bs \<Longrightarrow>
       bar_x b = Some (scale (tr_xScale (cv_renderer v)) (start_time (h' (bar_task b)))) \<and>
       bar_width b = Some (scale (tr_xScale (cv_renderer v)) (end_time (h' (bar_task b))) -
         scale (tr_xScale (cv_renderer v)) (start_time (h' (bar_task b))))"
    using component_draw [OF assms(1-10)] unfolding assms(11) option.inject sum.inject prod.inject by metis
  have "map (\<lambda>b. b\<lparr>bar_x := Some (scale (tr_xScale (cv_renderer v')) (start_time (h' (bar_task b)))),
      bar_width := Some (scale (tr_xScale (cv_renderer v')) (end_time (h' (bar_task b))) -
        scale (tr_xScale (cv_renderer v')) (start_time (h' (bar_task b))))\<rparr>) bs = bs"
  proof (rule map_idI)
    fix b assume b: "b \<in> set bs"
    show "b\<lparr>bar_x := Some (scale (tr_xScale (cv_renderer v')) (start_time (h' (bar_task b)))),
        bar_width := Some (scale (tr_xScale (cv_renderer v')) (end_time (h' (bar_task b))) -
          scale (tr_xScale (cv_renderer v')) (start_time (h' (bar_task b))))\<rparr> = b"
      using bs(3) [OF b] unfolding bs(2) by (cases b) simp
  qed
  then show ?thesis using bs(1) by (simp add: cv_updateXAxis_def renderer_updateXAxis_def)
qed

theorem component_view_axis_consistent_witness:
  "\<exists>v' h'. cv_render assign list_join lerp (\<lambda>_. Inr []) [1, 2, 3] sample_tasks sample_component_view =
     Some (Inr (v', h')) \<and> cv_updateXAxis lerp h' v' = v'"
proof -
  have size: "(0 :: rat) \<le> 100" "(27 :: rat) \<le> 100" "(0 :: rat) < 10" by simp_all
  note ok = keyed_list_join linear_lerp sample_component_ok(3,4,1) size sample_component_ok(5,2)
  obtain v' h' where run: "cv_render assign list_join lerp (\<lambda>_. Inr []) [1, 2, 3] sample_tasks
      sample_component_view = Some (Inr (v', h'))" using component_draw [OF ok] by metis
  show ?thesis using component_view_axis_consistent [OF ok run] run by (intro exI conjI)
qed

end
