(* ===== verification/Task_Colors.thy ===== *)
theory Task_Colors
  imports Task_Renderer
begin

text \<open>
  \<open>daisen/static/src/taskcolorcoder.ts\<close> and \<open>taskcolorlegend.ts\<close>: one colour for each
  combination of \<open>kind\<close> and \<open>what\<close>, and the legend that lists them.  The palette of
  chroma-js is an argument, \<open>colors n\<close> being the array of \<open>n\<close> colours it returns.
\<close>

subsection \<open>The colour coder\<close>

type_synonym palette = "nat \<Rightarrow> string list"

definition kindWhat :: "task \<Rightarrow> string" where
  "kindWhat t = kind t @ ''-'' @ what t"

fun task_types :: "string list \<Rightarrow> task list \<Rightarrow> string list" where
  \<comment> \<open>the keys of \<open>taskTypes\<close> in the order in which they are added\<close>
  "task_types types [] = types"
| "task_types types (t # ts) =
     task_types (if kindWhat t \<in> set types then types else types @ [kindWhat t]) ts"

fun color_entries :: "string list \<Rightarrow> nat \<Rightarrow> string list \<Rightarrow> (string, string) js_map \<Rightarrow> (string, string) js_map" where
  \<comment> \<open>\<open>taskTypeArray.forEach\<close> from index \<open>i\<close> on\<close>
  "color_entries colors i [] m = m"
| "color_entries colors i (t # ts) m = color_entries colors (i + 1) ts (map_set t (colors ! (i + 1)) m)"

definition recode :: "palette \<Rightarrow> task list \<Rightarrow> (string, string) js_map" where
  "recode colors tasks =
     (let taskTypeArray = sort (task_types [] tasks)
      in color_entries (colors (length taskTypeArray + 1)) 0 taskTypeArray [])"

definition inherited_text :: "string \<Rightarrow> string" where
  \<comment> \<open>the operator \<open>in\<close> also finds what the object inherits; this is its text\<close>
  "inherited_text name =
     (if name = ''__proto__'' then ''[object Object]''
      else if name = ''constructor'' then ''function Object() { [native code] }''
      else ''function '' @ name @ ''() { [native code] }'')"

definition lookupWithText :: "(string, string) js_map \<Rightarrow> string \<Rightarrow> string js_result" where
  "lookupWithText colorMap text =
     (case map_get colorMap text of
        Some c \<Rightarrow> Inr c
      | None \<Rightarrow> if text \<in> set object_prototype_keys then Inr (inherited_text text)
                else Inl (Throw (text @ '' is not in color map'')))"

definition lookup :: "(string, string) js_map \<Rightarrow> task \<Rightarrow> string js_result" where
  "lookup colorMap t = lookupWithText colorMap (kindWhat t)"

subsection \<open>The legend\<close>

record legend_row =
  lr_text :: string
  lr_y :: rat
  lr_fill :: "string js_result"

definition legend_rows :: "(string, string) js_map \<Rightarrow> legend_row list" where
  "legend_rows colorMap =
     map (\<lambda>(i, c). \<lparr> lr_text = fst c, lr_y = of_nat i * 28 + 30, lr_fill = lookupWithText colorMap (fst c) \<rparr>)
       (enumerate 0 colorMap)"

definition legend_height :: "(string, string) js_map \<Rightarrow> rat" where
  "legend_height colorMap = of_nat (length colorMap) * 28 + 30"

definition legend_highlight :: "legend_row \<Rightarrow> highlight_arg" where
  \<comment> \<open>what hovering over a row highlights\<close>
  "legend_highlight row = HPred (\<lambda>t. kind t @ ''-'' @ what t = lr_text row)"

subsection \<open>The colour map\<close>

lemma task_types_spec:
  "set (task_types types ts) = set types \<union> kindWhat ` set ts"
  "distinct types \<Longrightarrow> distinct (task_types types ts)"
  by (induction types ts rule: task_types.induct) auto

lemma color_entries_keys:
  "distinct (map_keys m @ ts) \<Longrightarrow> map_keys (color_entries cs i ts m) = map_keys m @ ts"
proof (induction ts arbitrary: i m)
  case (Cons t ts)
  then have "map_keys (map_set t (cs ! (i + 1)) m) = map_keys m @ [t]" using jm.keys_put [of t "cs ! (i + 1)" m] by auto
  with Cons.IH [of "map_set t (cs ! (i + 1)) m" "i + 1"] Cons.prems show ?case
    unfolding color_entries.simps by (simp only: append_assoc append_Cons append_Nil)
qed simp

lemma color_entries_other:
  "k \<notin> set ts \<Longrightarrow> map_get (color_entries cs i ts m) k = map_get m k"
  by (induction ts arbitrary: i m) (auto simp: jm.get_put)

lemma color_entries_get:
  "distinct ts \<Longrightarrow> j < length ts \<Longrightarrow> map_get (color_entries cs i ts m) (ts ! j) = Some (cs ! (i + j + 1))"
proof (induction ts arbitrary: i j m)
  case (Cons t ts)
  then show ?case by (cases j) (auto simp: color_entries_other jm.get_put)
qed simp

lemma recode_keys: "map_keys (recode colors tasks) = sort (task_types [] tasks)"
  using task_types_spec(2) [of "[]" tasks] by (simp add: recode_def Let_def color_entries_keys)

lemma kindWhat_not_inherited: "kindWhat t \<notin> set object_prototype_keys"
proof
  assume "kindWhat t \<in> set object_prototype_keys"
  moreover have "CHR ''-'' \<in> set (kindWhat t)" by (simp add: kindWhat_def)
  ultimately have "\<exists>s \<in> set object_prototype_keys. CHR ''-'' \<in> set s" by blast
  then show False by (simp add: object_prototype_keys_def)
qed

lemma recode_get:
  assumes "i < length (sort (task_types [] tasks))"
  shows "map_get (recode colors tasks) (sort (task_types [] tasks) ! i) =
    Some (colors (length (task_types [] tasks) + 1) ! (i + 1))"
  using assms task_types_spec(2) [of "[]" tasks] by (simp add: recode_def Let_def color_entries_get)

lemma lookup_recode:
  assumes "t \<in> set tasks"
  obtains i where "i < length (task_types [] tasks)" "sort (task_types [] tasks) ! i = kindWhat t"
    "lookup (recode colors tasks) t = Inr (colors (length (task_types [] tasks) + 1) ! (i + 1))"
proof -
  have "kindWhat t \<in> set (sort (task_types [] tasks))" using assms task_types_spec(1) by auto
  then obtain i where i: "i < length (sort (task_types [] tasks))" "sort (task_types [] tasks) ! i = kindWhat t"
    by (metis in_set_conv_nth)
  with recode_get [OF i(1)] show thesis
    by (intro that [of i]) (simp_all add: lookup_def lookupWithText_def)
qed

subsection \<open>Properties\<close>


definition sample_palette :: palette where
  "sample_palette n = map (\<lambda>i. replicate i (CHR ''#'')) [0..<n]"


text \<open>
  The legend lists every task type once, in alphabetical order, each row in the colour of
  the bars it stands for and inside the height of the drawing; every task that hovering over a
  row highlights is drawn in the colour of that row.
\<close>

theorem legend_matches_bars:
  "map lr_text (legend_rows (recode colors tasks)) = sort (task_types [] tasks) \<and>
   (\<forall>row \<in> set (legend_rows (recode colors tasks)).
      0 \<le> lr_y row \<and> lr_y row + 28 \<le> legend_height (recode colors tasks) \<and>
      (\<forall>t. (\<exists>p. legend_highlight row = HPred p \<and> p t) \<longrightarrow> lr_fill row = lookup (recode colors tasks) t))"
proof -
  let ?m = "recode colors tasks"
  have "map lr_text (legend_rows ?m) = map_keys ?m"
    by (simp add: legend_rows_def o_def case_prod_unfold map_fst_enumerate)
      (metis (no_types, lifting) map_snd_enumerate map_map o_def map_eq_conv)
  moreover have "0 \<le> lr_y row \<and> lr_y row + 28 \<le> legend_height ?m" if row: "row \<in> set (legend_rows ?m)" for row
  proof -
    obtain i where "i < length ?m" "lr_y row = of_nat i * 28 + 30"
      using row in_set_enumerate_eq [of _ 0 ?m] by (fastforce simp: legend_rows_def)
    then show ?thesis using of_nat_mono [of "Suc i" "length ?m", where 'a = rat] by (simp add: legend_height_def)
  qed
  ultimately show ?thesis
    by (auto simp: recode_keys legend_highlight_def lookup_def kindWhat_def legend_rows_def)
qed

end
