(* ===== verification/Mouse_Events.thy ===== *)
theory Mouse_Events
  imports Js_Collections
begin

text \<open>
  \<open>daisen/static/src/mouseeventhandler.ts\<close>: panning and zooming of a view that implements the
  interface \<open>ZoomHandler\<close>.  The view is an argument: a record of its operations together with
  its state.  The locale \<open>zoom_view\<close> states what the handler relies on, and its lemmas hold for
  every view; the task page and the dashboard widget are interpretations of it.

  The timers of the browser that the handler has set and that have not fired are part of its
  state.  An event carries the coordinates the handler reads.
\<close>

subsection \<open>The interface and the state\<close>

record 'v zoom_handler =
  getAxisStatus :: "'v \<Rightarrow> js_num \<times> js_num \<times> js_num \<times> js_num"
  temporaryTimeShift :: "js_num \<Rightarrow> js_num \<Rightarrow> 'v \<Rightarrow> 'v js_result"
  permanentTimeShift :: "js_num \<Rightarrow> js_num \<Rightarrow> 'v \<Rightarrow> 'v js_result"

record mouse_handler =
  scrollingTimer :: "nat option"
  isDragging :: bool
  isPinching :: bool
  dragMoved :: bool
  dragStartMouseX :: js_num
  dragStartStartTime :: js_num
  dragStartEndTime :: js_num
  pinchStartTouches :: "js_num list"
  timers :: "nat list" \<comment> \<open>pending time-outs of the browser\<close>
  nextTimer :: nat

definition new_mouse_handler :: mouse_handler where
  "new_mouse_handler =
     \<lparr> scrollingTimer = None, isDragging = False, isPinching = False, dragMoved = False,
       dragStartMouseX = 0, dragStartStartTime = 0, dragStartEndTime = 0, pinchStartTouches = [],
       timers = [], nextTimer = 1 \<rparr>"

type_synonym 'v mouse_state = "mouse_handler \<times> 'v"

subsection \<open>The handlers\<close>

definition triggerReload :: "'v zoom_handler \<Rightarrow> 'v mouse_state \<Rightarrow> 'v mouse_state js_result" where
  "triggerReload Z = (\<lambda>(m, v). let (startTime, endTime, _, _) = getAxisStatus Z v in
     bind_result (permanentTimeShift Z startTime endTime v) (\<lambda>v'. Inr (m, v')))"

definition continueScrolling :: "mouse_handler \<Rightarrow> mouse_handler" where
  "continueScrolling m =
     (let pending = (case scrollingTimer m of None \<Rightarrow> timers m | Some t \<Rightarrow> removeAll t (timers m))
      in m\<lparr>timers := pending @ [nextTimer m], scrollingTimer := Some (nextTimer m),
           nextTimer := nextTimer m + 1\<rparr>)"

definition handleMouseDrag ::
    "'v zoom_handler \<Rightarrow> js_num \<Rightarrow> js_num \<Rightarrow> js_num \<Rightarrow> js_num \<Rightarrow> js_num \<Rightarrow> 'v mouse_state \<Rightarrow> 'v mouse_state js_result" where
  "handleMouseDrag Z startTime endTime leftX rightX mouseX = (\<lambda>(m, v).
     if \<not> isDragging m then Inr (m, v)
     else
       let delta = mouseX - dragStartMouseX m;
           m' = (if delta > Num (1 / 100) \<or> delta < Num (- 1 / 100) then m\<lparr>dragMoved := True\<rparr> else m);
           timePerPixel = (endTime - startTime) / (rightX - leftX);
           timeDelta = timePerPixel * delta;
           newStartTime = dragStartStartTime m - timeDelta;
           newEndTime = dragStartEndTime m - timeDelta
       in bind_result (temporaryTimeShift Z newStartTime newEndTime v) (\<lambda>v'. Inr (m', v')))"

definition handleMouseMove :: "'v zoom_handler \<Rightarrow> js_num \<Rightarrow> 'v mouse_state \<Rightarrow> 'v mouse_state js_result" where
  "handleMouseMove Z offsetX s =
     (let (startTime, endTime, leftX, rightX) = getAxisStatus Z (snd s)
      in handleMouseDrag Z startTime endTime leftX rightX offsetX s)"

definition handleMouseDown :: "'v zoom_handler \<Rightarrow> js_num \<Rightarrow> 'v mouse_state \<Rightarrow> 'v mouse_state" where
  "handleMouseDown Z offsetX = (\<lambda>(m, v).
     let (startTime, endTime, _, _) = getAxisStatus Z v
     in (m\<lparr>isDragging := True, dragMoved := False, dragStartMouseX := offsetX,
           dragStartStartTime := startTime, dragStartEndTime := endTime\<rparr>, v))"

definition handleMouseUp :: "'v zoom_handler \<Rightarrow> 'v mouse_state \<Rightarrow> 'v mouse_state js_result" where
  "handleMouseUp Z = (\<lambda>(m, v).
     let m' = (if isDragging m then m\<lparr>isDragging := False\<rparr> else m)
     in if dragMoved m' then triggerReload Z (m', v) else Inr (m', v))"

definition handleTouchDragStart :: "'v zoom_handler \<Rightarrow> js_num list \<Rightarrow> 'v mouse_state \<Rightarrow> 'v mouse_state" where
  "handleTouchDragStart Z touches = (\<lambda>(m, v).
     let (startTime, endTime, _, _) = getAxisStatus Z v
     in (m\<lparr>isDragging := True, isPinching := False, dragStartStartTime := startTime,
           dragStartEndTime := endTime, dragStartMouseX := touches ! 0, pinchStartTouches := touches\<rparr>, v))"

definition handlePinchStart :: "'v zoom_handler \<Rightarrow> js_num list \<Rightarrow> 'v mouse_state \<Rightarrow> 'v mouse_state" where
  "handlePinchStart Z touches = (\<lambda>(m, v).
     let (startTime, endTime, _, _) = getAxisStatus Z v
     in (m\<lparr>isPinching := True, isDragging := False, pinchStartTouches := touches,
           dragStartStartTime := startTime, dragStartEndTime := endTime\<rparr>, v))"

definition handleTouchStart :: "'v zoom_handler \<Rightarrow> js_num list \<Rightarrow> 'v mouse_state \<Rightarrow> 'v mouse_state" where
  "handleTouchStart Z touches s =
     (let s1 = (if length touches = 1 then handleTouchDragStart Z touches s else s)
      in if length touches = 2 then handlePinchStart Z [touches ! 0, touches ! 1] s1 else s1)"

definition handleTouchEnd :: "'v mouse_state \<Rightarrow> 'v mouse_state" where
  "handleTouchEnd = (\<lambda>(m, v). (m\<lparr>isPinching := False, isDragging := False\<rparr>, v))"

definition handleTouchDrag :: "'v zoom_handler \<Rightarrow> js_num list \<Rightarrow> 'v mouse_state \<Rightarrow> 'v mouse_state js_result" where
  \<comment> \<open>reading a touch that is not there raises\<close>
  "handleTouchDrag Z touches s =
     (case js_nth touches 0 of
        None \<Rightarrow> Inl TypeError
      | Some x \<Rightarrow>
          let (startTime, endTime, leftX, rightX) = getAxisStatus Z (snd s)
          in bind_result (handleMouseDrag Z startTime endTime leftX rightX x s)
               (\<lambda>(m, v). Inr (continueScrolling m, v)))"

definition handlePinch :: "'v zoom_handler \<Rightarrow> js_num list \<Rightarrow> 'v mouse_state \<Rightarrow> 'v mouse_state js_result" where
  "handlePinch Z touches = (\<lambda>(m, v).
     case (js_nth (pinchStartTouches m) 1, js_nth (pinchStartTouches m) 0, js_nth touches 1, js_nth touches 0) of
       (Some p1, Some p0, Some t1, Some t0) \<Rightarrow>
         let startDist = js_abs (p1 - p0);
             endDist = js_abs (t1 - t0);
             startDuration = dragStartEndTime m - dragStartStartTime m;
             scale = startDist / endDist;
             endDuration = startDuration * scale;
             midTime = (dragStartStartTime m + dragStartEndTime m) / 2;
             newStartTime = midTime - endDuration / 2;
             newEndTime = midTime + endDuration / 2
         in bind_result (temporaryTimeShift Z newStartTime newEndTime v)
              (\<lambda>v'. Inr (continueScrolling m, v'))
     | _ \<Rightarrow> Inl TypeError)"

definition handleTouchMove :: "'v zoom_handler \<Rightarrow> js_num list \<Rightarrow> 'v mouse_state \<Rightarrow> 'v mouse_state js_result" where
  "handleTouchMove Z touches s =
     bind_result (if isDragging (fst s) then handleTouchDrag Z touches s else Inr s) (\<lambda>s1.
       if isPinching (fst s1) then handlePinch Z touches s1 else Inr s1)"

definition handleMouseWheelX :: "'v zoom_handler \<Rightarrow> js_num \<Rightarrow> 'v mouse_state \<Rightarrow> 'v mouse_state js_result" where
  "handleMouseWheelX Z deltaX = (\<lambda>(m, v).
     let (startTime, endTime, _, _) = getAxisStatus Z v;
         duration = endTime - startTime
     in bind_result (temporaryTimeShift Z (startTime + duration * (deltaX * Num (1 / 1000)))
          (endTime + duration * (deltaX * Num (1 / 1000))) v) (\<lambda>v'. Inr (m, v')))"

text \<open>The two counting loops of \<open>handleMouseWheelY\<close>.\<close>

function zoom_out :: "rat \<Rightarrow> nat \<Rightarrow> js_num \<Rightarrow> js_num" where
  "zoom_out deltaY i tpp = (if of_nat i < deltaY then zoom_out deltaY (i + 1) (tpp * Num (1001 / 1000)) else tpp)"
  by pat_completeness auto
termination
  by (relation "measure (\<lambda>(d, i, _). nat \<lceil>d - of_nat i\<rceil>)") (simp, simp, linarith)

function zoom_in :: "rat \<Rightarrow> nat \<Rightarrow> js_num \<Rightarrow> js_num" where
  "zoom_in deltaY i tpp = (if of_nat i < - deltaY then zoom_in deltaY (i + 1) (tpp / Num (1001 / 1000)) else tpp)"
  by pat_completeness auto
termination
  by (relation "measure (\<lambda>(d, i, _). nat \<lceil>- d - of_nat i\<rceil>)") (simp, simp, linarith)

declare zoom_out.simps [simp del] zoom_in.simps [simp del]

definition handleMouseWheelY :: "'v zoom_handler \<Rightarrow> rat \<Rightarrow> js_num \<Rightarrow> 'v mouse_state \<Rightarrow> 'v mouse_state js_result" where
  "handleMouseWheelY Z deltaY offsetX = (\<lambda>(m, v).
     let (startTime, endTime, leftX, rightX) = getAxisStatus Z v;
         duration = endTime - startTime;
         timePerPixel = duration / (rightX - leftX);
         pixelOnRight = rightX - offsetX;
         pixelOnLeft = offsetX - leftX;
         timeOnLeft = pixelOnLeft * timePerPixel;
         mouseTime = timeOnLeft + startTime;
         newTimePerPixel =
           (if deltaY > 0 then zoom_out deltaY 0 timePerPixel else zoom_in deltaY 0 timePerPixel);
         newTimeOnLeft = newTimePerPixel * pixelOnLeft;
         newTimeOnRight = newTimePerPixel * pixelOnRight;
         newStartTime = mouseTime - newTimeOnLeft;
         newEndTime = mouseTime + newTimeOnRight
     in bind_result (temporaryTimeShift Z newStartTime newEndTime v) (\<lambda>v'. Inr (m, v')))"

definition scrolled :: "'v mouse_state js_result \<Rightarrow> 'v mouse_state js_result" where
  "scrolled r = bind_result r (\<lambda>(m, v). Inr (continueScrolling m, v))"

definition handleMouseWheel :: "'v zoom_handler \<Rightarrow> rat \<Rightarrow> rat \<Rightarrow> js_num \<Rightarrow> 'v mouse_state \<Rightarrow> 'v mouse_state js_result" where
  "handleMouseWheel Z deltaX deltaY offsetX s =
     bind_result (if deltaY \<noteq> 0 then scrolled (handleMouseWheelY Z deltaY offsetX s) else Inr s) (\<lambda>s1.
       if deltaX \<noteq> 0 then scrolled (handleMouseWheelX Z (Num deltaX) s1) else Inr s1)"

subsection \<open>Events\<close>

datatype mouse_event =
    MouseMove rat
  | MouseDown rat
  | MouseUp
  | TouchStart "rat list"
  | TouchEnd
  | TouchMove "rat list"
  | Wheel rat rat rat \<comment> \<open>\<open>deltaX\<close>, \<open>deltaY\<close>, \<open>offsetX\<close>\<close>
  | TimerFires nat

fun dispatch :: "'v zoom_handler \<Rightarrow> mouse_event \<Rightarrow> 'v mouse_state \<Rightarrow> 'v mouse_state js_result" where
  \<comment> \<open>the listeners of \<open>register\<close> and the time-out that \<open>continueScrolling\<close> sets\<close>
  "dispatch Z (MouseMove x) s = handleMouseMove Z (Num x) s"
| "dispatch Z (MouseDown x) s = Inr (handleMouseDown Z (Num x) s)"
| "dispatch Z MouseUp s = handleMouseUp Z s"
| "dispatch Z (TouchStart xs) s = Inr (handleTouchStart Z (map Num xs) s)"
| "dispatch Z TouchEnd s = Inr (handleTouchEnd s)"
| "dispatch Z (TouchMove xs) s = handleTouchMove Z (map Num xs) s"
| "dispatch Z (Wheel dx dy x) s = handleMouseWheel Z dx dy (Num x) s"
| "dispatch Z (TimerFires t) (m, v) =
     (if t \<in> set (timers m) then triggerReload Z (m\<lparr>timers := removeAll t (timers m)\<rparr>, v) else Inr (m, v))"

fun dispatch_all :: "'v zoom_handler \<Rightarrow> mouse_event list \<Rightarrow> 'v mouse_state \<Rightarrow> 'v mouse_state js_result" where
  "dispatch_all Z [] s = Inr s"
| "dispatch_all Z (e # es) s = bind_result (dispatch Z e s) (dispatch_all Z es)"

lemma dispatch_all_append:
  "dispatch_all Z (es @ fs) s = bind_result (dispatch_all Z es s) (dispatch_all Z fs)"
proof (induction es arbitrary: s)
  case (Cons e es)
  then show ?case by (cases "dispatch Z e s") simp_all
qed simp

subsection \<open>The invariant of the handler\<close>

text \<open>
  At most one reload is pending and it is the one the handler knows, and a pinch has the two
  touches it started with.
\<close>

definition handler_inv :: "mouse_handler \<Rightarrow> bool" where
  "handler_inv m \<longleftrightarrow>
     (timers m = [] \<or> (\<exists>t. timers m = [t] \<and> scrollingTimer m = Some t \<and> t < nextTimer m)) \<and>
     (isPinching m \<longrightarrow> length (pinchStartTouches m) = 2)"

lemma handler_inv_new: "handler_inv new_mouse_handler"
  by (simp add: handler_inv_def new_mouse_handler_def)

lemma handler_inv_continueScrolling: "handler_inv m \<Longrightarrow> handler_inv (continueScrolling m)"
  by (auto simp: handler_inv_def continueScrolling_def Let_def split: option.splits)

lemma handler_inv_fields [simp]:
  "handler_inv (m\<lparr>isDragging := a\<rparr>) = handler_inv m" "handler_inv (m\<lparr>dragMoved := a\<rparr>) = handler_inv m"
  "handler_inv (m\<lparr>dragStartMouseX := x\<rparr>) = handler_inv m"
  "handler_inv (m\<lparr>dragStartStartTime := x\<rparr>) = handler_inv m"
  "handler_inv (m\<lparr>dragStartEndTime := x\<rparr>) = handler_inv m"
  by (simp_all add: handler_inv_def)

lemmas handler_defs =
  triggerReload_def handleMouseDrag_def handleMouseMove_def handleMouseDown_def handleMouseUp_def
  handleTouchDragStart_def handlePinchStart_def handleTouchStart_def handleTouchEnd_def
  handleTouchDrag_def handlePinch_def handleTouchMove_def handleMouseWheelX_def handleMouseWheelY_def
  scrolled_def handleMouseWheel_def

lemma handler_inv_drag:
  "handleMouseDrag Z a b c d x (m, v) = Inr (m', v') \<Longrightarrow> handler_inv m \<Longrightarrow> handler_inv m'"
  by (auto simp: handleMouseDrag_def Let_def bind_result_Inr_iff split: if_splits)

lemma handler_inv_reload:
  "triggerReload Z (m, v) = Inr (m', v') \<Longrightarrow> m' = m"
  by (auto simp: triggerReload_def Let_def bind_result_Inr_iff split: prod.splits)

lemma handler_inv_wheel:
  "handleMouseWheelY Z dy x (m, v) = Inr (m', v') \<Longrightarrow> m' = m"
  "handleMouseWheelX Z dx (m, v) = Inr (m', v') \<Longrightarrow> m' = m"
  by (auto simp: handleMouseWheelY_def handleMouseWheelX_def Let_def bind_result_Inr_iff split: prod.splits)

lemma handler_inv_scrolled:
  "scrolled (handleMouseWheelY Z dy x (m, v)) = Inr (m', v') \<Longrightarrow> handler_inv m \<Longrightarrow> handler_inv m'"
  "scrolled (handleMouseWheelX Z dx (m, v)) = Inr (m', v') \<Longrightarrow> handler_inv m \<Longrightarrow> handler_inv m'"
  by (auto simp: scrolled_def bind_result_Inr_iff dest!: handler_inv_wheel intro: handler_inv_continueScrolling)

lemma handler_inv_touchMove:
  assumes "handleTouchMove Z xs (m, v) = Inr (m', v')" "handler_inv m"
  shows "handler_inv m'"
proof -
  have drag: "handler_inv m1" if "handleTouchDrag Z xs (m, v) = Inr (m1, v1)" for m1 v1
    using that
    by (auto simp: handleTouchDrag_def Let_def bind_result_Inr_iff split: option.splits prod.splits
        intro: handler_inv_continueScrolling handler_inv_drag [OF _ assms(2)])
  have pinch: "handler_inv m2" if "handlePinch Z xs (m1, v1) = Inr (m2, v2)" "handler_inv m1" for m1 v1 m2 v2
    using that handler_inv_continueScrolling
    by (auto simp: handlePinch_def Let_def bind_result_Inr_iff split: option.splits)
  obtain m1 v1 where "(if isDragging m then handleTouchDrag Z xs (m, v) else Inr (m, v)) = Inr (m1, v1)"
    "(if isPinching m1 then handlePinch Z xs (m1, v1) else Inr (m1, v1)) = Inr (m', v')"
    using assms(1) by (auto simp: handleTouchMove_def bind_result_Inr_iff)
  with assms(2) show ?thesis by (auto split: if_splits dest: drag pinch)
qed

lemma handler_inv_wheel_event:
  assumes "handleMouseWheel Z dx dy x (m, v) = Inr (m', v')" "handler_inv m"
  shows "handler_inv m'"
proof -
  obtain m1 v1 where
    "(if dy \<noteq> 0 then scrolled (handleMouseWheelY Z dy x (m, v)) else Inr (m, v)) = Inr (m1, v1)"
    "(if dx \<noteq> 0 then scrolled (handleMouseWheelX Z (Num dx) (m1, v1)) else Inr (m1, v1)) = Inr (m', v')"
    using assms(1) by (auto simp: handleMouseWheel_def bind_result_Inr_iff)
  with assms(2) show ?thesis by (auto split: if_splits dest: handler_inv_scrolled)
qed

lemma handler_inv_dispatch:
  assumes "dispatch Z e (m, v) = Inr (m', v')" "handler_inv m"
  shows "handler_inv m'"
proof (cases e)
  case (MouseMove x)
  then show ?thesis using assms handler_inv_drag [OF _ assms(2)]
    by (auto simp: handleMouseMove_def split: prod.splits)
next
  case MouseUp
  then show ?thesis using assms
    by (auto simp: handleMouseUp_def Let_def split: if_splits dest: handler_inv_reload)
next
  case (TouchStart xs)
  then show ?thesis using assms
    by (auto simp: handleTouchStart_def handleTouchDragStart_def handlePinchStart_def handler_inv_def Let_def
        split: if_splits prod.splits)
next
  case (TimerFires t)
  then have "m' = m \<or> m' = m\<lparr>timers := removeAll t (timers m)\<rparr>"
    using assms(1) by (auto split: if_splits dest: handler_inv_reload)
  then show ?thesis using assms(2) by (fastforce simp: handler_inv_def)
next
  case (TouchMove xs)
  then show ?thesis using assms handler_inv_touchMove by simp
next
  case (Wheel dx dy x)
  then show ?thesis using assms handler_inv_wheel_event by simp
qed (use assms in \<open>auto simp: handleMouseDown_def handleTouchEnd_def handler_inv_def split: prod.splits\<close>)

lemma handler_inv_dispatch_all:
  "dispatch_all Z es (m, v) = Inr (m', v') \<Longrightarrow> handler_inv m \<Longrightarrow> handler_inv m'"
proof (induction es arbitrary: m v)
  case (Cons e es)
  then show ?case by (auto simp: bind_result_Inr_iff dest: handler_inv_dispatch)
qed simp

subsection \<open>The loops of the wheel\<close>

lemma zoom_out_power: "zoom_out d i (Num x) = Num (x * (1001 / 1000) ^ nat \<lceil>d - of_nat i\<rceil>)"
proof (induction d i "Num x" arbitrary: x rule: zoom_out.induct)
  case (1 d i)
  show ?case
  proof (cases "of_nat i < d")
    case True
    then have "nat \<lceil>d - of_nat i\<rceil> = Suc (nat \<lceil>d - of_nat (i + 1)\<rceil>)" by simp linarith
    then show ?thesis using 1 [of "x * (1001 / 1000)"] True by (simp add: zoom_out.simps [of d i])
  next
    case False
    then show ?thesis by (simp add: zoom_out.simps [of d i])
  qed
qed

lemma zoom_in_power: "zoom_in d i (Num x) = Num (x / (1001 / 1000) ^ nat \<lceil>- d - of_nat i\<rceil>)"
proof (induction d i "Num x" arbitrary: x rule: zoom_in.induct)
  case (1 d i)
  show ?case
  proof (cases "of_nat i < - d")
    case True
    then have "nat \<lceil>- d - of_nat i\<rceil> = Suc (nat \<lceil>- d - of_nat (i + 1)\<rceil>)" by simp linarith
    then show ?thesis using 1 [of "x / (1001 / 1000)"] True by (simp add: zoom_in.simps [of d i])
  next
    case False
    then show ?thesis by (simp add: zoom_in.simps [of d i])
  qed
qed

definition zoom_factor :: "rat \<Rightarrow> rat" where
  "zoom_factor deltaY = (if deltaY > 0 then (1001 / 1000) ^ nat \<lceil>deltaY\<rceil> else (1000 / 1001) ^ nat \<lceil>- deltaY\<rceil>)"

lemma zoom_factor_pos: "0 < zoom_factor d"
  by (simp add: zoom_factor_def)

lemma zoom_loops:
  "(if d > 0 then zoom_out d 0 (Num x) else zoom_in d 0 (Num x)) = Num (x * zoom_factor d)"
  by (simp add: zoom_out_power zoom_in_power zoom_factor_def power_divide)

subsection \<open>What the handler relies on\<close>

text \<open>The time that an axis shows at a pixel.\<close>

definition time_at :: "rat \<Rightarrow> rat \<Rightarrow> rat \<Rightarrow> rat \<Rightarrow> rat \<Rightarrow> rat" where
  "time_at s e l r x = s + (x - l) * ((e - s) / (r - l))"

definition shows_at ::
    "'v zoom_handler \<Rightarrow> ('v \<Rightarrow> bool) \<Rightarrow> 'v \<Rightarrow> rat \<Rightarrow> rat \<Rightarrow> rat \<Rightarrow> rat \<Rightarrow> bool" where
  \<comment> \<open>a view in good order shows the times from \<open>s\<close> to \<open>e\<close> between the pixels \<open>l\<close> and \<open>r\<close>\<close>
  "shows_at Z ok v s e l r \<longleftrightarrow> ok v \<and> getAxisStatus Z v = (Num s, Num e, Num l, Num r)"

locale zoom_view =
  fixes Z :: "'v zoom_handler" and ok :: "'v \<Rightarrow> bool"
  assumes temporary: "ok v \<Longrightarrow> getAxisStatus Z v = (s0, e0, l, r) \<Longrightarrow>
      \<exists>v'. temporaryTimeShift Z s e v = Inr v' \<and> ok v' \<and> getAxisStatus Z v' = (s, e, l, r)"
    and permanent: "ok v \<Longrightarrow> getAxisStatus Z v = (s, e, l, r) \<Longrightarrow>
      \<exists>v'. permanentTimeShift Z s e v = Inr v' \<and> ok v' \<and> getAxisStatus Z v' = (s, e, l, r)"
begin

lemma shift_at:
  assumes "shows_at Z ok v s0 e0 l r"
  obtains v' where "temporaryTimeShift Z (Num s) (Num e) v = Inr v'" "shows_at Z ok v' s e l r"
  using assms temporary [of v "Num s0" "Num e0" "Num l" "Num r" "Num s" "Num e"] unfolding shows_at_def by blast

lemma reload_at:
  assumes "shows_at Z ok v s e l r"
  obtains v' where "triggerReload Z (m, v) = Inr (m, v')" "shows_at Z ok v' s e l r"
  using assms permanent [of v "Num s" "Num e" "Num l" "Num r"] unfolding shows_at_def triggerReload_def by auto

lemma wheelY_at:
  assumes v: "shows_at Z ok v s e l r" and px: "l < r"
  obtains v' s' e' where "handleMouseWheelY Z d (Num x) (m, v) = Inr (m, v')" "shows_at Z ok v' s' e' l r"
    "e' - s' = (e - s) * zoom_factor d" "time_at s' e' l r x = time_at s e l r x"
proof -
  define k where "k = (e - s) / (r - l)"
  define s' where "s' = (x - l) * k + s - k * zoom_factor d * (x - l)"
  define e' where "e' = (x - l) * k + s + k * zoom_factor d * (r - x)"
  have tpp: "(Num e - Num s) / (Num r - Num l) = Num k" using px by (simp add: k_def)
  obtain v' where v': "temporaryTimeShift Z (Num s') (Num e') v = Inr v'" "shows_at Z ok v' s' e' l r"
    by (rule shift_at [OF v])
  have "handleMouseWheelY Z d (Num x) (m, v) =
      bind_result (temporaryTimeShift Z (Num s') (Num e') v) (\<lambda>v'. Inr (m, v'))"
    using v unfolding shows_at_def handleMouseWheelY_def
    by (simp only: Let_def case_prod_conv tpp zoom_loops) (simp add: s'_def e'_def)
  then have run: "handleMouseWheelY Z d (Num x) (m, v) = Inr (m, v')" using v' by simp
  have dur: "e' - s' = k * (r - l) * zoom_factor d" by (simp add: s'_def e'_def algebra_simps)
  have "(e' - s') / (r - l) = k * zoom_factor d" using px unfolding dur by simp
  then have "time_at s' e' l r x = time_at s e l r x"
    by (simp add: time_at_def k_def [symmetric] s'_def algebra_simps)
  moreover have "e' - s' = (e - s) * zoom_factor d" using px unfolding dur by (simp add: k_def)
  ultimately show thesis using that run v' by blast
qed

lemma wheelX_at:
  assumes v: "shows_at Z ok v s e l r"
  obtains v' where "handleMouseWheelX Z (Num d) (m, v) = Inr (m, v')"
    "shows_at Z ok v' (s + (e - s) * (d / 1000)) (e + (e - s) * (d / 1000)) l r"
proof -
  obtain v' where "temporaryTimeShift Z (Num (s + (e - s) * (d / 1000))) (Num (e + (e - s) * (d / 1000))) v = Inr v'"
    "shows_at Z ok v' (s + (e - s) * (d / 1000)) (e + (e - s) * (d / 1000)) l r"
    by (rule shift_at [OF v])
  with v show thesis by (intro that [of v']) (simp_all add: shows_at_def handleMouseWheelX_def)
qed

lemma wheel_at:
  assumes v: "shows_at Z ok v s e l r" and px: "l < r" and d: "d \<noteq> 0"
  obtains v' s' e' where "dispatch Z (Wheel 0 d x) (m, v) = Inr (continueScrolling m, v')" "shows_at Z ok v' s' e' l r"
    "e' - s' = (e - s) * zoom_factor d" "time_at s' e' l r x = time_at s e l r x"
proof (rule wheelY_at [OF v px, of d x m])
  fix v' s' e' assume "handleMouseWheelY Z d (Num x) (m, v) = Inr (m, v')" "shows_at Z ok v' s' e' l r"
    "e' - s' = (e - s) * zoom_factor d" "time_at s' e' l r x = time_at s e l r x"
  with d show thesis by (intro that [of v' s' e']) (simp_all add: handleMouseWheel_def scrolled_def)
qed

lemma move_at:
  assumes v: "shows_at Z ok v (s - (y - x0) * k) (e - (y - x0) * k) l r" and k: "k = (e - s) / (r - l)"
    and m: "isDragging m" "dragStartMouseX m = Num x0" "dragStartStartTime m = Num s" "dragStartEndTime m = Num e"
    and px: "l < r"
  obtains m' v' where "dispatch Z (MouseMove x) (m, v) = Inr (m', v')"
    "shows_at Z ok v' (s - (x - x0) * k) (e - (x - x0) * k) l r"
    "isDragging m'" "dragStartMouseX m' = Num x0" "dragStartStartTime m' = Num s" "dragStartEndTime m' = Num e"
proof -
  define m' where "m' = (if Num x - Num x0 > Num (1 / 100) \<or> Num x - Num x0 < Num (- 1 / 100)
    then m\<lparr>dragMoved := True\<rparr> else m)"
  have tpp: "(Num (e - (y - x0) * k) - Num (s - (y - x0) * k)) / (Num r - Num l) = Num k"
    using px by (simp add: k)
  have ax: "getAxisStatus Z v = (Num (s - (y - x0) * k), Num (e - (y - x0) * k), Num l, Num r)"
    using v by (simp add: shows_at_def)
  obtain v' where v': "temporaryTimeShift Z (Num (s - (x - x0) * k)) (Num (e - (x - x0) * k)) v = Inr v'"
    "shows_at Z ok v' (s - (x - x0) * k) (e - (x - x0) * k) l r"
    by (rule shift_at [OF v])
  have shift: "Num s - Num k * (Num x - Num x0) = Num (s - (x - x0) * k)"
    "Num e - Num k * (Num x - Num x0) = Num (e - (x - x0) * k)" by (simp_all add: mult.commute)
  have "dispatch Z (MouseMove x) (m, v) = Inr (m', v')"
    unfolding dispatch.simps handleMouseMove_def handleMouseDrag_def snd_conv ax
    by (simp only: case_prod_conv Let_def tpp m shift not_True_eq_False if_False v'(1) bind_result_simps m'_def)
  then show thesis by (rule that) (use v' m in \<open>simp_all add: m'_def\<close>)
qed

lemma drag_at:
  assumes "l < r" "k = (e - s) / (r - l)"
    and "shows_at Z ok v (s - (y - x0) * k) (e - (y - x0) * k) l r"
    and "isDragging m" "dragStartMouseX m = Num x0" "dragStartStartTime m = Num s" "dragStartEndTime m = Num e"
  shows "\<exists>m' v'. dispatch_all Z (map MouseMove xs @ [MouseMove x]) (m, v) = Inr (m', v') \<and>
    shows_at Z ok v' (s - (x - x0) * k) (e - (x - x0) * k) l r"
  using assms
proof (induction xs arbitrary: m v y)
  case Nil
  then show ?case
    using move_at [of v s y x0 k e l r m x] by (metis append_Nil bind_result_simps(2) dispatch_all.simps list.simps(8))
next
  case (Cons z zs)
  obtain m' v' where "dispatch Z (MouseMove z) (m, v) = Inr (m', v')"
    "shows_at Z ok v' (s - (z - x0) * k) (e - (z - x0) * k) l r"
    "isDragging m'" "dragStartMouseX m' = Num x0" "dragStartStartTime m' = Num s" "dragStartEndTime m' = Num e"
    using move_at [OF Cons.prems(3,2,4-7,1), of z] by metis
  with Cons.IH [of v' z m'] Cons.prems(1,2) show ?case by simp
qed

lemma down_drag_at:
  assumes v: "shows_at Z ok v s e l r" and px: "l < r"
  shows "\<exists>m' v'. dispatch_all Z (MouseDown x0 # map MouseMove xs @ [MouseMove x]) (m, v) = Inr (m', v') \<and>
    shows_at Z ok v' (s - (x - x0) * ((e - s) / (r - l))) (e - (x - x0) * ((e - s) / (r - l))) l r"
proof -
  have ax: "getAxisStatus Z v = (Num s, Num e, Num l, Num r)" using v by (simp add: shows_at_def)
  let ?m = "m\<lparr>isDragging := True, dragMoved := False, dragStartMouseX := Num x0,
    dragStartStartTime := Num s, dragStartEndTime := Num e\<rparr>"
  have "dispatch Z (MouseDown x0) (m, v) = Inr (?m, v)" by (simp add: handleMouseDown_def ax)
  then show ?thesis using drag_at [OF px refl, of v s x0 x0 e ?m xs x] v by simp
qed

lemma pinch_at:
  assumes v: "shows_at Z ok v s e l r" and m: "pinchStartTouches m = [Num p0, Num p1]"
      "dragStartStartTime m = Num s0" "dragStartEndTime m = Num e0" "isPinching m" "\<not> isDragging m"
    and d: "a \<noteq> b"
  obtains v' s' e' where "dispatch Z (TouchMove [a, b]) (m, v) = Inr (continueScrolling m, v')"
    "shows_at Z ok v' s' e' l r" "e' - s' = (e0 - s0) * (\<bar>p1 - p0\<bar> / \<bar>b - a\<bar>)" "s' + e' = s0 + e0"
proof -
  define q where "q = (e0 - s0) * (\<bar>p1 - p0\<bar> / \<bar>b - a\<bar>)"
  obtain v' where v': "temporaryTimeShift Z (Num ((s0 + e0) / 2 - q / 2)) (Num ((s0 + e0) / 2 + q / 2)) v = Inr v'"
    "shows_at Z ok v' ((s0 + e0) / 2 - q / 2) ((s0 + e0) / 2 + q / 2) l r"
    by (rule shift_at [OF v])
  have "dispatch Z (TouchMove [a, b]) (m, v) = Inr (continueScrolling m, v')"
    using d m v'(1) by (simp add: handleTouchMove_def handlePinch_def js_nth_def js_num_simps q_def)
  moreover have "((s0 + e0) / 2 + q / 2) - ((s0 + e0) / 2 - q / 2) = q"
    "((s0 + e0) / 2 - q / 2) + ((s0 + e0) / 2 + q / 2) = s0 + e0" by (simp_all add: field_simps)
  ultimately show thesis using v'(2) by (intro that) (assumption | simp only: q_def)+
qed

end

subsection \<open>Runs\<close>

text \<open>
  A touch that moves belongs to a gesture that is under way, so the browser reports the touches
  of that gesture.
\<close>

fun enabled :: "mouse_handler \<Rightarrow> mouse_event \<Rightarrow> bool" where
  "enabled m (TouchMove xs) = ((isDragging m \<longrightarrow> 1 \<le> length xs) \<and> (isPinching m \<longrightarrow> 2 \<le> length xs))"
| "enabled m _ = True"

inductive mouse_run :: "'v zoom_handler \<Rightarrow> 'v mouse_state \<Rightarrow> 'v mouse_state \<Rightarrow> bool" for Z where
  run_start: "mouse_run Z s s"
| run_event: "mouse_run Z s (m, v) \<Longrightarrow> enabled m e \<Longrightarrow> dispatch Z e (m, v) = Inr s' \<Longrightarrow> mouse_run Z s s'"

lemma js_nth_less: "i < length xs \<Longrightarrow> \<exists>x. js_nth xs i = Some x"
  by (simp add: js_nth_def)

context zoom_view
begin

lemma temporary_ok:
  assumes "ok v"
  shows "\<exists>T. (\<forall>s e. temporaryTimeShift Z s e v = Inr (T s e)) \<and> (\<forall>s e. ok (T s e))"
proof -
  obtain s0 e0 l r where "getAxisStatus Z v = (s0, e0, l, r)" by (metis prod_cases4)
  then have "\<forall>s e. \<exists>v'. temporaryTimeShift Z s e v = Inr v' \<and> ok v'" using temporary [OF assms] by blast
  then show ?thesis by metis
qed

lemma reload_ok:
  assumes "ok v"
  shows "\<exists>v'. triggerReload Z (m, v) = Inr (m, v') \<and> ok v'"
proof -
  obtain s e l r where "getAxisStatus Z v = (s, e, l, r)" by (metis prod_cases4)
  then show ?thesis using permanent [OF assms] by (force simp: triggerReload_def)
qed

lemma drag_ok:
  assumes "ok v"
  shows "\<exists>m' v'. handleMouseDrag Z a b c d x (m, v) = Inr (m', v') \<and> ok v' \<and>
    isPinching m' = isPinching m \<and> pinchStartTouches m' = pinchStartTouches m"
proof -
  obtain T where "\<And>s e. temporaryTimeShift Z s e v = Inr (T s e)" "\<And>s e. ok (T s e)"
    using temporary_ok [OF assms] by blast
  then show ?thesis using assms by (simp add: handleMouseDrag_def Let_def)
qed

lemma touchDrag_ok:
  assumes "ok v" "1 \<le> length xs"
  shows "\<exists>m' v'. handleTouchDrag Z xs (m, v) = Inr (m', v') \<and> ok v' \<and>
    isPinching m' = isPinching m \<and> pinchStartTouches m' = pinchStartTouches m"
proof -
  obtain x where x: "js_nth xs 0 = Some x" using js_nth_less [of 0 xs] assms(2) by fastforce
  obtain s e l r where ax: "getAxisStatus Z v = (s, e, l, r)" by (metis prod_cases4)
  show ?thesis
    using drag_ok [OF assms(1), of s e l r x m]
    by (auto simp: handleTouchDrag_def x ax continueScrolling_def Let_def)
qed

lemma pinch_ok:
  assumes "ok v" "length (pinchStartTouches m) = 2" "2 \<le> length xs"
  shows "\<exists>m' v'. handlePinch Z xs (m, v) = Inr (m', v') \<and> ok v'"
proof -
  obtain p0 p1 t0 t1 where "js_nth (pinchStartTouches m) 0 = Some p0" "js_nth (pinchStartTouches m) 1 = Some p1"
    "js_nth xs 0 = Some t0" "js_nth xs 1 = Some t1"
    using assms(2,3) by (fastforce simp: js_nth_def)
  moreover obtain T where "\<And>s e. temporaryTimeShift Z s e v = Inr (T s e)" "\<And>s e. ok (T s e)"
    using temporary_ok [OF assms(1)] by blast
  ultimately show ?thesis by (simp add: handlePinch_def Let_def)
qed

lemma touchMove_ok:
  assumes "ok v" "handler_inv m" "enabled m (TouchMove xs)"
  shows "\<exists>m' v'. handleTouchMove Z (map Num xs) (m, v) = Inr (m', v') \<and> ok v'"
proof -
  obtain m1 v1 where drag: "(if isDragging m then handleTouchDrag Z (map Num xs) (m, v) else Inr (m, v)) = Inr (m1, v1)"
    "ok v1" "isPinching m1 = isPinching m" "pinchStartTouches m1 = pinchStartTouches m"
  proof (cases "isDragging m")
    case True
    then show thesis using touchDrag_ok [OF assms(1), of "map Num xs" m] assms(3) that by auto
  qed (use assms(1) that in simp)
  have "\<exists>m' v'. (if isPinching m1 then handlePinch Z (map Num xs) (m1, v1) else Inr (m1, v1)) = Inr (m', v') \<and> ok v'"
    using pinch_ok [OF drag(2), of m1 "map Num xs"] drag assms(2,3) by (auto simp: handler_inv_def)
  then show ?thesis using drag(1) by (simp add: handleTouchMove_def)
qed

lemma wheel_ok:
  assumes "ok v"
  shows "\<exists>m' v'. handleMouseWheel Z dx dy x (m, v) = Inr (m', v') \<and> ok v'"
proof -
  have y: "\<exists>m' v'. scrolled (handleMouseWheelY Z dy x (m, v)) = Inr (m', v') \<and> ok v'" if "ok v" for m v
  proof -
    obtain T where "\<And>s e. temporaryTimeShift Z s e v = Inr (T s e)" "\<And>s e. ok (T s e)"
      using temporary_ok [OF \<open>ok v\<close>] by blast
    then show ?thesis by (simp add: scrolled_def handleMouseWheelY_def Let_def split: prod.split)
  qed
  have x: "\<exists>m' v'. scrolled (handleMouseWheelX Z (Num dx) (m, v)) = Inr (m', v') \<and> ok v'" if "ok v" for m v
  proof -
    obtain T where "\<And>s e. temporaryTimeShift Z s e v = Inr (T s e)" "\<And>s e. ok (T s e)"
      using temporary_ok [OF \<open>ok v\<close>] by blast
    then show ?thesis by (simp add: scrolled_def handleMouseWheelX_def Let_def split: prod.split)
  qed
  obtain m1 v1 where "(if dy \<noteq> 0 then scrolled (handleMouseWheelY Z dy x (m, v)) else Inr (m, v)) = Inr (m1, v1)" "ok v1"
    using y [OF assms, of m] assms by (cases "dy = 0") auto
  then show ?thesis using x [of v1 m1] unfolding handleMouseWheel_def by auto
qed

lemma dispatch_ok:
  assumes "ok v" "handler_inv m" "enabled m e"
  shows "\<exists>m' v'. dispatch Z e (m, v) = Inr (m', v') \<and> ok v'"
proof (cases e)
  case (MouseMove x)
  then show ?thesis using drag_ok [OF assms(1)] by (fastforce simp: handleMouseMove_def split: prod.splits)
next
  case MouseUp
  then show ?thesis using reload_ok [OF assms(1)] assms(1) by (fastforce simp: handleMouseUp_def Let_def)
next
  case (TouchMove xs)
  then show ?thesis using touchMove_ok assms by simp
next
  case (TouchStart xs)
  then show ?thesis using assms(1)
    by (auto simp: handleTouchStart_def handleTouchDragStart_def handlePinchStart_def Let_def split: prod.splits)
next
  case (Wheel dx dy x)
  then show ?thesis using wheel_ok [OF assms(1)] by simp
next
  case (TimerFires t)
  then show ?thesis using reload_ok [OF assms(1)] assms(1) by fastforce
qed (use assms(1) in \<open>auto simp: handleMouseDown_def handleTouchEnd_def split: prod.splits\<close>)

lemma run_inv:
  "mouse_run Z s s' \<Longrightarrow> ok (snd s) \<Longrightarrow> handler_inv (fst s) \<Longrightarrow> ok (snd s') \<and> handler_inv (fst s')"
proof (induction rule: mouse_run.induct)
  case (run_event s m v e s')
  then obtain m' v' where "s' = (m', v')" "ok v'"
    using dispatch_ok [of v m e] by fastforce
  then show ?case using run_event handler_inv_dispatch [of Z e m v m' v'] by auto
qed simp

end

end
