(* ===== verification/Smart_Value.thy ===== *)
theory Smart_Value
  imports Js_Collections
begin

text \<open>
  \<open>daisen/static/src/smartvalue.ts\<close>: a number as text with a metric suffix.
  \<open>toFixed\<close> and \<open>toExponential\<close> follow the language definition; what \<open>toFixed\<close> prints
  for numbers of more than 21 digits is the default conversion of numbers to text, which is an
  argument here.  Strings are sequences of UTF-8 bytes.
\<close>

subsection \<open>Decimal digits\<close>

fun digits :: "nat \<Rightarrow> string" where
  "digits n = (if n < 10 then [char_of (48 + n)] else digits (n div 10) @ [char_of (48 + n mod 10)])"

declare digits.simps [simp del]

definition digit_val :: "char \<Rightarrow> nat" where
  "digit_val c = of_char c - 48"

definition nat_of_digits :: "string \<Rightarrow> nat" where
  "nat_of_digits s = foldl (\<lambda>n c. 10 * n + digit_val c) 0 s"

lemma digit_val_char_of: "d < 10 \<Longrightarrow> digit_val (char_of (48 + d)) = d"
  by (simp add: digit_val_def)

lemma nat_of_digits_digits [simp]: "nat_of_digits (digits n) = n"
proof (induction n rule: digits.induct)
  case (1 n)
  show ?case
  proof (cases "n < 10")
    case True
    then show ?thesis by (simp add: digits.simps [of n] nat_of_digits_def digit_val_char_of)
  next
    case False
    then have "nat_of_digits (digits (n div 10)) = n div 10" using 1 by simp
    with False show ?thesis
      by (simp add: digits.simps [of n] nat_of_digits_def digit_val_char_of)
  qed
qed

lemma nat_of_digits_zeros: "nat_of_digits (replicate k (CHR ''0'') @ s) = nat_of_digits s"
  by (induction k) (simp_all add: nat_of_digits_def digit_val_def)

subsection \<open>\<open>Number.prototype.toFixed(2)\<close>\<close>

definition pad_left :: "nat \<Rightarrow> string \<Rightarrow> string" where
  "pad_left k s = replicate (k - length s) (CHR ''0'') @ s"

definition fixed2_text :: "nat \<Rightarrow> string" where
  \<comment> \<open>the text of \<open>n / 100\<close>\<close>
  "fixed2_text n =
     (let m = pad_left 3 (digits n)
      in take (length m - 2) m @ ''.'' @ drop (length m - 2) m)"

definition toFixed2 :: "(js_num \<Rightarrow> string) \<Rightarrow> js_num \<Rightarrow> string" where
  \<comment> \<open>the nearest hundredth, the larger one when two are equally near\<close>
  "toFixed2 toString x =
     (case x of
        Num a \<Rightarrow>
          if \<bar>a\<bar> \<ge> 10 ^ 21 then toString x
          else (if a < 0 then ''-'' else []) @ fixed2_text (nat \<lfloor>\<bar>a\<bar> * 100 + 1 / 2\<rfloor>)
      | PInf \<Rightarrow> ''Infinity''
      | NInf \<Rightarrow> ''-Infinity''
      | _ \<Rightarrow> ''NaN'')"

subsection \<open>\<open>Number.prototype.toExponential(10)\<close>\<close>

function exponent_up :: "rat \<Rightarrow> nat" where
  "exponent_up a = (if a < 10 then 0 else Suc (exponent_up (a / 10)))"
  by pat_completeness auto
termination
proof (relation "measure (\<lambda>a. nat \<lfloor>a\<rfloor>)")
  fix a :: rat assume "\<not> a < 10"
  then have "\<lfloor>a / 10\<rfloor> < \<lfloor>a\<rfloor>" "0 < \<lfloor>a\<rfloor>" by linarith+
  then have "nat \<lfloor>a / 10\<rfloor> < nat \<lfloor>a\<rfloor>" by (simp only: nat_mono_iff)
  then show "(a / 10, a) \<in> measure (\<lambda>a. nat \<lfloor>a\<rfloor>)" by (simp only: in_measure)
qed simp

function exponent_down :: "rat \<Rightarrow> nat" where
  "exponent_down a = (if a \<le> 0 \<or> 1 \<le> a then 0 else Suc (exponent_down (a * 10)))"
  by pat_completeness auto
termination
proof (relation "measure (\<lambda>a. nat \<lfloor>1 / a\<rfloor>)")
  fix a :: rat assume a: "\<not> (a \<le> 0 \<or> 1 \<le> a)"
  define b where "b = 1 / a"
  have b: "1 \<le> b" "1 / (a * 10) = b / 10" using a by (simp_all add: b_def)
  have pos: "1 \<le> \<lfloor>b\<rfloor>" using b(1) by (simp add: le_floor_iff)
  then have "b / 10 < of_int \<lfloor>b\<rfloor>" using floor_correct [of b] by linarith
  then have "\<lfloor>b / 10\<rfloor> < \<lfloor>b\<rfloor>" "0 < \<lfloor>b\<rfloor>" using pos by (simp_all add: floor_less_iff)
  with b(2) have "nat \<lfloor>1 / (a * 10)\<rfloor> < nat \<lfloor>1 / a\<rfloor>" by (simp only: nat_mono_iff b_def [symmetric])
  then show "(a * 10, a) \<in> measure (\<lambda>a. nat \<lfloor>1 / a\<rfloor>)" by (simp only: in_measure)
qed simp

declare exponent_up.simps [simp del] exponent_down.simps [simp del]

definition exponent10 :: "rat \<Rightarrow> int" where
  \<comment> \<open>the exponent of a positive number written with one digit before the point\<close>
  "exponent10 a = (if a < 1 then - int (exponent_down a) else int (exponent_up a))"

definition exponential_text :: "nat \<Rightarrow> int \<Rightarrow> string" where
  "exponential_text n e =
     (let m = digits n
      in take 1 m @ ''.'' @ drop 1 m @ ''e'' @ (if e < 0 then ''-'' else ''+'') @ digits (nat \<bar>e\<bar>))"

definition toExponential10 :: "js_num \<Rightarrow> string" where
  "toExponential10 x =
     (case x of
        Num a \<Rightarrow>
          if a = 0 then ''0.0000000000e+0''
          else
            let e = exponent10 \<bar>a\<bar>;
                n = nat \<lfloor>\<bar>a\<bar> / 10 powi (e - 10) + 1 / 2\<rfloor>
            in (if a < 0 then ''-'' else []) @
               (if n = 10 ^ 11 then exponential_text (10 ^ 10) (e + 1) else exponential_text n e)
      | PInf \<Rightarrow> ''Infinity''
      | NInf \<Rightarrow> ''-Infinity''
      | _ \<Rightarrow> ''NaN'')"

subsection \<open>The tiers\<close>

record tier =
  tier_val :: rat
  tier_letter :: string

definition allTiers :: "tier list" where
  "allTiers =
     [ \<lparr> tier_val = 10 ^ 12, tier_letter = ''T'' \<rparr>, \<lparr> tier_val = 10 ^ 9, tier_letter = ''G'' \<rparr>,
       \<lparr> tier_val = 10 ^ 6, tier_letter = ''M'' \<rparr>, \<lparr> tier_val = 10 ^ 3, tier_letter = ''K'' \<rparr>,
       \<lparr> tier_val = 1, tier_letter = [] \<rparr>, \<lparr> tier_val = 1 / 10 ^ 3, tier_letter = ''m'' \<rparr>,
       \<lparr> tier_val = 1 / 10 ^ 6, tier_letter = [char_of (206 :: nat), char_of (188 :: nat)] \<rparr>,
       \<lparr> tier_val = 1 / 10 ^ 9, tier_letter = ''n'' \<rparr>, \<lparr> tier_val = 1 / 10 ^ 12, tier_letter = ''p'' \<rparr> ]"

fun first_tier :: "js_num \<Rightarrow> tier list \<Rightarrow> tier option" where
  \<comment> \<open>the loop, up to the return\<close>
  "first_tier v [] = None"
| "first_tier v (t # ts) = (if v > Num (tier_val t) then Some t else first_tier v ts)"

definition smartString :: "(js_num \<Rightarrow> string) \<Rightarrow> js_num \<Rightarrow> string" where
  "smartString toString v =
     (case first_tier v allTiers of
        Some t \<Rightarrow> toFixed2 toString (v / Num (tier_val t)) @ tier_letter t
      | None \<Rightarrow> if v = Undef then ''undefined'' else toExponential10 v)"

subsection \<open>The choice of the tier\<close>

lemma first_tier_None: "first_tier (Num a) allTiers = None \<longleftrightarrow> a \<le> 1 / 10 ^ 12"
  by (auto simp: allTiers_def split: if_splits)

lemma first_tier_Some:
  assumes "first_tier (Num a) allTiers = Some t"
  shows "t \<in> set allTiers" "tier_val t < a" "a \<le> tier_val t * 1000 \<or> tier_val t = 10 ^ 12"
  using assms by (auto simp: allTiers_def split: if_splits)

definition fixed2_val :: "string \<Rightarrow> rat" where
  \<comment> \<open>the number a text with two decimals stands for\<close>
  "fixed2_val s = of_nat (nat_of_digits (filter (\<lambda>c. c \<noteq> CHR ''.'') s)) / 100"

lemma digits_no_point: "CHR ''.'' \<notin> set (digits n)"
proof (induction n rule: digits.induct)
  case (1 n)
  have "CHR ''.'' \<noteq> char_of (48 + d)" if "d < 10" for d :: nat
  proof
    assume eq: "CHR ''.'' = char_of (48 + d)"
    have "of_char (CHR ''.'') = (46 :: nat)" "of_char (char_of (48 + d) :: char) = 48 + d" using that by simp_all
    with eq show False by simp
  qed
  with 1 show ?case by (auto simp: digits.simps [of n])
qed

lemma fixed2_val_text: "fixed2_val (fixed2_text n) = of_nat n / 100"
proof -
  define m where "m = pad_left 3 (digits n)"
  have "CHR ''.'' \<notin> set m" using digits_no_point by (auto simp: m_def pad_left_def)
  then have "\<forall>c \<in> set (take k m). c \<noteq> CHR ''.''" "\<forall>c \<in> set (drop k m). c \<noteq> CHR ''.''" for k
    by (auto dest: in_set_takeD in_set_dropD)
  then have "filter (\<lambda>c. c \<noteq> CHR ''.'') (take k m @ ''.'' @ drop k m) = take k m @ drop k m" for k
    by (simp only: filter_append filter_True) simp
  then show ?thesis
    by (simp add: fixed2_val_def fixed2_text_def m_def [symmetric] Let_def)
      (simp add: m_def pad_left_def nat_of_digits_zeros)
qed

subsection \<open>Properties\<close>

text \<open>
  A number above \<open>1e-12\<close> and up to \<open>1e15\<close> is printed with the largest metric suffix
  below it: the printed mantissa has two decimals, lies between one and a thousand and is within
  half a hundredth of the number divided by the value of the suffix.
\<close>

theorem smartString_mantissa:
  assumes "1 / 10 ^ 12 < a" "a \<le> 10 ^ 15"
  shows "\<exists>t s. t \<in> set allTiers \<and> tier_val t < a \<and> a \<le> tier_val t * 1000 \<and>
    smartString toString (Num a) = s @ tier_letter t \<and>
    \<bar>fixed2_val s - a / tier_val t\<bar> \<le> 1 / 200 \<and> 1 \<le> fixed2_val s \<and> fixed2_val s \<le> 1000"
proof -
  obtain t where t: "first_tier (Num a) allTiers = Some t"
    using assms(1) first_tier_None [of a] by (cases "first_tier (Num a) allTiers") auto
  note tier = first_tier_Some [OF t]
  have pos: "0 < tier_val t" using tier(1) by (auto simp: allTiers_def)
  have up: "a \<le> tier_val t * 1000" using tier(3) assms(2) by auto
  define q where "q = a / tier_val t"
  have q: "1 < q" "q \<le> 1000" using pos tier(2) up by (simp_all add: q_def field_simps)
  define n where "n = nat \<lfloor>q * 100 + 1 / 2\<rfloor>"
  have "of_nat n = (of_int \<lfloor>q * 100 + 1 / 2\<rfloor> :: rat)" using q by (simp add: n_def)
  then have n: "of_nat n \<le> q * 100 + 1 / 2" "q * 100 - 1 / 2 < of_nat n" by linarith+
  have "100 \<le> \<lfloor>q * 100 + 1 / 2\<rfloor>" "\<lfloor>q * 100 + 1 / 2\<rfloor> \<le> 100000" using q by linarith+
  then have nb: "100 \<le> n" "n \<le> 100000" unfolding n_def by linarith+
  have "q < 10 ^ 21" using q(2) by simp
  then have "smartString toString (Num a) = fixed2_text n @ tier_letter t"
    using t q(1) pos by (simp add: smartString_def toFixed2_def n_def q_def [symmetric])
  moreover have "\<bar>of_nat n / 100 - q\<bar> \<le> 1 / 200" using n by linarith
  moreover have "1 \<le> of_nat n / (100 :: rat)" "of_nat n / (100 :: rat) \<le> 1000"
    using nb by (simp_all add: field_simps)
  ultimately show ?thesis
    using tier(1,2) up by (intro exI [of _ t] exI [of _ "fixed2_text n"]) (simp add: fixed2_val_text q_def)
qed

theorem smartString_mantissa_witness:
  "\<exists>t s. t \<in> set allTiers \<and> smartString (\<lambda>_. []) (Num 1234) = s @ tier_letter t \<and>
     \<bar>fixed2_val s - 1234 / tier_val t\<bar> \<le> 1 / 200"
  using smartString_mantissa [of 1234 "\<lambda>_. []"] by auto

text \<open>
  The texts of the values that have no suffix: zero, negative numbers, missing values and
  the special numbers.  Exactly one thousand is still printed without suffix.
\<close>

theorem smartString_special:
  "smartString toString (Num 0) = ''0.0000000000e+0'' \<and> smartString toString Undef = ''undefined'' \<and>
   smartString toString NaN = ''NaN'' \<and> smartString toString PInf = ''InfinityT'' \<and>
   smartString toString NInf = ''-Infinity'' \<and> smartString toString (Num 1000) = ''1000.00''"
proof -
  have "\<lfloor>(200001 :: rat) / 2\<rfloor> = 100000" by (rule floor_unique) simp_all
  moreover have "char_of (49 :: nat) = CHR ''1''" "char_of (48 :: nat) = CHR ''0''" by code_simp+
  ultimately show ?thesis
    by (simp add: smartString_def allTiers_def toExponential10_def toFixed2_def fixed2_text_def
      pad_left_def digits.simps Let_def)
qed

end
