(* ===== verification/Task_Page.thy ===== *)
theory Task_Page
  imports Component_Drawing Task_Colors Mouse_Events Smart_Value
begin

text \<open>
  \<open>daisen/static/src/taskpage.ts\<close>: the page that shows one task or one component.  It owns the
  time range, hands it to its two views, implements the interface of the mouse handler and loads
  tasks from the trace server.  A load is asynchronous: its parts between two responses are
  separate definitions, and the requests that are sent are collected in the state.

  The objects of a response are references into the store.  d3 and chroma-js are the arguments
  that \<open>libs\<close> collects.
\<close>

subsection \<open>State\<close>

record libs =
  lib_join :: join
  lib_scale :: scaling
  lib_colors :: palette

datatype request =
    TraceById string
  | TraceByParent string
  | TraceAt string js_num js_num \<comment> \<open>\<open>where\<close>, \<open>starttime\<close>, \<open>endtime\<close>\<close>

record task_page =
  tp_leftColumnWidth :: js_num
  tp_rightColumnWidth :: js_num
  tp_componentOnlyMode :: bool
  tp_componentName :: string
  tp_currTask :: "ref option"
  tp_currParentTask :: "ref option"
  tp_currSubTasks :: "ref list option"
  tp_currSameLocationTasks :: "ref list"
  tp_startTime :: js_num
  tp_endTime :: js_num
  tp_colorMap :: "(string, string) js_map option" \<comment> \<open>\<open>None\<close> before the first \<open>recode\<close>\<close>
  tp_legend :: "legend_row list"
  tp_taskView :: task_view
  tp_componentView :: component_view
  tp_store :: store
  tp_url :: "(string, js_num) js_map" \<comment> \<open>the numbers among the search parameters\<close>
  tp_requests :: "request list"

definition new_task_page :: "store \<Rightarrow> (string, js_num) js_map \<Rightarrow> task_page" where
  "new_task_page h url =
     (let r = new_task_renderer (time_scale Undef Undef Undef)
      in \<lparr> tp_leftColumnWidth = 0, tp_rightColumnWidth = 350, tp_componentOnlyMode = False,
           tp_componentName = [], tp_currTask = None, tp_currParentTask = None, tp_currSubTasks = None,
           tp_currSameLocationTasks = [], tp_startTime = 0, tp_endTime = 0, tp_colorMap = None,
           tp_legend = [], tp_taskView = new_task_view r new_x_axis_drawer,
           tp_componentView = new_component_view r new_x_axis_drawer, tp_store = h, tp_url = url,
           tp_requests = [] \<rparr>)"

definition page_lookup :: "task_page \<Rightarrow> task \<Rightarrow> string js_result" where
  \<comment> \<open>\<open>in\<close> applied to an undefined map raises\<close>
  "page_lookup p t = (case tp_colorMap p of None \<Rightarrow> Inl TypeError | Some m \<Rightarrow> lookup m t)"

subsection \<open>Loading\<close>

definition switchToComponentOnlyMode :: "task_page \<Rightarrow> task_page" where
  "switchToComponentOnlyMode p = p\<lparr>tp_componentOnlyMode := True\<rparr>"

definition switchToTaskMode :: "task_page \<Rightarrow> task_page" where
  "switchToTaskMode p = p\<lparr>tp_componentOnlyMode := False\<rparr>"

definition send :: "request list \<Rightarrow> task_page \<Rightarrow> task_page" where
  "send rs p = p\<lparr>tp_requests := tp_requests p @ rs\<rparr>"

definition showTask :: "string option \<Rightarrow> task_page \<Rightarrow> task_page" where
  \<comment> \<open>up to the first \<open>await\<close>; without a task the promise is rejected when its identifier is read\<close>
  "showTask task p =
     (case task of
        None \<Rightarrow> switchToTaskMode p
      | Some i \<Rightarrow> send [TraceById i, TraceByParent i] (switchToTaskMode p))"

definition showTaskWithId :: "string \<Rightarrow> task_page \<Rightarrow> task_page" where
  "showTaskWithId i p = showTask (Some i) p"

definition showComponent :: "string \<Rightarrow> task_page \<Rightarrow> task_page" where
  \<comment> \<open>up to the first \<open>await\<close>\<close>
  "showComponent name p =
     (let p1 = switchToComponentOnlyMode (p\<lparr>tp_componentName := name\<rparr>)
      in send [TraceAt name (tp_startTime p1) (tp_endTime p1)] p1)"

definition set_views :: "(task_view \<Rightarrow> task_view) \<Rightarrow> (component_view \<Rightarrow> component_view) \<Rightarrow> task_page \<Rightarrow> task_page" where
  "set_views f g p = p\<lparr>tp_taskView := f (tp_taskView p), tp_componentView := g (tp_componentView p)\<rparr>"

definition updateTimeAxisAccordingToTask :: "task \<Rightarrow> task_page \<Rightarrow> task_page" where
  "updateTimeAxisAccordingToTask t p =
     (let duration = end_time t - start_time t;
          s = start_time t - Num (2 / 10) * duration;
          e = end_time t + Num (2 / 10) * duration
      in set_views (tv_setTimeAxis s e) (cv_setTimeAxis s e) (p\<lparr>tp_startTime := s, tp_endTime := e\<rparr>))"

record sizes =
  task_canvas_w :: js_num
  task_canvas_h :: js_num
  component_canvas_w :: js_num
  component_canvas_h :: js_num

datatype parent_object = NoParent | MissingParent | Parent ref

definition showTask_loaded :: "sizes \<Rightarrow> bool \<Rightarrow> ref list \<Rightarrow> task_page \<Rightarrow> task_page js_result" where
  \<comment> \<open>after the first two responses: the time range and the request for the parent or the location\<close>
  "showTask_loaded sz keepView rsp p =
     (case rsp of
        [] \<Rightarrow> Inl TypeError
      | t # _ \<Rightarrow>
          let task = tp_store p t;
              p1 = (if keepView then p
                    else set_views (tv_updateLayout (task_canvas_w sz) (task_canvas_h sz))
                           (cv_updateLayout (component_canvas_w sz) (component_canvas_h sz))
                           (updateTimeAxisAccordingToTask task p))
          in Inr (if parent_id task \<noteq> [] then send [TraceById (parent_id task)] p1
                  else send [TraceAt (location task) (tp_startTime p1) (tp_endTime p1)] p1))"

definition parent_response :: "ref list \<Rightarrow> parent_object" where
  \<comment> \<open>an empty array stays where the parent task is expected\<close>
  "parent_response rsp = (case rsp of [] \<Rightarrow> MissingParent | q # _ \<Rightarrow> Parent q)"

definition showTask_parent :: "ref \<Rightarrow> task_page \<Rightarrow> task_page" where
  \<comment> \<open>after the response with the parent\<close>
  "showTask_parent t p =
     send [TraceAt (location (tp_store p t)) (tp_startTime p) (tp_endTime p)] p"

definition default_start :: "store \<Rightarrow> ref list \<Rightarrow> store" where
  "default_start h ts = (\<lambda>r. if r \<in> set ts \<and> start_time (h r) = Undef then (h r)\<lparr>start_time := 0\<rparr> else h r)"

definition draw_task ::
    "libs \<Rightarrow> ref \<Rightarrow> ref list \<Rightarrow> ref option \<Rightarrow> ref list \<Rightarrow> task_page \<Rightarrow> task_page js_result option" where
  \<comment> \<open>the two \<open>render\<close> calls at the end of \<open>showTask\<close>, and the legend\<close>
  "draw_task L t subs par same p =
     (case tv_render assign (lib_join L) (lib_scale L) (page_lookup p) t subs par (tp_store p) (tp_taskView p) of
        Inl e \<Rightarrow> Some (Inl e)
      | Inr (tv, h) \<Rightarrow>
          (case cv_render assign (lib_join L) (lib_scale L) (page_lookup p) same h (tp_componentView p) of
             None \<Rightarrow> None
           | Some (Inl e) \<Rightarrow> Some (Inl e)
           | Some (Inr (cv, h')) \<Rightarrow>
               Some (Inr (p\<lparr>tp_taskView := tv, tp_componentView := cv, tp_store := h',
                 tp_legend := legend_rows (the (tp_colorMap p))\<rparr>))))"

definition showTask_finish ::
    "libs \<Rightarrow> ref \<Rightarrow> ref list \<Rightarrow> parent_object \<Rightarrow> ref list \<Rightarrow> task_page \<Rightarrow> task_page js_result option" where
  \<comment> \<open>after the last response; the bar of an object without identifier raises\<close>
  "showTask_finish L t subs par same p =
     (case par of
        MissingParent \<Rightarrow> Some (Inl TypeError)
      | _ \<Rightarrow>
        let q = (case par of Parent q \<Rightarrow> Some q | _ \<Rightarrow> None);
            h1 = mark_groups q t (tp_store p);
            tasks = [t] @ (case q of None \<Rightarrow> [] | Some r \<Rightarrow> [r]) @ [t] @ subs;
            h2 = default_start h1 tasks;
            m = recode (lib_colors L) (map h2 (tasks @ same))
        in draw_task L t subs q same
             (p\<lparr>tp_currTask := Some t, tp_currParentTask := q, tp_currSubTasks := Some subs,
                tp_currSameLocationTasks := same, tp_store := h2, tp_colorMap := Some m\<rparr>))"

definition showComponent_finish :: "libs \<Rightarrow> ref list \<Rightarrow> task_page \<Rightarrow> task_page js_result option" where
  "showComponent_finish L same p =
     (let m = recode (lib_colors L) (map (tp_store p) same);
          p1 = p\<lparr>tp_colorMap := Some m, tp_legend := legend_rows m\<rparr>
      in case cv_render assign (lib_join L) (lib_scale L) (page_lookup p1) same (tp_store p1) (tp_componentView p1) of
           None \<Rightarrow> None
         | Some (Inl e) \<Rightarrow> Some (Inl e)
         | Some (Inr (cv, h)) \<Rightarrow> Some (Inr (p1\<lparr>tp_componentView := cv, tp_store := h\<rparr>)))"

definition page_highlight :: "highlight_arg \<Rightarrow> task_page \<Rightarrow> task_page" where
  "page_highlight arg p = set_views (tv_highlight (tp_store p) arg) (cv_highlight (tp_store p) arg) p"

subsection \<open>The time range\<close>

definition setTimeRange :: "libs \<Rightarrow> js_num \<Rightarrow> js_num \<Rightarrow> bool \<Rightarrow> task_page \<Rightarrow> task_page" where
  "setTimeRange L s e reload p =
     (let p1 = set_views (tv_setTimeAxis s e) (cv_setTimeAxis s e) (p\<lparr>tp_startTime := s, tp_endTime := e\<rparr>)
      in if \<not> reload
         then set_views (tv_updateXAxis (lib_scale L) (tp_store p1)) (cv_updateXAxis (lib_scale L) (tp_store p1)) p1
         else
           let p2 = p1\<lparr>tp_url := map_set ''endtime'' e (map_set ''starttime'' s (tp_url p1))\<rparr>
           in if tp_componentOnlyMode p2 then showComponent (tp_componentName p2) p2
              else showTask (map_option (\<lambda>t. task_id (tp_store p2 t)) (tp_currTask p2)) p2)"

definition page_getAxisStatus :: "task_page \<Rightarrow> js_num \<times> js_num \<times> js_num \<times> js_num" where
  "page_getAxisStatus p = (tp_startTime p, tp_endTime p, 0, tp_leftColumnWidth p)"

definition page_temporaryTimeShift :: "libs \<Rightarrow> js_num \<Rightarrow> js_num \<Rightarrow> task_page \<Rightarrow> task_page js_result" where
  "page_temporaryTimeShift L s e p = Inr (setTimeRange L s e False p)"

definition page_permanentTimeShift :: "libs \<Rightarrow> js_num \<Rightarrow> js_num \<Rightarrow> task_page \<Rightarrow> task_page js_result" where
  "page_permanentTimeShift L s e p = Inr (setTimeRange L s e True p)"

definition page_zoom :: "libs \<Rightarrow> task_page zoom_handler" where
  "page_zoom L = \<lparr> getAxisStatus = page_getAxisStatus, temporaryTimeShift = page_temporaryTimeShift L,
     permanentTimeShift = page_permanentTimeShift L \<rparr>"

definition page_mouse_time :: "js_num \<Rightarrow> js_num \<Rightarrow> js_num \<Rightarrow> task_page \<Rightarrow> js_num" where
  \<comment> \<open>the time \<open>_handleMouseMove\<close> shows, for the width and the left border of the column\<close>
  "page_mouse_time clientX clientWidth clientLeft p =
     (let duration = tp_endTime p - tp_startTime p;
          timePerPixel = duration / clientWidth;
          pixelOnLeft = clientX - clientLeft;
          timeOnLeft = timePerPixel * pixelOnLeft
      in timeOnLeft + tp_startTime p)"

definition page_handleMouseMove :: "(js_num \<Rightarrow> string) \<Rightarrow> js_num \<Rightarrow> js_num \<Rightarrow> js_num \<Rightarrow> task_page \<Rightarrow> string" where
  "page_handleMouseMove toString clientX clientWidth clientLeft p =
     smartString toString (page_mouse_time clientX clientWidth clientLeft p)"

subsection \<open>Layout\<close>

definition column_sizes :: "js_num \<Rightarrow> js_num \<Rightarrow> task_page \<Rightarrow> js_num \<times> js_num \<times> js_num" where
  \<comment> \<open>the widths of the two columns and the height of the component view, for a container of
     the given width and a column of the given height; the task view is 200 pixels high\<close>
  "column_sizes offsetWidth columnHeight p =
     (offsetWidth - tp_rightColumnWidth p - 1, tp_rightColumnWidth p, columnHeight - 200)"

definition page_layout :: "libs \<Rightarrow> js_num \<Rightarrow> sizes \<Rightarrow> task_page \<Rightarrow> task_page js_result option" where
  \<comment> \<open>the canvases have the sizes \<open>sz\<close> once the columns are laid out\<close>
  "page_layout L offsetWidth sz p =
     (let p1 = p\<lparr>tp_leftColumnWidth := fst (column_sizes offsetWidth 0 p)\<rparr>
      in case tv_setCanvas (lib_join L) (lib_scale L) (page_lookup p1) (task_canvas_w sz) (task_canvas_h sz)
                (tp_store p1) (tp_taskView p1) of
           Inl e \<Rightarrow> Some (Inl e)
         | Inr tv \<Rightarrow>
             (case cv_setCanvas assign (lib_join L) (lib_scale L) (page_lookup p1) (component_canvas_w sz)
                     (component_canvas_h sz) (tp_store p1) (tp_componentView p1) of
                None \<Rightarrow> None
              | Some (Inl e) \<Rightarrow> Some (Inl e)
              | Some (Inr (cv, h)) \<Rightarrow>
                  Some (Inr (p1\<lparr>tp_taskView := tv, tp_componentView := cv, tp_store := h\<rparr>))))"

subsection \<open>The page and its views\<close>

text \<open>The two views show the time range of the page, on axes as wide as their canvases.\<close>

definition page_inv :: "task_page \<Rightarrow> bool" where
  "page_inv p \<longleftrightarrow>
     tv_startTime (tp_taskView p) = tp_startTime p \<and> tv_endTime (tp_taskView p) = tp_endTime p \<and>
     cv_startTime (tp_componentView p) = tp_startTime p \<and> cv_endTime (tp_componentView p) = tp_endTime p \<and>
     tr_xScale (tv_renderer (tp_taskView p)) =
       time_scale (tp_startTime p) (tp_endTime p) (tv_canvasWidth (tp_taskView p)) \<and>
     tr_xScale (cv_renderer (tp_componentView p)) =
       time_scale (tp_startTime p) (tp_endTime p) (cv_canvasWidth (tp_componentView p))"

lemma view_setTimeAxis_simps [simp]:
  "tv_startTime (tv_setTimeAxis s e v) = s" "tv_endTime (tv_setTimeAxis s e v) = e"
  "tv_canvasWidth (tv_setTimeAxis s e v) = tv_canvasWidth v"
  "tr_xScale (tv_renderer (tv_setTimeAxis s e v)) = time_scale s e (tv_canvasWidth v)"
  "cv_startTime (cv_setTimeAxis s e w) = s" "cv_endTime (cv_setTimeAxis s e w) = e"
  "cv_canvasWidth (cv_setTimeAxis s e w) = cv_canvasWidth w"
  "tr_xScale (cv_renderer (cv_setTimeAxis s e w)) = time_scale s e (cv_canvasWidth w)"
  by (simp_all add: tv_setTimeAxis_def tv_updateTimeScale_def cv_setTimeAxis_def cv_updateTimeScale_def
      setXScale_def Let_def)

lemma view_updateXAxis_simps [simp]:
  "tv_startTime (tv_updateXAxis sc h v) = tv_startTime v" "tv_endTime (tv_updateXAxis sc h v) = tv_endTime v"
  "tv_canvasWidth (tv_updateXAxis sc h v) = tv_canvasWidth v" "tv_renderer (tv_updateXAxis sc h v) = tv_renderer v"
  "cv_startTime (cv_updateXAxis sc h w) = cv_startTime w" "cv_endTime (cv_updateXAxis sc h w) = cv_endTime w"
  "cv_canvasWidth (cv_updateXAxis sc h w) = cv_canvasWidth w" "cv_renderer (cv_updateXAxis sc h w) = cv_renderer w"
  by (simp_all add: tv_updateXAxis_def cv_updateXAxis_def)

lemma page_show_simps [simp]:
  "page_inv (showTask i p) = page_inv p" "page_inv (showComponent n p) = page_inv p"
  "page_getAxisStatus (showTask i p) = page_getAxisStatus p"
  "page_getAxisStatus (showComponent n p) = page_getAxisStatus p"
  by (auto simp: page_inv_def page_getAxisStatus_def showTask_def showComponent_def send_def
      switchToTaskMode_def switchToComponentOnlyMode_def Let_def split: option.splits)

lemma setTimeRange_inv: "page_inv (setTimeRange L s e reload p)"
proof -
  have "page_inv (set_views (tv_setTimeAxis s e) (cv_setTimeAxis s e) (p\<lparr>tp_startTime := s, tp_endTime := e\<rparr>))"
    by (simp add: page_inv_def set_views_def)
  moreover have "page_inv (set_views (tv_updateXAxis sc h) (cv_updateXAxis sc h) q) = page_inv q"
    "page_inv (q\<lparr>tp_url := u\<rparr>) = page_inv q" for sc h q u
    by (simp_all add: page_inv_def set_views_def)
  ultimately show ?thesis by (simp add: setTimeRange_def Let_def)
qed

lemma setTimeRange_axis:
  "page_getAxisStatus (setTimeRange L s e reload p) = (s, e, 0, tp_leftColumnWidth p)"
  by (simp add: setTimeRange_def Let_def) (simp add: page_getAxisStatus_def set_views_def)

interpretation tp: zoom_view "page_zoom L" page_inv for L
  by unfold_locales
    (auto simp: page_zoom_def page_temporaryTimeShift_def page_permanentTimeShift_def setTimeRange_inv
      setTimeRange_axis, auto simp: page_getAxisStatus_def)

lemma page_shows_at:
  "shows_at (page_zoom L) page_inv p s e 0 w \<longleftrightarrow>
     page_inv p \<and> tp_startTime p = Num s \<and> tp_endTime p = Num e \<and> tp_leftColumnWidth p = Num w"
  by (auto simp: shows_at_def page_zoom_def page_getAxisStatus_def js_num_simps)

subsection \<open>Properties\<close>

definition sample_libs :: libs where
  "sample_libs = \<lparr>lib_join = list_join, lib_scale = lerp, lib_colors = sample_palette\<rparr>"

definition sample_page :: task_page where
  \<comment> \<open>a page with a left column of 800 pixels that shows the times from 0 to 10\<close>
  "sample_page = setTimeRange sample_libs 0 10 False
     ((new_task_page (\<lambda>_. new_task) [])\<lparr>tp_leftColumnWidth := Num 800\<rparr>)"

lemma sample_page_simps:
  "page_inv sample_page" "tp_startTime sample_page = Num 0" "tp_endTime sample_page = Num 10"
  "tp_leftColumnWidth sample_page = Num 800"
proof -
  show "page_inv sample_page" unfolding sample_page_def by (rule setTimeRange_inv)
  have "page_getAxisStatus sample_page = (0, 10, 0, Num 800)" unfolding sample_page_def setTimeRange_axis by simp
  then show "tp_startTime sample_page = Num 0" "tp_endTime sample_page = Num 10" "tp_leftColumnWidth sample_page = Num 800"
    by (simp_all add: page_getAxisStatus_def js_num_simps)
qed

text \<open>
  (C11) Zooming with the wheel keeps the time under the mouse: the range grows or shrinks by the
  factor \<open>1.001\<close> for every unit of the wheel, the time at the mouse position stays where it is,
  both views follow and a reload is scheduled.
\<close>

theorem task_page_wheel_zoom:
  assumes "page_inv p" "tp_startTime p = Num s" "tp_endTime p = Num e" "tp_leftColumnWidth p = Num w"
    and "0 < w" "d \<noteq> 0"
  shows "\<exists>p' s' e'. dispatch (page_zoom L) (Wheel 0 d x) (m, p) = Inr (continueScrolling m, p') \<and>
    tp_startTime p' = Num s' \<and> tp_endTime p' = Num e' \<and> tp_leftColumnWidth p' = Num w \<and> page_inv p' \<and>
    e' - s' = (e - s) * zoom_factor d \<and> time_at s' e' 0 w x = time_at s e 0 w x"
proof -
  have "shows_at (page_zoom L) page_inv p s e 0 w" using assms by (simp add: page_shows_at)
  from tp.wheel_at [OF this assms(5,6), of x m] show ?thesis by (metis page_shows_at)
qed

theorem task_page_wheel_zoom_witness:
  "\<exists>p' s' e'. dispatch (page_zoom sample_libs) (Wheel 0 100 400) (new_mouse_handler, sample_page) =
     Inr (continueScrolling new_mouse_handler, p') \<and> tp_startTime p' = Num s' \<and> tp_endTime p' = Num e' \<and>
     time_at s' e' 0 800 400 = time_at 0 10 0 800 400"
  using task_page_wheel_zoom [OF sample_page_simps, of 100 sample_libs 400 new_mouse_handler] by auto

text \<open>
  (C12) Dragging moves the time that was under the mouse when the button went down along with the
  mouse, whatever path the mouse takes: after any moves that end at \<open>x\<close> the range is the
  original one shifted by the distance from \<open>x0\<close>, with its duration unchanged.
\<close>

theorem task_page_drag:
  assumes "page_inv p" "tp_startTime p = Num s" "tp_endTime p = Num e" "tp_leftColumnWidth p = Num w" "0 < w"
  shows "\<exists>m' p' s' e'. dispatch_all (page_zoom L) (MouseDown x0 # map MouseMove xs @ [MouseMove x]) (m, p) = Inr (m', p') \<and>
    tp_startTime p' = Num s' \<and> tp_endTime p' = Num e' \<and> page_inv p' \<and>
    e' - s' = e - s \<and> time_at s' e' 0 w x = time_at s e 0 w x0"
proof -
  let ?k = "(e - s) / (w - 0)"
  have "shows_at (page_zoom L) page_inv p s e 0 w" using assms by (simp add: page_shows_at)
  from tp.down_drag_at [OF this assms(5), of x0 xs x m] obtain m' p' where
    run: "dispatch_all (page_zoom L) (MouseDown x0 # map MouseMove xs @ [MouseMove x]) (m, p) = Inr (m', p')"
    and sh: "shows_at (page_zoom L) page_inv p' (s - (x - x0) * ?k) (e - (x - x0) * ?k) 0 w" by blast
  have dur: "(e - (x - x0) * ?k) - (s - (x - x0) * ?k) = e - s" by simp
  have "time_at (s - (x - x0) * ?k) (e - (x - x0) * ?k) 0 w x = time_at s e 0 w x0"
    unfolding time_at_def dur by (simp add: algebra_simps diff_divide_distrib)
  with run sh dur show ?thesis unfolding page_shows_at by blast
qed

theorem task_page_drag_witness:
  "\<exists>m' p' s' e'. dispatch_all (page_zoom sample_libs) (MouseDown 100 # map MouseMove [150, 70] @ [MouseMove 120])
     (new_mouse_handler, sample_page) = Inr (m', p') \<and> tp_startTime p' = Num s' \<and> tp_endTime p' = Num e' \<and> e' - s' = 10"
  using task_page_drag [OF sample_page_simps, of sample_libs 100 "[150, 70]" 120 new_mouse_handler] by auto

text \<open>
  Pinching keeps the middle of the time range and scales its duration by the ratio of the
  distance of the fingers at the start to the distance now.
\<close>

theorem task_page_pinch:
  assumes "page_inv p" "tp_startTime p = Num s" "tp_endTime p = Num e" "tp_leftColumnWidth p = Num w" "a \<noteq> b"
  shows "\<exists>m' p' s' e'. dispatch_all (page_zoom L) [TouchStart [a0, b0], TouchMove [a, b]] (m, p) = Inr (m', p') \<and>
    tp_startTime p' = Num s' \<and> tp_endTime p' = Num e' \<and> page_inv p' \<and>
    s' + e' = s + e \<and> e' - s' = (e - s) * (\<bar>b0 - a0\<bar> / \<bar>b - a\<bar>)"
proof -
  have sh: "shows_at (page_zoom L) page_inv p s e 0 w" using assms by (simp add: page_shows_at)
  let ?m = "m\<lparr>isPinching := True, isDragging := False, pinchStartTouches := [Num a0, Num b0],
    dragStartStartTime := Num s, dragStartEndTime := Num e\<rparr>"
  have "dispatch (page_zoom L) (TouchStart [a0, b0]) (m, p) = Inr (?m, p)"
    using sh by (simp add: handleTouchStart_def handlePinchStart_def shows_at_def Let_def)
  moreover obtain p' s' e' where "dispatch (page_zoom L) (TouchMove [a, b]) (?m, p) = Inr (continueScrolling ?m, p')"
    "shows_at (page_zoom L) page_inv p' s' e' 0 w" "e' - s' = (e - s) * (\<bar>b0 - a0\<bar> / \<bar>b - a\<bar>)" "s' + e' = s + e"
    by (rule tp.pinch_at [OF sh, of ?m a0 b0 s e a b]) (use assms(5) in simp_all)
  ultimately show ?thesis unfolding page_shows_at by (simp del: dispatch.simps)
qed

theorem task_page_pinch_witness:
  "\<exists>m' p' s' e'. dispatch_all (page_zoom sample_libs) [TouchStart [100, 300], TouchMove [100, 200]]
     (new_mouse_handler, sample_page) = Inr (m', p') \<and> tp_startTime p' = Num s' \<and> tp_endTime p' = Num e' \<and> e' - s' = 20"
  using task_page_pinch [OF sample_page_simps, of 100 200 sample_libs 100 300 new_mouse_handler] by auto



text \<open>
  When the pending reload fires, the page asks the server for exactly the time range that it
  shows and puts that range into the address, in the mode it is in.
\<close>

theorem task_page_reload:
  assumes "t \<in> set (timers m)" "tp_componentOnlyMode p"
  shows "\<exists>m' p'. dispatch (page_zoom L) (TimerFires t) (m, p) = Inr (m', p') \<and> t \<notin> set (timers m') \<and>
    tp_requests p' = tp_requests p @ [TraceAt (tp_componentName p) (tp_startTime p) (tp_endTime p)] \<and>
    map_get (tp_url p') ''starttime'' = Some (tp_startTime p) \<and>
    map_get (tp_url p') ''endtime'' = Some (tp_endTime p) \<and>
    tp_startTime p' = tp_startTime p \<and> tp_endTime p' = tp_endTime p"
  using assms
  by (simp add: triggerReload_def page_zoom_def page_getAxisStatus_def page_permanentTimeShift_def
      setTimeRange_def set_views_def showComponent_def send_def switchToComponentOnlyMode_def Let_def
      jm.get_put)

theorem task_page_reload_witness:
  "\<exists>m' p'. dispatch (page_zoom sample_libs) (TimerFires 1)
     (continueScrolling new_mouse_handler, sample_page\<lparr>tp_componentOnlyMode := True\<rparr>) = Inr (m', p') \<and>
     tp_requests p' = tp_requests sample_page @ [TraceAt (tp_componentName sample_page) (Num 0) (Num 10)]"
  using task_page_reload [of 1 "continueScrolling new_mouse_handler" "sample_page\<lparr>tp_componentOnlyMode := True\<rparr>" sample_libs]
    sample_page_simps by (simp add: continueScrolling_def new_mouse_handler_def del: dispatch.simps) blast

end
