(* ===== verification/Bar_Gestures.thy ===== *)
theory Bar_Gestures
  imports Task_Page
begin

text \<open>
  The handlers of the task bars in \<open>daisen/static/src/taskrenderer.js\<close>: the tooltip with the data
  of the task under the mouse, and the decision whether a press of the button on a bar is a click,
  which opens the task, or a drag, which pans the view.  The bars that one \<open>render\<close> adds share the
  variables of the decision.  The flags are reset half a second after the button was released.
\<close>

subsection \<open>Tooltip\<close>

record tooltip =
  tt_title :: string
  tt_rows :: "(string \<times> string) list"
  tt_showing :: bool

definition showTooltip :: "(js_num \<Rightarrow> string) \<Rightarrow> task \<Rightarrow> tooltip \<Rightarrow> tooltip" where
  "showTooltip toString t tt =
     \<lparr> tt_title = kind t @ '' - '' @ what t,
       tt_rows = [(''ID'', task_id t), (''Kind'', kind t), (''What'', what t), (''Where'', location t),
         (''Start'', smartString toString (start_time t)), (''End'', smartString toString (end_time t)),
         (''Duration'', smartString toString (end_time t - start_time t))],
       tt_showing = True \<rparr>"

definition hideTooltip :: "tooltip \<Rightarrow> tooltip" where
  \<comment> \<open>the text stays, only the class is removed\<close>
  "hideTooltip tt = tt\<lparr>tt_showing := False\<rparr>"

definition bar_mouseover :: "(js_num \<Rightarrow> string) \<Rightarrow> ref \<Rightarrow> tooltip \<times> task_page \<Rightarrow> tooltip \<times> task_page" where
  "bar_mouseover toString r = (\<lambda>(tt, p). (showTooltip toString (tp_store p r) tt, page_highlight (HTask (tp_store p r)) p))"

definition bar_mouseout :: "tooltip \<times> task_page \<Rightarrow> tooltip \<times> task_page" where
  "bar_mouseout = (\<lambda>(tt, p). (hideTooltip tt, page_highlight HNone p))"

subsection \<open>Clicks and drags\<close>

record bar_gesture =
  bg_dragging :: bool
  bg_dragMoved :: bool
  bg_startX :: rat
  bg_startY :: rat
  bg_mouseUpTimeout :: "nat option"
  bg_pending :: "nat list" \<comment> \<open>time-outs of the browser that have not fired\<close>
  bg_next :: nat

definition new_bar_gesture :: bar_gesture where
  "new_bar_gesture = \<lparr> bg_dragging = False, bg_dragMoved = False, bg_startX = 0, bg_startY = 0,
     bg_mouseUpTimeout = None, bg_pending = [], bg_next = 1 \<rparr>"

datatype bar_event = BarDown rat rat | BarMove rat rat | BarUp | BarClick | BarTimeout nat

definition bar_mousedown :: "rat \<Rightarrow> rat \<Rightarrow> bar_gesture \<Rightarrow> bar_gesture" where
  "bar_mousedown x y g = g\<lparr>bg_dragging := True, bg_startX := x, bg_startY := y,
     bg_pending := (case bg_mouseUpTimeout g of None \<Rightarrow> bg_pending g | Some t \<Rightarrow> removeAll t (bg_pending g))\<rparr>"

definition bar_mousemove :: "rat \<Rightarrow> rat \<Rightarrow> bar_gesture \<Rightarrow> bar_gesture" where
  "bar_mousemove x y g =
     (if bg_dragging g \<and> (x - bg_startX g > 1 \<or> x - bg_startX g < -1 \<or> y - bg_startY g > 1 \<or> y - bg_startY g < -1)
      then g\<lparr>bg_dragMoved := True\<rparr> else g)"

definition bar_mouseup :: "bar_gesture \<Rightarrow> bar_gesture" where
  "bar_mouseup g = g\<lparr>bg_mouseUpTimeout := Some (bg_next g), bg_pending := bg_pending g @ [bg_next g], bg_next := bg_next g + 1\<rparr>"

definition bar_timeout :: "nat \<Rightarrow> bar_gesture \<Rightarrow> bar_gesture" where
  "bar_timeout t g =
     (if t \<in> set (bg_pending g)
      then g\<lparr>bg_dragging := False, bg_dragMoved := False, bg_pending := removeAll t (bg_pending g)\<rparr> else g)"

definition open_task :: "string \<Rightarrow> task_page \<Rightarrow> task_page" where
  \<comment> \<open>the new address names only the task, without a time range\<close>
  "open_task i p = showTask (Some i) (p\<lparr>tp_url := []\<rparr>)"

definition bar_click :: "string \<Rightarrow> bar_gesture \<Rightarrow> task_page \<Rightarrow> task_page" where
  \<comment> \<open>the bar of the task with the identifier\<close>
  "bar_click i g p = (if bg_dragMoved g then p else open_task i p)"

fun bar_step :: "string \<Rightarrow> bar_event \<Rightarrow> bar_gesture \<times> task_page \<Rightarrow> bar_gesture \<times> task_page" where
  "bar_step i (BarDown x y) (g, p) = (bar_mousedown x y g, p)"
| "bar_step i (BarMove x y) (g, p) = (bar_mousemove x y g, p)"
| "bar_step i BarUp (g, p) = (bar_mouseup g, p)"
| "bar_step i BarClick (g, p) = (g, bar_click i g p)"
| "bar_step i (BarTimeout t) (g, p) = (bar_timeout t g, p)"

definition bar_run :: "string \<Rightarrow> bar_event list \<Rightarrow> bar_gesture \<times> task_page \<Rightarrow> bar_gesture \<times> task_page" where
  "bar_run i es s = foldl (\<lambda>s e. bar_step i e s) s es"

definition near :: "rat \<Rightarrow> rat \<Rightarrow> rat \<times> rat \<Rightarrow> bool" where
  "near x y q \<longleftrightarrow> \<bar>fst q - x\<bar> \<le> 1 \<and> \<bar>snd q - y\<bar> \<le> 1"

definition press :: "rat \<Rightarrow> rat \<Rightarrow> (rat \<times> rat) list \<Rightarrow> bar_event list" where
  \<comment> \<open>the events of one press of the button, in the order the browser delivers them\<close>
  "press x y ms = BarDown x y # map (\<lambda>(a, b). BarMove a b) ms @ [BarUp, BarClick]"

lemma bar_moves:
  assumes "bg_dragging g"
  shows "bar_run i (map (\<lambda>(a, b). BarMove a b) ms) (g, p) =
    (g\<lparr>bg_dragMoved := bg_dragMoved g \<or> \<not> list_all (near (bg_startX g) (bg_startY g)) ms\<rparr>, p)"
  using assms
proof (induction ms arbitrary: g)
  case (Cons q ms)
  obtain a b where q: "q = (a, b)" by fastforce
  have "bar_mousemove a b g = g\<lparr>bg_dragMoved := bg_dragMoved g \<or> \<not> near (bg_startX g) (bg_startY g) q\<rparr>"
  proof -
    have "(a - bg_startX g > 1 \<or> a - bg_startX g < -1 \<or> b - bg_startY g > 1 \<or> b - bg_startY g < -1) =
        (\<not> near (bg_startX g) (bg_startY g) q)" by (auto simp: near_def q abs_if)
    then show ?thesis using Cons.prems by (simp add: bar_mousemove_def)
  qed
  then show ?case using Cons.IH [of "bar_mousemove a b g"] Cons.prems by (auto simp: bar_run_def q)
qed (simp add: bar_run_def)

lemma bar_run_append: "bar_run i (es @ fs) s = bar_run i fs (bar_run i es s)"
  by (simp add: bar_run_def)

lemma bar_press:
  "bar_run i (press x y ms) (g, p) =
     (let moved = (bg_dragMoved g \<or> \<not> list_all (near x y) ms);
          g' = bar_mouseup ((bar_mousedown x y g)\<lparr>bg_dragMoved := moved\<rparr>)
      in (g', if moved then p else open_task i p))"
proof -
  have "bar_run i (press x y ms) (g, p) =
      bar_run i [BarUp, BarClick] (bar_run i (map (\<lambda>(a, b). BarMove a b) ms) (bar_mousedown x y g, p))"
    by (simp add: press_def bar_run_def)
  also have "bar_run i (map (\<lambda>(a, b). BarMove a b) ms) (bar_mousedown x y g, p) =
      ((bar_mousedown x y g)\<lparr>bg_dragMoved := bg_dragMoved g \<or> \<not> list_all (near x y) ms\<rparr>, p)"
    by (subst bar_moves) (simp_all add: bar_mousedown_def)
  finally show ?thesis by (simp add: bar_run_def bar_click_def bar_mouseup_def Let_def)
qed

subsection \<open>Properties\<close>



end
