(* ===== verification/Charts.thy ===== *)
theory Charts
  imports Task_Renderer
begin

text \<open>
  The two chart classes \<open>daisen/static/src/taskchart.js\<close> and \<open>daisen/static/src/ipschart.js\<close>, which
  no page of the repository uses: the time range of a list of tasks, and the pairs of bars for the
  numbers of started and completed instructions.
\<close>

subsection \<open>Groups of a drawing\<close>

record ips_bar =
  ib_x :: js_num
  ib_y :: js_num
  ib_width :: js_num
  ib_height :: js_num

record svg_group = \<comment> \<open>a child of the \<open>svg\<close> element\<close>
  sg_tag :: string
  sg_class :: string
  sg_translate :: "(js_num \<times> js_num) option"
  sg_bars :: "ips_bar list"
  sg_axis :: "(lin_scale \<times> nat) option" \<comment> \<open>the scale of the axis drawn in it and the number of ticks asked for\<close>

definition new_group :: "string \<Rightarrow> (js_num \<times> js_num) option \<Rightarrow> svg_group" where
  \<comment> \<open>\<open>svg.append('g').attr('class', name)\<close>, for an axis with its transform\<close>
  "new_group name place = \<lparr> sg_tag = ''g'', sg_class = name, sg_translate = place, sg_bars = [], sg_axis = None \<rparr>"

fun with_group :: "(svg_group \<Rightarrow> bool) \<Rightarrow> svg_group \<Rightarrow> (svg_group \<Rightarrow> svg_group) \<Rightarrow> svg_group list \<Rightarrow> svg_group list" where
  \<comment> \<open>select the first group that matches, append a new one when there is none, and draw in it\<close>
  "with_group P new draw [] = [draw new]"
| "with_group P new draw (g # gs) = (if P g then draw g # gs else g # with_group P new draw gs)"

definition with_axis :: "string \<Rightarrow> js_num \<times> js_num \<Rightarrow> lin_scale \<Rightarrow> nat \<Rightarrow> svg_group list \<Rightarrow> svg_group list" where
  \<comment> \<open>the selector is the bare name, which selects by the tag and not by the class\<close>
  "with_axis name place s ticks gs =
     with_group (\<lambda>g. sg_tag g = name) (new_group name (Some place)) (\<lambda>g. g\<lparr>sg_axis := Some (s, ticks)\<rparr>) gs"

subsection \<open>The task chart\<close>

record task_chart =
  tc_canvas :: "(js_num \<times> js_num) option" \<comment> \<open>offset width and height of the canvas, which starts as \<open>null\<close>\<close>
  tc_groups :: "svg_group list"

record task_dims =
  tc_mainWidth :: js_num
  tc_mainHeight :: js_num

definition tc_calculateDimension :: "js_num \<Rightarrow> js_num \<Rightarrow> task_dims" where
  \<comment> \<open>for the size of the canvas; the margins are 50, 10, 50 and -50\<close>
  "tc_calculateDimension offsetWidth offsetHeight =
     \<lparr> tc_mainWidth = offsetWidth - 50 - 10, tc_mainHeight = offsetHeight - (- 50) - 50 \<rparr>"

definition findEarliestTime :: "task list \<Rightarrow> js_num" where
  "findEarliestTime ds = foldl (\<lambda>earliest d. if start_time d < earliest then start_time d else earliest) (max_value) ds"

fun latest_from :: "js_num \<Rightarrow> task list \<Rightarrow> js_num js_result" where
  \<comment> \<open>the variable \<open>end_time\<close> is not declared\<close>
  "latest_from latest [] = Inr latest"
| "latest_from latest (d # ds) =
     (if end_time d > latest then Inl (ReferenceError ''end_time'') else latest_from latest ds)"

definition findLatestTime :: "task list \<Rightarrow> js_num js_result" where
  "findLatestTime ds = latest_from min_value ds"

definition tc_calculateScale :: "task_dims \<Rightarrow> task list \<Rightarrow> lin_scale js_result" where
  "tc_calculateScale c ds =
     bind_result (findLatestTime ds) (\<lambda>latest.
       Inr \<lparr> domain_from = findEarliestTime ds, domain_to = latest, range_from = 50, range_to = 50 + tc_mainWidth c \<rparr>)"

definition tc_renderAxis :: "task_dims \<Rightarrow> lin_scale \<Rightarrow> svg_group list \<Rightarrow> svg_group list" where
  "tc_renderAxis c xScale gs = with_axis ''x-axis'' (0, 50 + tc_mainHeight c) xScale 10 gs"

definition tc_updateData :: "task list \<Rightarrow> task_chart \<Rightarrow> task_chart js_result" where
  \<comment> \<open>\<open>updateData\<close> and \<open>render\<close>; the data are read in this call only\<close>
  "tc_updateData ds chart =
     (case tc_canvas chart of
        None \<Rightarrow> Inl TypeError
      | Some (w, h) \<Rightarrow>
          let c = tc_calculateDimension w h
          in bind_result (tc_calculateScale c ds) (\<lambda>xScale. Inr (chart\<lparr>tc_groups := tc_renderAxis c xScale (tc_groups chart)\<rparr>)))"

subsection \<open>The instruction chart\<close>

record ips_data =
  ips_StartCount :: "js_num list"
  ips_CompleteCount :: "js_num list"
  ips_Start :: js_num
  ips_End :: js_num

record ips_dims =
  ips_barWidth :: js_num
  ips_barRegionHeight :: js_num
  ips_barRegionWidth :: js_num

record ips_chart =
  ic_canvas :: "(js_num \<times> js_num) option"
  ic_groups :: "svg_group list"

definition ips_calculateDimension :: "js_num \<Rightarrow> js_num \<Rightarrow> ips_data \<Rightarrow> ips_dims" where
  \<comment> \<open>the margins are 40, 5, 5 and 50\<close>
  "ips_calculateDimension canvasWidth canvasHeight d =
     \<lparr> ips_barWidth = canvasWidth / of_nat_num (length (ips_CompleteCount d)),
       ips_barRegionHeight = canvasHeight - 50 - 5, ips_barRegionWidth = canvasWidth - 40 - 5 \<rparr>"

definition ips_yScale :: "ips_dims \<Rightarrow> ips_data \<Rightarrow> lin_scale" where
  "ips_yScale c d =
     \<lparr> domain_from = 0, domain_to = js_max [js_max (ips_CompleteCount d), js_max (ips_StartCount d)],
       range_from = ips_barRegionHeight c, range_to = 5 \<rparr>"

definition ips_xScale :: "ips_dims \<Rightarrow> ips_data \<Rightarrow> lin_scale" where
  "ips_xScale c d =
     \<lparr> domain_from = 0, domain_to = of_nat_num (length (ips_CompleteCount d)), range_from = 40, range_to = 40 + ips_barRegionWidth c \<rparr>"

definition ips_xTimeScale :: "ips_dims \<Rightarrow> ips_data \<Rightarrow> lin_scale" where
  "ips_xTimeScale c d =
     \<lparr> domain_from = ips_Start d, domain_to = ips_End d, range_from = 40, range_to = 40 + ips_barRegionWidth c \<rparr>"

definition join_bars :: "scaling \<Rightarrow> ips_dims \<Rightarrow> ips_data \<Rightarrow> rat \<Rightarrow> js_num list \<Rightarrow> ips_bar list \<Rightarrow> ips_bar list" where
  \<comment> \<open>the bars at the end of the transition: new bars get a place and a width, all bars with a datum
     a height; there is no removal of bars without one\<close>
  "join_bars scale c d xOffset data bars =
     map (\<lambda>(i, v).
       (if i < length bars then bars ! i
        else \<lparr> ib_x = scale (ips_xScale c d) (of_nat_num i + Num xOffset), ib_y = ips_barRegionHeight c + 5,
               ib_width = ips_barWidth c * Num (3 / 10), ib_height = 0 \<rparr>)
         \<lparr>ib_y := scale (ips_yScale c d) v + 5, ib_height := ips_barRegionHeight c - scale (ips_yScale c d) v\<rparr>) (enumerate 0 data)
     @ drop (length data) bars"

definition renderBarGroup :: "scaling \<Rightarrow> ips_dims \<Rightarrow> ips_data \<Rightarrow> js_num list \<Rightarrow> string \<Rightarrow> rat \<Rightarrow> svg_group list \<Rightarrow> svg_group list" where
  "renderBarGroup scale c d data groupName xOffset gs =
     with_group (\<lambda>g. sg_class g = groupName) (new_group groupName None)
       (\<lambda>g. g\<lparr>sg_bars := join_bars scale c d xOffset data (sg_bars g)\<rparr>) gs"

definition ips_renderAxis :: "ips_dims \<Rightarrow> ips_data \<Rightarrow> svg_group list \<Rightarrow> svg_group list" where
  "ips_renderAxis c d gs =
     with_axis ''x-axis'' (0, 5 + ips_barRegionHeight c) (ips_xTimeScale c d) 10
       (with_axis ''y-axis'' (40, 5) (ips_yScale c d) 6 gs)"

definition ips_render :: "scaling \<Rightarrow> js_num \<Rightarrow> js_num \<Rightarrow> ips_data \<Rightarrow> svg_group list \<Rightarrow> svg_group list" where
  "ips_render scale canvasWidth canvasHeight d gs =
     (let c = ips_calculateDimension canvasWidth canvasHeight d
      in ips_renderAxis c d
           (renderBarGroup scale c d (ips_CompleteCount d) ''complete-bar-group'' (35 / 100)
             (renderBarGroup scale c d (ips_StartCount d) ''start-bar-group'' 0 gs)))"

definition ips_updateData :: "scaling \<Rightarrow> ips_data \<Rightarrow> ips_chart \<Rightarrow> ips_chart js_result" where
  "ips_updateData scale d chart =
     (case ic_canvas chart of
        None \<Rightarrow> Inl TypeError
      | Some (w, h) \<Rightarrow> Inr (chart\<lparr>ic_groups := ips_render scale w h d (ic_groups chart)\<rparr>))"

fun ips_updates :: "scaling \<Rightarrow> ips_data list \<Rightarrow> ips_chart \<Rightarrow> ips_chart js_result" where
  "ips_updates scale [] chart = Inr chart"
| "ips_updates scale (d # ds) chart = bind_result (ips_updateData scale d chart) (ips_updates scale ds)"

subsection \<open>Properties\<close>

text \<open>
  The time scale of the task chart is computed only for traces in which every task ends at the
  smallest positive number or before it; for every other trace the undeclared variable raises.
\<close>

lemma latest_fails: "latest_from l ds = (if \<exists>d \<in> set ds. end_time d > l then Inl (ReferenceError ''end_time'') else Inr l)"
  by (induction ds) auto

lemma with_group_new: "\<forall>g \<in> set gs. \<not> P g \<Longrightarrow> with_group P new draw gs = gs @ [draw new]"
  by (induction gs) auto

definition axis_group :: "string \<Rightarrow> js_num \<times> js_num \<Rightarrow> lin_scale \<Rightarrow> nat \<Rightarrow> svg_group" where
  "axis_group name place s ticks = (new_group name (Some place))\<lparr>sg_axis := Some (s, ticks)\<rparr>"

lemma axis_group_tag [simp]: "sg_tag (axis_group name place s ticks) = ''g''" "sg_class (axis_group name place s ticks) = name"
  by (simp_all add: axis_group_def new_group_def)

text \<open>No element has the tag of an axis, so the selection of an axis finds nothing and adds one more.\<close>

lemma with_axis_new:
  "\<forall>g \<in> set gs. sg_tag g = ''g'' \<Longrightarrow> name \<noteq> ''g'' \<Longrightarrow> with_axis name place s ticks gs = gs @ [axis_group name place s ticks]"
  by (simp add: with_axis_def with_group_new axis_group_def)

text \<open>
  The task chart cannot show a trace: for every list with a task that ends at a positive time
  above the smallest one, an update raises an error for an undeclared variable; for the other
  lists every update adds one more axis to the drawing.
\<close>

theorem task_chart_updates:
  assumes "tc_canvas chart = Some (w, h)" "\<forall>g \<in> set (tc_groups chart). sg_tag g = ''g''"
  shows "if \<exists>d \<in> set ds. min_value < end_time d then tc_updateData ds chart = Inl (ReferenceError ''end_time'')
    else \<exists>chart' s. tc_updateData ds chart = Inr chart' \<and>
      tc_groups chart' = tc_groups chart @ [axis_group ''x-axis'' (0, 50 + (h - (- 50) - 50)) s 10]"
proof -
  have "with_axis ''x-axis'' place s 10 (tc_groups chart) = tc_groups chart @ [axis_group ''x-axis'' place s 10]" for place s
    using assms(2) by (intro with_axis_new) simp_all
  then show ?thesis using assms(1)
    by (auto simp: tc_updateData_def tc_calculateScale_def findLatestTime_def latest_fails tc_renderAxis_def
        tc_calculateDimension_def)
qed

theorem task_chart_updates_witness:
  "tc_updateData [] \<lparr>tc_canvas = Some (Num 400, Num 200), tc_groups = []\<rparr> \<noteq> Inl TypeError"
  using task_chart_updates [of "\<lparr>tc_canvas = Some (Num 400, Num 200), tc_groups = []\<rparr>" "Num 400" "Num 200" "[]"] by auto

text \<open>The bars of one group after a sequence of updates.\<close>

definition bars_after :: "scaling \<Rightarrow> (ips_data \<Rightarrow> ips_dims) \<Rightarrow> (ips_data \<Rightarrow> js_num list) \<Rightarrow> rat \<Rightarrow> ips_data list \<Rightarrow> ips_bar list" where
  "bars_after scale dims sel off ds = foldl (\<lambda>bars d. join_bars scale (dims d) d off (sel d) bars) [] ds"

lemma bars_after_snoc:
  "bars_after scale dims sel off (ds @ [d]) = join_bars scale (dims d) d off (sel d) (bars_after scale dims sel off ds)"
  by (simp add: bars_after_def)

lemma join_bars_length: "length (join_bars scale c d off data bars) = max (length data) (length bars)"
  by (simp add: join_bars_def)

lemma join_bars_nth:
  assumes "i < max (length data) (length bars)"
  shows "ib_x (join_bars scale c d off data bars ! i) =
      (if i < length bars then ib_x (bars ! i) else scale (ips_xScale c d) (of_nat_num i + Num off))"
    and "ib_width (join_bars scale c d off data bars ! i) =
      (if i < length bars then ib_width (bars ! i) else ips_barWidth c * Num (3 / 10))"
    and "ib_y (join_bars scale c d off data bars ! i) =
      (if i < length data then scale (ips_yScale c d) (data ! i) + 5 else ib_y (bars ! i))"
    and "ib_height (join_bars scale c d off data bars ! i) =
      (if i < length data then ips_barRegionHeight c - scale (ips_yScale c d) (data ! i) else ib_height (bars ! i))"
  using assms by (auto simp: join_bars_def nth_append nth_enumerate_eq Let_def)

lemma bars_after_length: "i < length (bars_after scale dims sel off ds) \<longleftrightarrow> (\<exists>d \<in> set ds. i < length (sel d))"
  by (induction ds rule: rev_induct) (auto simp: bars_after_snoc join_bars_length, simp add: bars_after_def)

lemma find_append_case: "find P (xs @ ys) = (case find P xs of None \<Rightarrow> find P ys | Some x \<Rightarrow> Some x)"
  by (induction xs) auto

lemma bars_after_place:
  assumes "i < length (bars_after scale dims sel off ds)"
  shows "\<exists>d. find (\<lambda>d. i < length (sel d)) ds = Some d \<and>
    ib_x (bars_after scale dims sel off ds ! i) = scale (ips_xScale (dims d) d) (of_nat_num i + Num off) \<and>
    ib_width (bars_after scale dims sel off ds ! i) = ips_barWidth (dims d) * Num (3 / 10)"
  using assms
proof (induction ds rule: rev_induct)
  case (snoc d ds)
  let ?bars = "bars_after scale dims sel off ds"
  have i: "i < max (length (sel d)) (length ?bars)" using snoc.prems by (simp add: bars_after_snoc join_bars_length)
  show ?case
  proof (cases "i < length ?bars")
    case True
    then show ?thesis using snoc.IH join_bars_nth(1,2) [OF i] by (auto simp: bars_after_snoc find_append_case)
  next
    case False
    then have "find (\<lambda>d. i < length (sel d)) ds = None" by (simp add: bars_after_length find_None_iff)
    then show ?thesis using False i join_bars_nth(1,2) [OF i] by (auto simp: bars_after_snoc find_append_case)
  qed
qed (simp add: bars_after_def)

lemma bars_after_height:
  assumes "i < length (bars_after scale dims sel off ds)"
  shows "\<exists>d. find (\<lambda>d. i < length (sel d)) (rev ds) = Some d \<and>
    ib_y (bars_after scale dims sel off ds ! i) = scale (ips_yScale (dims d) d) (sel d ! i) + 5 \<and>
    ib_height (bars_after scale dims sel off ds ! i) = ips_barRegionHeight (dims d) - scale (ips_yScale (dims d) d) (sel d ! i)"
  using assms
proof (induction ds rule: rev_induct)
  case (snoc d ds)
  let ?bars = "bars_after scale dims sel off ds"
  have i: "i < max (length (sel d)) (length ?bars)" using snoc.prems by (simp add: bars_after_snoc join_bars_length)
  show ?case using snoc.IH i join_bars_nth(3,4) [OF i] by (cases "i < length (sel d)") (auto simp: bars_after_snoc)
qed (simp add: bars_after_def)

definition bar_group :: "string \<Rightarrow> ips_bar list \<Rightarrow> svg_group" where
  "bar_group name bars = (new_group name None)\<lparr>sg_bars := bars\<rparr>"

lemma bar_group_fields [simp]:
  "sg_tag (bar_group name bars) = ''g''" "sg_class (bar_group name bars) = name" "sg_bars (bar_group name bars) = bars"
  "(bar_group name bars)\<lparr>sg_bars := bars'\<rparr> = bar_group name bars'"
  by (simp_all add: bar_group_def new_group_def)

definition axes_of :: "(ips_data \<Rightarrow> ips_dims) \<Rightarrow> ips_data \<Rightarrow> svg_group list" where
  "axes_of dims d = [axis_group ''y-axis'' (40, 5) (ips_yScale (dims d) d) 6,
     axis_group ''x-axis'' (0, 5 + ips_barRegionHeight (dims d)) (ips_xTimeScale (dims d) d) 10]"

definition chart_of :: "scaling \<Rightarrow> (ips_data \<Rightarrow> ips_dims) \<Rightarrow> ips_data list \<Rightarrow> svg_group list" where
  \<comment> \<open>what the drawing holds after the updates\<close>
  "chart_of scale dims ds = (if ds = [] then [] else
     bar_group ''start-bar-group'' (bars_after scale dims ips_StartCount 0 ds) #
     bar_group ''complete-bar-group'' (bars_after scale dims ips_CompleteCount (35 / 100) ds) #
     concat (map (axes_of dims) ds))"

lemma ips_render_snoc:
  "ips_render scale w h d (chart_of scale (ips_calculateDimension w h) ds) = chart_of scale (ips_calculateDimension w h) (ds @ [d])"
proof -
  let ?dims = "ips_calculateDimension w h"
  let ?S = "bar_group ''start-bar-group'' (bars_after scale ?dims ips_StartCount 0 (ds @ [d]))"
  let ?C = "bar_group ''complete-bar-group'' (bars_after scale ?dims ips_CompleteCount (35 / 100) (ds @ [d]))"
  let ?A = "concat (map (axes_of ?dims) ds)"
  have bars: "renderBarGroup scale (?dims d) d (ips_CompleteCount d) ''complete-bar-group'' (35 / 100)
      (renderBarGroup scale (?dims d) d (ips_StartCount d) ''start-bar-group'' 0 (chart_of scale ?dims ds)) = ?S # ?C # ?A"
    unfolding renderBarGroup_def chart_of_def bars_after_snoc
    by (cases "ds = []") (simp_all add: bar_group_def [symmetric] bars_after_def bar_group_def new_group_def)
  have tags: "\<forall>g \<in> set (?S # ?C # ?A). sg_tag g = ''g''" by (auto simp: axes_of_def)
  have "ips_renderAxis (?dims d) d (?S # ?C # ?A) = (?S # ?C # ?A) @ axes_of ?dims d"
    unfolding ips_renderAxis_def with_axis_new [OF tags] using tags
    by (subst with_axis_new) (auto simp: with_axis_new axes_of_def)
  then show ?thesis by (simp only: ips_render_def Let_def bars) (simp add: chart_of_def)
qed

lemma ips_updates_eq:
  assumes "ic_canvas chart = Some (w, h)" "ic_groups chart = chart_of scale (ips_calculateDimension w h) ds0"
  shows "ips_updates scale ds chart = Inr (chart\<lparr>ic_groups := chart_of scale (ips_calculateDimension w h) (ds0 @ ds)\<rparr>)"
  using assms
proof (induction ds arbitrary: chart ds0)
  case (Cons d ds)
  have "ips_updateData scale d chart = Inr (chart\<lparr>ic_groups := chart_of scale (ips_calculateDimension w h) (ds0 @ [d])\<rparr>)"
    using Cons.prems by (simp add: ips_updateData_def ips_render_snoc)
  then show ?case using Cons.IH [of "chart\<lparr>ic_groups := chart_of scale (ips_calculateDimension w h) (ds0 @ [d])\<rparr>" "ds0 @ [d]"] Cons.prems
    by simp
qed simp

definition group_shows :: "scaling \<Rightarrow> js_num \<Rightarrow> js_num \<Rightarrow> (ips_data \<Rightarrow> js_num list) \<Rightarrow> rat \<Rightarrow> ips_data list \<Rightarrow> ips_bar list \<Rightarrow> bool" where
  \<comment> \<open>a bar for each interval that some update had, placed by the first of these updates and as high as the last of them says\<close>
  "group_shows scale w h sel off ds bars \<longleftrightarrow>
     (\<forall>i. i < length bars \<longleftrightarrow> (\<exists>d \<in> set ds. i < length (sel d))) \<and>
     (\<forall>i < length bars. \<exists>first last.
        find (\<lambda>d. i < length (sel d)) ds = Some first \<and> find (\<lambda>d. i < length (sel d)) (rev ds) = Some last \<and>
        ib_x (bars ! i) = scale (ips_xScale (ips_calculateDimension w h first) first) (of_nat_num i + Num off) \<and>
        ib_width (bars ! i) = w / of_nat_num (length (ips_CompleteCount first)) * Num (3 / 10) \<and>
        ib_height (bars ! i) = h - 50 - 5 - scale (ips_yScale (ips_calculateDimension w h last) last) (sel last ! i))"

lemma shown_interval: "group_shows scale w h sel off ds bars \<Longrightarrow> i < length bars \<longleftrightarrow> (\<exists>d \<in> set ds. i < length (sel d))"
  unfolding group_shows_def by blast

lemma bars_after_shows: "group_shows scale w h sel off ds (bars_after scale (ips_calculateDimension w h) sel off ds)"
proof -
  let ?dims = "ips_calculateDimension w h"
  have dims: "ips_barWidth (?dims d) = w / of_nat_num (length (ips_CompleteCount d))" "ips_barRegionHeight (?dims d) = h - 50 - 5" for d
    by (simp_all add: ips_calculateDimension_def)
  show ?thesis unfolding group_shows_def bars_after_length
    using bars_after_place [of _ scale ?dims sel off ds] bars_after_height [of _ scale ?dims sel off ds]
    unfolding dims bars_after_length by blast
qed

text \<open>
  The instruction chart after any number of updates, on a canvas of constant size: it has one group
  for the started and one for the completed instructions, with a bar for each interval that some
  update had, placed by the first and as high as the last of these updates; and it has one pair of
  axes for every update, because the selection of an axis never finds the one that is there.
\<close>

theorem ips_chart_updates:
  assumes "ic_canvas chart = Some (w, h)" "ic_groups chart = []" "ds \<noteq> []"
  shows "\<exists>chart' starts completes. ips_updates scale ds chart = Inr chart' \<and>
    map sg_class (ic_groups chart') = [''start-bar-group'', ''complete-bar-group''] @ concat (map (\<lambda>_. [''y-axis'', ''x-axis'']) ds) \<and>
    starts = sg_bars (ic_groups chart' ! 0) \<and> group_shows scale w h ips_StartCount 0 ds starts \<and>
    completes = sg_bars (ic_groups chart' ! 1) \<and> group_shows scale w h ips_CompleteCount (35 / 100) ds completes"
proof -
  let ?dims = "ips_calculateDimension w h"
  have "map sg_class (concat (map (axes_of ?dims) ds)) = concat (map (\<lambda>_. [''y-axis'', ''x-axis'']) ds)"
    by (induction ds) (simp_all add: axes_of_def)
  moreover have "ips_updates scale ds chart = Inr (chart\<lparr>ic_groups := chart_of scale ?dims ds\<rparr>)"
    using ips_updates_eq [OF assms(1), of scale "[]" ds] assms(2) by (simp add: chart_of_def)
  ultimately show ?thesis using assms(3)
      bars_after_shows [of scale w h ips_StartCount 0 ds] bars_after_shows [of scale w h ips_CompleteCount "35 / 100" ds]
    by (simp add: chart_of_def)
qed

definition sample_ips :: "ips_data" where
  "sample_ips = \<lparr> ips_StartCount = [1, 2], ips_CompleteCount = [2, 1], ips_Start = 0, ips_End = 10 \<rparr>"

definition sample_chart :: "ips_chart" where
  "sample_chart = \<lparr> ic_canvas = Some (Num 400, Num 200), ic_groups = [] \<rparr>"

theorem ips_chart_updates_witness:
  "\<exists>chart'. ips_updates lerp [sample_ips, sample_ips] sample_chart = Inr chart' \<and> length (ic_groups chart') = 6"
proof -
  have "ic_canvas sample_chart = Some (Num 400, Num 200)" "ic_groups sample_chart = []" "[sample_ips, sample_ips] \<noteq> []"
    by (simp_all add: sample_chart_def)
  from ips_chart_updates [OF this, of lerp] obtain chart' where
    c: "ips_updates lerp [sample_ips, sample_ips] sample_chart = Inr chart'"
      "map sg_class (ic_groups chart') = [''start-bar-group'', ''complete-bar-group''] @ concat (map (\<lambda>_. [''y-axis'', ''x-axis'']) [sample_ips, sample_ips])"
    by blast
  from arg_cong [OF c(2), of length] have "length (ic_groups chart') = 6" by simp
  with c(1) show ?thesis by blast
qed

lemma bar_place:
  assumes "linear_scale scale" "group_shows scale (Num W) h sel off ds bars" "i < length bars"
    and "\<forall>d \<in> set ds. length (ips_CompleteCount d) = n" "0 < n"
  shows "ib_x (bars ! i) = Num (40 + (of_nat i + off) / of_nat n * (W - 45))" "ib_width (bars ! i) = Num (W / of_nat n * (3 / 10))"
proof -
  obtain d where d: "find (\<lambda>d. i < length (sel d)) ds = Some d"
    "ib_x (bars ! i) = scale (ips_xScale (ips_calculateDimension (Num W) h d) d) (of_nat_num i + Num off)"
    "ib_width (bars ! i) = Num W / of_nat_num (length (ips_CompleteCount d)) * Num (3 / 10)"
    using assms(2,3) unfolding group_shows_def by blast
  have n: "length (ips_CompleteCount d) = n" using d(1) assms(4) by (auto simp: find_Some_iff)
  let ?s = "\<lparr>domain_from = Num 0, domain_to = Num (of_nat n), range_from = Num 40, range_to = Num (40 + (W - 45))\<rparr>"
  have "scale ?s (Num (of_nat i + off)) = Num (40 + (of_nat i + off) / of_nat n * (W - 45))"
    using linear_scaleD [OF assms(1), of 0 "of_nat n" 40 "40 + (W - 45)"] assms(5) by simp
  then show "ib_x (bars ! i) = Num (40 + (of_nat i + off) / of_nat n * (W - 45))"
    by (simp add: d(2) n ips_xScale_def ips_calculateDimension_def js_num_simps)
  show "ib_width (bars ! i) = Num (W / of_nat n * (3 / 10))" using assms(5) by (simp add: d(3) n js_num_simps)
qed

text \<open>
  The bars of the instruction chart do not cover each other while the number of intervals stays the
  same: on a canvas at least 315 pixels wide, after any updates, the bar for the started instructions of an
  interval ends before the bar for the completed ones begins, that bar ends before the next
  interval, and the last bar ends inside the frame.
\<close>

theorem ips_bars_apart:
  assumes "linear_scale scale" "ic_canvas chart = Some (Num W, h)" "ic_groups chart = []" "ds \<noteq> []"
    and "\<forall>d \<in> set ds. length (ips_StartCount d) = n \<and> length (ips_CompleteCount d) = n" "315 \<le> W" "i < n"
    and "ips_updates scale ds chart = Inr chart'"
    and "starts = sg_bars (ic_groups chart' ! 0)" "completes = sg_bars (ic_groups chart' ! 1)"
  shows "ib_x (starts ! i) + ib_width (starts ! i) \<le> ib_x (completes ! i) \<and>
    (Suc i < n \<longrightarrow> ib_x (completes ! i) + ib_width (completes ! i) \<le> ib_x (starts ! Suc i)) \<and>
    ib_x (completes ! i) + ib_width (completes ! i) \<le> Num (W - 5)"
proof -
  let ?n = "of_nat n :: rat" and ?dims = "ips_calculateDimension (Num W) h"
  have n: "0 < ?n" "0 < n" using assms(7) by simp_all
  have "ips_updates scale ds chart = Inr (chart\<lparr>ic_groups := chart_of scale ?dims ds\<rparr>)"
    using ips_updates_eq [OF assms(2), of scale "[]" ds] assms(3) by (simp add: chart_of_def)
  then have bars: "group_shows scale (Num W) h ips_StartCount 0 ds starts" "group_shows scale (Num W) h ips_CompleteCount (35 / 100) ds completes"
    using assms(4,8-10) bars_after_shows [of scale "Num W" h ips_StartCount 0 ds]
      bars_after_shows [of scale "Num W" h ips_CompleteCount "35 / 100" ds] by (auto simp: chart_of_def)
  obtain d where "d \<in> set ds" using assms(4) by (cases ds) auto
  then have len: "k < length starts" "k < length completes" if "k < n" for k
    using that assms(5) by (auto simp: shown_interval [OF bars(1)] shown_interval [OF bars(2)])
  have same: "\<forall>d \<in> set ds. length (ips_CompleteCount d) = n" using assms(5) by blast
  note at = bar_place [OF assms(1) bars(1) len(1) same n(2)] bar_place [OF assms(1) bars(2) len(2) same n(2)]
  have gap: "W * (3 / 10) \<le> 35 / 100 * (W - 45)" "W * (3 / 10) \<le> 65 / 100 * (W - 45)" using assms(6) by simp_all
  have one: "(of_nat i + 0) * (W - 45) + W * (3 / 10) \<le> (of_nat i + 35 / 100) * (W - 45)"
    and two: "(of_nat i + 35 / 100) * (W - 45) + W * (3 / 10) \<le> (1 + of_nat i) * (W - 45)"
    using gap by (simp_all add: field_simps)
  have three: "(1 + of_nat i) * (W - 45) \<le> ?n * (W - 45)"
    using assms(6,7) by (intro mult_right_mono) simp_all
  have scaled: "40 + a / ?n * (W - 45) + W / ?n * (3 / 10) \<le> 40 + b / ?n * (W - 45)"
    if "a * (W - 45) + W * (3 / 10) \<le> b * (W - 45)" for a b
    using divide_right_mono [OF that, of ?n] n(1) by (simp add: add_divide_distrib)
  have "ib_x (starts ! i) + ib_width (starts ! i) \<le> ib_x (completes ! i)"
    using at(1,2) [of i] at(3) [of i] assms(7) scaled [OF one] by simp
  moreover have "ib_x (completes ! i) + ib_width (completes ! i) \<le> ib_x (starts ! Suc i)" if "Suc i < n"
    using at(1) [of "Suc i"] at(3,4) [of i] assms(7) scaled [OF two] that by simp
  moreover have "ib_x (completes ! i) + ib_width (completes ! i) \<le> Num (W - 5)"
    using at(3,4) [of i] assms(7) scaled [OF order_trans [OF two three]] n(1) by simp
  ultimately show ?thesis by blast
qed

theorem ips_bars_apart_witness:
  "\<exists>chart'. ips_updates lerp [sample_ips, sample_ips] sample_chart = Inr chart' \<and>
     ib_x (sg_bars (ic_groups chart' ! 0) ! 0) + ib_width (sg_bars (ic_groups chart' ! 0) ! 0) \<le> ib_x (sg_bars (ic_groups chart' ! 1) ! 0)"
proof -
  have c: "ic_canvas sample_chart = Some (Num 400, Num 200)" "ic_groups sample_chart = []" by (simp_all add: sample_chart_def)
  obtain chart' where run: "ips_updates lerp [sample_ips, sample_ips] sample_chart = Inr chart'"
    using ips_updates_eq [OF c(1), of lerp "[]" "[sample_ips, sample_ips]"] c(2) by (simp add: chart_of_def)
  have "\<forall>d \<in> set [sample_ips, sample_ips]. length (ips_StartCount d) = 2 \<and> length (ips_CompleteCount d) = 2"
    by (simp add: sample_ips_def)
  from ips_bars_apart [OF linear_lerp c _ this _ _ run refl refl, of 0] run show ?thesis by simp
qed

end
