(* ===== verification/Widget.thy ===== *)
theory Widget
  imports Task_View Mouse_Events
begin

text \<open>
  \<open>daisen/static/src/widget.ts\<close>: one chart of the dashboard, with a primary and a secondary
  curve over a common time axis.  The widget draws with d3 scales, which are applied by the
  argument \<open>scale\<close>; the requests it sends are returned to the dashboard that owns it.
\<close>

subsection \<open>State\<close>

record axis_data =
  ad_info_type :: string
  ad_points :: "(js_num \<times> js_num) list" \<comment> \<open>time and value\<close>

record curve =
  cu_points :: "(js_num \<times> js_num) list" \<comment> \<open>the centres of the circles\<close>
  cu_color :: string

datatype info_request =
  CompInfo string string js_num js_num nat \<comment> \<open>\<open>info_type\<close>, \<open>where\<close>, \<open>start_time\<close>, \<open>end_time\<close>, \<open>num_dots\<close>\<close>

record widget =
  wg_componentName :: string
  wg_numDots :: nat
  wg_startTime :: js_num
  wg_endTime :: js_num
  wg_primaryAxis :: string
  wg_secondaryAxis :: string
  wg_primaryAxisData :: "axis_data option"
  wg_secondaryAxisData :: "axis_data option"
  wg_widgetHeight :: js_num
  wg_widgetWidth :: js_num
  wg_yAxisWidth :: js_num
  wg_xAxisHeight :: js_num
  wg_graphWidth :: js_num
  wg_graphHeight :: js_num
  wg_graphContentWidth :: js_num
  wg_graphContentHeight :: js_num
  wg_titleHeight :: js_num
  wg_graphPaddingTop :: js_num
  wg_xScale :: "lin_scale option"
  wg_primaryYScale :: "lin_scale option"
  wg_secondaryYScale :: "lin_scale option"
  wg_divSize :: "js_num \<times> js_num" \<comment> \<open>the style of the \<open>div\<close>\<close>
  wg_xAxis :: "(lin_scale option \<times> js_num \<times> js_num) option" \<comment> \<open>the bottom axis: scale, left, top\<close>
  wg_yAxes :: "(bool, lin_scale option \<times> js_num) js_map" \<comment> \<open>the axes, \<open>True\<close> is the right one\<close>
  wg_curves :: "(string, curve) js_map" \<comment> \<open>the curves by their class name\<close>

definition new_widget :: "string \<Rightarrow> widget" where
  "new_widget name =
     \<lparr> wg_componentName = name, wg_numDots = 40, wg_startTime = 0, wg_endTime = 0,
       wg_primaryAxis = ''ReqInCount'', wg_secondaryAxis = ''AvgLatency'', wg_primaryAxisData = None,
       wg_secondaryAxisData = None, wg_widgetHeight = 100, wg_widgetWidth = 0, wg_yAxisWidth = 55,
       wg_xAxisHeight = 30, wg_graphWidth = 0, wg_graphHeight = 100 - 20,
       wg_graphContentWidth = 0 - 2 * 55, wg_graphContentHeight = (100 - 20) - 30 - 5,
       wg_titleHeight = 20, wg_graphPaddingTop = 5, wg_xScale = None, wg_primaryYScale = None,
       wg_secondaryYScale = None, wg_divSize = (Undef, Undef), wg_xAxis = None, wg_yAxes = [], wg_curves = [] \<rparr>"

subsection \<open>Scales and curves\<close>

definition wg_time_scale :: "widget \<Rightarrow> lin_scale" where
  "wg_time_scale w = time_scale (wg_startTime w) (wg_endTime w) (wg_graphContentWidth w)"

definition setXAxis :: "js_num \<Rightarrow> js_num \<Rightarrow> widget \<Rightarrow> widget" where
  "setXAxis s e w =
     (let w1 = w\<lparr>wg_startTime := s, wg_endTime := e\<rparr> in w1\<lparr>wg_xScale := Some (wg_time_scale w1)\<rparr>)"

fun max_value_of :: "js_num \<Rightarrow> (js_num \<times> js_num) list \<Rightarrow> js_num" where
  "max_value_of mx [] = mx"
| "max_value_of mx ((_, v) # ps) = max_value_of (if v > mx then v else mx) ps"

definition calculateYScale :: "widget \<Rightarrow> axis_data \<Rightarrow> lin_scale" where
  "calculateYScale w d = \<lparr>domain_from = 0, domain_to = max_value_of 0 (ad_points d),
     range_from = wg_graphContentHeight w, range_to = 0\<rparr>"

definition setWidgetWidth :: "js_num \<Rightarrow> widget \<Rightarrow> widget" where
  "setWidgetWidth width w =
     (let ww = width - 8;
          w1 = w\<lparr>wg_divSize := (width, snd (wg_divSize w)), wg_widgetWidth := ww, wg_graphWidth := ww,
                 wg_graphContentWidth := ww - 2 * wg_yAxisWidth w\<rparr>
      in w1\<lparr>wg_xScale := Some (wg_time_scale w1)\<rparr>)"

definition setWidgetHeight :: "js_num \<Rightarrow> widget \<Rightarrow> widget" where
  "setWidgetHeight height w =
     (let wh = height - 14;
          gh = wh - wg_titleHeight w;
          w1 = w\<lparr>wg_divSize := (fst (wg_divSize w), height), wg_widgetHeight := wh, wg_graphHeight := gh,
                 wg_graphContentHeight := gh - wg_xAxisHeight w - wg_graphPaddingTop w\<rparr>;
          w2 = (case wg_primaryAxisData w1 of None \<Rightarrow> w1
                | Some d \<Rightarrow> w1\<lparr>wg_primaryYScale := Some (calculateYScale w1 d)\<rparr>)
      in case wg_secondaryAxisData w2 of None \<Rightarrow> w2
         | Some d \<Rightarrow> w2\<lparr>wg_secondaryYScale := Some (calculateYScale w2 d)\<rparr>)"

definition renderXAxis :: "widget \<Rightarrow> widget" where
  \<comment> \<open>\<open>_renderXAxis\<close> and \<open>_drawXAxis\<close>\<close>
  "renderXAxis w = w\<lparr>wg_xAxis := Some (wg_xScale w, wg_yAxisWidth w,
     wg_widgetHeight w - wg_titleHeight w - wg_xAxisHeight w)\<rparr>"

definition drawYAxis :: "lin_scale option \<Rightarrow> bool \<Rightarrow> widget \<Rightarrow> widget" where
  "drawYAxis yScale isSecondary w =
     (let xOffset = (if isSecondary then wg_yAxisWidth w + wg_graphContentWidth w else wg_yAxisWidth w)
      in w\<lparr>wg_yAxes := map_set isSecondary (yScale, xOffset) (wg_yAxes w)\<rparr>)"

definition isPrimaryAxisSkipped :: "widget \<Rightarrow> bool" where
  "isPrimaryAxisSkipped w \<longleftrightarrow> wg_primaryAxis w = ''-''"

definition isSecondaryAxisSkipped :: "widget \<Rightarrow> bool" where
  "isSecondaryAxisSkipped w \<longleftrightarrow> wg_secondaryAxis w = ''-''"

definition curve_point :: "scaling \<Rightarrow> widget \<Rightarrow> lin_scale \<Rightarrow> lin_scale \<Rightarrow> js_num \<times> js_num \<Rightarrow> js_num \<times> js_num" where
  "curve_point scale w xs ys = (\<lambda>(t, v). (wg_yAxisWidth w + scale xs t, wg_graphPaddingTop w + scale ys v))"

definition renderDataCurve ::
    "scaling \<Rightarrow> axis_data option \<Rightarrow> lin_scale option \<Rightarrow> bool \<Rightarrow> widget \<Rightarrow> widget js_result" where
  \<comment> \<open>without data, or with points but without a scale, the function raises\<close>
  "renderDataCurve scale dat yScale isSecondary w =
     (case dat of
        None \<Rightarrow> Inl TypeError
      | Some d \<Rightarrow>
          let color = (if isSecondary then ''#2c7bb6'' else ''#d7191c'');
              cls = ''curve-'' @ ad_info_type d
          in (case (wg_xScale w, yScale) of
                (Some xs, Some ys) \<Rightarrow>
                  Inr (w\<lparr>wg_curves := map_set cls
                    \<lparr> cu_points = map (curve_point scale w xs ys) (ad_points d), cu_color = color \<rparr> (wg_curves w)\<rparr>)
              | _ \<Rightarrow> if ad_points d = []
                     then Inr (w\<lparr>wg_curves := map_set cls \<lparr> cu_points = [], cu_color = color \<rparr> (wg_curves w)\<rparr>)
                     else Inl TypeError))"

subsection \<open>Operations\<close>

definition redraw_curves :: "scaling \<Rightarrow> bool \<Rightarrow> widget \<Rightarrow> widget js_result" where
  \<comment> \<open>the two guarded blocks that \<open>resize\<close> and \<open>temporaryTimeShift\<close> share; \<open>resize\<close> also draws
     the axes\<close>
  "redraw_curves scale axes w =
     bind_result
       (if isPrimaryAxisSkipped w then Inr w
        else bind_result (renderDataCurve scale (wg_primaryAxisData w) (wg_primaryYScale w) False w)
               (\<lambda>w'. Inr (if axes then drawYAxis (wg_primaryYScale w') False w' else w')))
       (\<lambda>w1. if isSecondaryAxisSkipped w1 then Inr w1
        else bind_result (renderDataCurve scale (wg_secondaryAxisData w1) (wg_secondaryYScale w1) True w1)
               (\<lambda>w'. Inr (if axes then drawYAxis (wg_secondaryYScale w') True w' else w')))"

definition resize :: "scaling \<Rightarrow> js_num \<Rightarrow> js_num \<Rightarrow> widget \<Rightarrow> widget js_result" where
  "resize scale width height w =
     redraw_curves scale True (renderXAxis (setWidgetHeight height (setWidgetWidth width w)))"

definition wg_getAxisStatus :: "widget \<Rightarrow> js_num \<times> js_num \<times> js_num \<times> js_num" where
  "wg_getAxisStatus w = (wg_startTime w, wg_endTime w, 0, wg_widgetWidth w)"

definition wg_temporaryTimeShift :: "scaling \<Rightarrow> js_num \<Rightarrow> js_num \<Rightarrow> widget \<Rightarrow> widget js_result" where
  "wg_temporaryTimeShift scale s e w = redraw_curves scale False (renderXAxis (setXAxis s e w))"

definition setFirstAxis :: "string \<Rightarrow> widget \<Rightarrow> widget" where
  "setFirstAxis name w = w\<lparr>wg_primaryAxis := name\<rparr>"

definition setSecondAxis :: "string \<Rightarrow> widget \<Rightarrow> widget" where
  "setSecondAxis name w = w\<lparr>wg_secondaryAxis := name\<rparr>"

definition createWidget :: "js_num \<Rightarrow> js_num \<Rightarrow> widget \<Rightarrow> widget" where
  "createWidget width height w = setWidgetHeight height (setWidgetWidth width w)"

definition axis_request :: "bool \<Rightarrow> widget \<Rightarrow> info_request" where
  \<comment> \<open>the request of \<open>_fetchAndRenderAxisData\<close>\<close>
  "axis_request isSecondary w =
     CompInfo (if isSecondary then wg_secondaryAxis w else wg_primaryAxis w) (wg_componentName w)
       (wg_startTime w) (wg_endTime w) (wg_numDots w)"

definition wg_render :: "bool \<Rightarrow> widget \<Rightarrow> widget \<times> info_request list" where
  \<comment> \<open>a reset empties the \<open>div\<close> and with it the drawing\<close>
  "wg_render reset w =
     (let w1 = (if reset then w\<lparr>wg_xAxis := None, wg_yAxes := [], wg_curves := []\<rparr> else w)
      in (renderXAxis w1, [axis_request True w1, axis_request False w1]))"

definition renderAxisData :: "scaling \<Rightarrow> axis_data \<Rightarrow> bool \<Rightarrow> widget \<Rightarrow> widget js_result" where
  \<comment> \<open>the response: the data is kept, the scale is computed and the curve is drawn\<close>
  "renderAxisData scale rsp isSecondary w =
     (let w1 = (if isSecondary then w\<lparr>wg_secondaryAxisData := Some rsp\<rparr> else w\<lparr>wg_primaryAxisData := Some rsp\<rparr>);
          ys = calculateYScale w1 rsp;
          w2 = (if isSecondary then w1\<lparr>wg_secondaryYScale := Some ys\<rparr> else w1\<lparr>wg_primaryYScale := Some ys\<rparr>)
      in renderDataCurve scale (Some rsp) (Some ys) isSecondary (drawYAxis (Some ys) isSecondary w2))"

subsection \<open>Widgets whose data has arrived\<close>

definition widget_ready :: "widget \<Rightarrow> bool" where
  \<comment> \<open>the time scale is that of the time range, and every axis that is shown has data and a scale\<close>
  "widget_ready w \<longleftrightarrow>
     wg_xScale w = Some (wg_time_scale w) \<and>
     (isPrimaryAxisSkipped w \<or> wg_primaryAxisData w \<noteq> None \<and> wg_primaryYScale w \<noteq> None) \<and>
     (isSecondaryAxisSkipped w \<or> wg_secondaryAxisData w \<noteq> None \<and> wg_secondaryYScale w \<noteq> None)"

lemma widget_ready_drawing [simp]:
  "widget_ready (w\<lparr>wg_curves := c\<rparr>) = widget_ready w" "widget_ready (w\<lparr>wg_yAxes := y\<rparr>) = widget_ready w"
  "widget_ready (w\<lparr>wg_xAxis := x\<rparr>) = widget_ready w"
  by (simp_all add: widget_ready_def isPrimaryAxisSkipped_def isSecondaryAxisSkipped_def wg_time_scale_def)

lemma renderDataCurve_total:
  assumes "wg_xScale w \<noteq> None" "dat \<noteq> None" "ys \<noteq> None"
  shows "\<exists>c. renderDataCurve scale dat ys b w = Inr (w\<lparr>wg_curves := c\<rparr>)"
  using assms by (auto simp: renderDataCurve_def)

lemma redraw_ready:
  assumes "widget_ready w"
  shows "\<exists>c y. redraw_curves scale axes w = Inr (w\<lparr>wg_curves := c, wg_yAxes := y\<rparr>)"
proof -
  have xs: "wg_xScale w \<noteq> None" using assms by (simp add: widget_ready_def)
  have first: "\<exists>c y. (if isPrimaryAxisSkipped w then Inr w
        else bind_result (renderDataCurve scale (wg_primaryAxisData w) (wg_primaryYScale w) False w)
               (\<lambda>w'. Inr (if axes then drawYAxis (wg_primaryYScale w') False w' else w'))) =
      Inr (w\<lparr>wg_curves := c, wg_yAxes := y\<rparr>)"
  proof (cases "isPrimaryAxisSkipped w")
    case True
    then show ?thesis by (intro exI [of _ "wg_curves w"] exI [of _ "wg_yAxes w"]) simp
  next
    case False
    then obtain c where "renderDataCurve scale (wg_primaryAxisData w) (wg_primaryYScale w) False w = Inr (w\<lparr>wg_curves := c\<rparr>)"
      using renderDataCurve_total [OF xs] assms by (meson widget_ready_def)
    then show ?thesis using False
      by (intro exI [of _ c] exI [of _ "if axes then wg_yAxes (drawYAxis (wg_primaryYScale w) False w) else wg_yAxes w"])
        (simp add: drawYAxis_def Let_def)
  qed
  then obtain c y where c: "(if isPrimaryAxisSkipped w then Inr w
        else bind_result (renderDataCurve scale (wg_primaryAxisData w) (wg_primaryYScale w) False w)
               (\<lambda>w'. Inr (if axes then drawYAxis (wg_primaryYScale w') False w' else w'))) =
      Inr (w\<lparr>wg_curves := c, wg_yAxes := y\<rparr>)" by blast
  let ?w = "w\<lparr>wg_curves := c, wg_yAxes := y\<rparr>"
  show ?thesis
  proof (cases "isSecondaryAxisSkipped w")
    case True
    then show ?thesis using c by (simp add: redraw_curves_def isSecondaryAxisSkipped_def) blast
  next
    case False
    then have "wg_secondaryAxisData ?w \<noteq> None" "wg_secondaryYScale ?w \<noteq> None" "wg_xScale ?w \<noteq> None"
      using assms by (auto simp: widget_ready_def)
    from renderDataCurve_total [OF this(3,1,2)] obtain d where
      "renderDataCurve scale (wg_secondaryAxisData ?w) (wg_secondaryYScale ?w) True ?w = Inr (?w\<lparr>wg_curves := d\<rparr>)"
      by blast
    then show ?thesis using c False
      by (intro exI [of _ d] exI [of _ "if axes then wg_yAxes (drawYAxis (wg_secondaryYScale w) True ?w) else y"])
        (simp add: redraw_curves_def isSecondaryAxisSkipped_def drawYAxis_def Let_def)
  qed
qed

lemma setXAxis_ready: "widget_ready w \<Longrightarrow> widget_ready (setXAxis s e w)"
  by (auto simp: widget_ready_def setXAxis_def isPrimaryAxisSkipped_def isSecondaryAxisSkipped_def
      wg_time_scale_def Let_def)

lemma temporaryTimeShift_ready:
  assumes "widget_ready w"
  shows "\<exists>w'. wg_temporaryTimeShift scale s e w = Inr w' \<and> widget_ready w' \<and>
    wg_getAxisStatus w' = (s, e, 0, wg_widgetWidth w) \<and> wg_componentName w' = wg_componentName w \<and>
    wg_primaryAxis w' = wg_primaryAxis w \<and> wg_secondaryAxis w' = wg_secondaryAxis w \<and> wg_numDots w' = wg_numDots w"
proof -
  have "widget_ready (renderXAxis (setXAxis s e w))"
    using setXAxis_ready [OF assms] by (simp add: renderXAxis_def)
  then show ?thesis
    using redraw_ready [of "renderXAxis (setXAxis s e w)" scale False]
    by (auto simp: wg_temporaryTimeShift_def wg_getAxisStatus_def renderXAxis_def setXAxis_def Let_def)
qed

subsection \<open>Properties\<close>

lemma max_value_of_Num:
  assumes "\<forall>t v. (t, v) \<in> set ps \<longrightarrow> is_finite_num v"
  shows "\<exists>b. max_value_of (Num a) ps = Num b \<and> a \<le> b \<and> (\<forall>t v. (t, v) \<in> set ps \<longrightarrow> val v \<le> b)"
  using assms
proof (induction ps arbitrary: a)
  case (Cons p ps)
  obtain t v where p: "p = (t, v)" by (cases p)
  obtain c where v: "v = Num c" using Cons.prems p by (cases v) auto
  obtain b where "max_value_of (Num (max a c)) ps = Num b" "max a c \<le> b" "\<forall>t v. (t, v) \<in> set ps \<longrightarrow> val v \<le> b"
    using Cons.IH [of "max a c"] Cons.prems by (metis list.set_intros(2))
  then show ?case by (auto simp: p v max_def split: if_splits)
qed simp

lemma curve_point_inside:
  assumes "linear_scale scale" "s < e" "0 \<le> gw" "0 \<le> gh" "0 < mx" "s \<le> a" "a \<le> e" "0 \<le> b" "b \<le> mx"
    and "wg_yAxisWidth w = Num aw" "wg_graphPaddingTop w = Num pt"
  shows "\<exists>x y. curve_point scale w
      \<lparr>domain_from = Num s, domain_to = Num e, range_from = Num 0, range_to = Num gw\<rparr>
      \<lparr>domain_from = Num 0, domain_to = Num mx, range_from = Num gh, range_to = Num 0\<rparr> (Num a, Num b) = (Num x, Num y) \<and>
    aw \<le> x \<and> x \<le> aw + gw \<and> pt \<le> y \<and> y \<le> pt + gh"
proof -
  have "scale \<lparr>domain_from = Num s, domain_to = Num e, range_from = Num 0, range_to = Num gw\<rparr> (Num a) =
      Num ((a - s) / (e - s) * gw)"
    "scale \<lparr>domain_from = Num 0, domain_to = Num mx, range_from = Num gh, range_to = Num 0\<rparr> (Num b) =
      Num (gh - b / mx * gh)"
    using linear_scaleD [OF assms(1)] assms(2,5) by simp_all
  moreover have "0 \<le> (a - s) / (e - s) * gw" using assms by simp
  moreover have "(a - s) / (e - s) * gw \<le> gw"
    using assms by (intro mult_left_le_one_le) (simp_all add: divide_le_eq)
  moreover have "0 \<le> b / mx * gh" using assms by simp
  moreover have "b / mx * gh \<le> gh"
    using assms by (intro mult_left_le_one_le) (simp_all add: divide_le_eq)
  ultimately show ?thesis using assms(10,11) by (simp add: curve_point_def)
qed

text \<open>
  A response is drawn inside the frame of the chart: every circle of the curve lies between
  the two vertical axes and between the top padding and the time axis, for points whose times
  are in the range of the widget and whose values are not negative.
\<close>

theorem widget_curve_inside:
  assumes "linear_scale scale" "wg_xScale w = Some (wg_time_scale w)"
    and "wg_startTime w = Num s" "wg_endTime w = Num e" "s < e"
    and "wg_graphContentWidth w = Num gw" "0 \<le> gw" "wg_graphContentHeight w = Num gh" "0 \<le> gh"
    and "wg_yAxisWidth w = Num aw" "wg_graphPaddingTop w = Num pt"
    and "\<forall>(t, v) \<in> set (ad_points d). \<exists>a b. t = Num a \<and> v = Num b \<and> s \<le> a \<and> a \<le> e \<and> 0 \<le> b"
    and "\<exists>(t, v) \<in> set (ad_points d). v \<noteq> 0"
  shows "\<exists>w' c. renderAxisData scale d isSecondary w = Inr w' \<and>
    map_get (wg_curves w') (''curve-'' @ ad_info_type d) = Some c \<and> length (cu_points c) = length (ad_points d) \<and>
    (\<forall>(cx, cy) \<in> set (cu_points c). \<exists>x y. cx = Num x \<and> cy = Num y \<and>
       aw \<le> x \<and> x \<le> aw + gw \<and> pt \<le> y \<and> y \<le> pt + gh)"
proof -
  let ?ps = "ad_points d"
  have pt: "\<exists>a b. t = Num a \<and> v = Num b \<and> s \<le> a \<and> a \<le> e \<and> 0 \<le> b" if "(t, v) \<in> set ?ps" for t v
    using assms(12) that by blast
  have "\<forall>t v. (t, v) \<in> set ?ps \<longrightarrow> is_finite_num v" using pt by fastforce
  from max_value_of_Num [OF this, of 0] obtain mx where mx: "max_value_of (Num 0) ?ps = Num mx" "0 \<le> mx"
    "\<And>t v. (t, v) \<in> set ?ps \<Longrightarrow> val v \<le> mx" by blast
  obtain t0 v0 where p0: "(t0, v0) \<in> set ?ps" "v0 \<noteq> 0" using assms(13) by blast
  have "0 < mx" using mx(3) [OF p0(1)] pt [OF p0(1)] p0(2) by (auto simp: js_num_simps)
  define xs where "xs = wg_time_scale w"
  define ys where "ys = calculateYScale w d"
  have scales: "xs = \<lparr>domain_from = Num s, domain_to = Num e, range_from = Num 0, range_to = Num gw\<rparr>"
    "ys = \<lparr>domain_from = Num 0, domain_to = Num mx, range_from = Num gh, range_to = Num 0\<rparr>"
    using assms mx(1) by (simp_all add: xs_def ys_def wg_time_scale_def time_scale_def calculateYScale_def js_num_simps)
  let ?c = "\<lparr> cu_points = map (curve_point scale w xs ys) ?ps, cu_color = (if isSecondary then ''#2c7bb6'' else ''#d7191c'') \<rparr>"
  define w0 where "w0 = (if isSecondary then w\<lparr>wg_secondaryAxisData := Some d, wg_secondaryYScale := Some ys\<rparr>
    else w\<lparr>wg_primaryAxisData := Some d, wg_primaryYScale := Some ys\<rparr>)"
  have w0: "wg_xScale (drawYAxis (Some ys) isSecondary w0) = Some xs"
    "curve_point scale (drawYAxis (Some ys) isSecondary w0) = curve_point scale w"
    using assms(2) by (auto simp: w0_def drawYAxis_def xs_def curve_point_def Let_def fun_eq_iff)
  have "renderAxisData scale d isSecondary w =
      renderDataCurve scale (Some d) (Some ys) isSecondary (drawYAxis (Some ys) isSecondary w0)"
    by (simp add: renderAxisData_def w0_def ys_def calculateYScale_def Let_def)
  then obtain w' where run: "renderAxisData scale d isSecondary w = Inr w'"
    "map_get (wg_curves w') (''curve-'' @ ad_info_type d) = Some ?c"
    using w0 by (auto simp: renderDataCurve_def Let_def jm.get_put)
  have inside: "\<exists>x y. curve_point scale w xs ys (t, v) = (Num x, Num y) \<and> aw \<le> x \<and> x \<le> aw + gw \<and> pt \<le> y \<and> y \<le> pt + gh"
    if tv: "(t, v) \<in> set ?ps" for t v
    using pt [OF tv] mx(3) [OF tv] assms \<open>0 < mx\<close> unfolding scales
    by (auto intro!: curve_point_inside)
  have "\<forall>(cx, cy) \<in> set (cu_points ?c). \<exists>x y. cx = Num x \<and> cy = Num y \<and>
       aw \<le> x \<and> x \<le> aw + gw \<and> pt \<le> y \<and> y \<le> pt + gh"
    using inside by fastforce
  then show ?thesis using run by (intro exI [of _ w'] exI [of _ ?c]) simp
qed

definition sample_widget :: widget where
  "sample_widget = setXAxis 0 10 (createWidget 300 200 (new_widget ''L2Cache''))"

definition sample_data :: axis_data where
  "sample_data = \<lparr> ad_info_type = ''ReqInCount'', ad_points = [(Num 1, Num 4), (Num 2, Num 8)] \<rparr>"

theorem widget_curve_inside_witness:
  "\<exists>w' c. renderAxisData lerp sample_data False sample_widget = Inr w' \<and>
     map_get (wg_curves w') ''curve-ReqInCount'' = Some c \<and> length (cu_points c) = 2"
proof -
  have w: "wg_xScale sample_widget = Some (wg_time_scale sample_widget)" "wg_startTime sample_widget = Num 0"
    "wg_endTime sample_widget = Num 10" "wg_graphContentWidth sample_widget = Num 182"
    "wg_graphContentHeight sample_widget = Num 131" "wg_yAxisWidth sample_widget = Num 55"
    "wg_graphPaddingTop sample_widget = Num 5"
    by (simp_all add: sample_widget_def setXAxis_def createWidget_def setWidgetHeight_def setWidgetWidth_def
        new_widget_def wg_time_scale_def Let_def js_num_simps)
  show ?thesis
    using widget_curve_inside [OF linear_lerp w(1-3) _ w(4) _ w(5) _ w(6,7), of sample_data False]
    by (fastforce simp: sample_data_def js_num_simps)
qed

end
