(* ===== verification/Dashboard.thy ===== *)
theory Dashboard
  imports Widget
begin

text \<open>
  \<open>daisen/static/src/dashboard.ts\<close>: a grid of widgets, one for each component of the
  simulation whose name matches the filter, sixteen to a page.  The engine of regular expressions
  is the argument \<open>regexp\<close>: it gives the search of a pattern, or nothing for a pattern with a
  syntax error.  Numbers in the address are kept as numbers; the text of a parameter that the
  user typed is read by the argument \<open>parse\<close>.
\<close>

subsection \<open>State\<close>

datatype url_value = UText string | UNum js_num

datatype page_bar =
    EmptyBar
  | NoComponent
  | Buttons "js_num option" "(js_num \<times> bool) list" "js_num option"
    \<comment> \<open>target of the previous button, the numbered buttons with their active flag, target of the next button\<close>

record dashboard =
  db_componentNames :: "string list"
  db_filteredNames :: "string list"
  db_numWidget :: nat
  db_numRow :: nat
  db_numCol :: nat
  db_currPage :: js_num
  db_currFilter :: string
  db_primaryAxis :: string
  db_secondaryAxis :: string
  db_startTime :: js_num
  db_endTime :: js_num
  db_widgets :: "widget list"
  db_offsetWidth :: js_num \<comment> \<open>the size of the canvas\<close>
  db_offsetHeight :: js_num
  db_pageBar :: page_bar
  db_url :: "(string, url_value) js_map"
  db_requests :: "info_request list"

definition new_dashboard :: "js_num \<Rightarrow> js_num \<Rightarrow> (string, url_value) js_map \<Rightarrow> dashboard" where
  "new_dashboard cw ch url =
     \<lparr> db_componentNames = [], db_filteredNames = [], db_numWidget = 16, db_numRow = 4, db_numCol = 4,
       db_currPage = Undef, db_currFilter = [], db_primaryAxis = [], db_secondaryAxis = [],
       db_startTime = Undef, db_endTime = Undef, db_widgets = [], db_offsetWidth = cw, db_offsetHeight = ch,
       db_pageBar = EmptyBar, db_url = url, db_requests = [] \<rparr>"

subsection \<open>The grid\<close>

definition rowColTable :: "(nat \<times> nat) list" where
  "rowColTable =
     [(0, 0), (1, 1), (2, 1), (2, 2), (2, 2), (2, 3), (2, 3), (3, 3), (3, 3), (3, 3), (3, 4), (3, 4),
      (3, 4), (4, 4), (4, 4), (4, 4), (4, 4)]"

definition resetNumRowCol :: "dashboard \<Rightarrow> dashboard" where
  \<comment> \<open>the number of widgets is at most 16, an index of the table\<close>
  "resetNumRowCol d = d\<lparr>db_numRow := fst (rowColTable ! db_numWidget d), db_numCol := snd (rowColTable ! db_numWidget d)\<rparr>"

definition widgetWidth :: "dashboard \<Rightarrow> js_num" where
  \<comment> \<open>reads the columns that \<open>_resetNumRowCol\<close> has just set\<close>
  "widgetWidth d =
     (let numCol = db_numCol (resetNumRowCol d);
          gapSpace = of_nat_num (numCol + 1) * 5
      in js_floor ((db_offsetWidth d - gapSpace) / of_nat_num numCol))"

definition widgetHeight :: "dashboard \<Rightarrow> js_num" where
  \<comment> \<open>the gaps are counted by columns here too\<close>
  "widgetHeight d =
     (let numCol = db_numCol (resetNumRowCol d); numRow = db_numRow (resetNumRowCol d);
          gapSpace = of_nat_num (numCol + 1) * 5
      in js_floor ((db_offsetHeight d - gapSpace) / of_nat_num numRow))"

fun each_widget :: "(widget \<Rightarrow> widget js_result) \<Rightarrow> widget list \<Rightarrow> widget list js_result" where
  "each_widget f [] = Inr []"
| "each_widget f (w # ws) = bind_result (f w) (\<lambda>w'. bind_result (each_widget f ws) (\<lambda>ws'. Inr (w' # ws')))"

definition db_resize :: "scaling \<Rightarrow> dashboard \<Rightarrow> dashboard js_result" where
  "db_resize scale d =
     (let d1 = resetNumRowCol d
      in bind_result (each_widget (resize scale (widgetWidth d1) (widgetHeight d1)) (db_widgets d1))
           (\<lambda>ws. Inr (d1\<lparr>db_widgets := ws\<rparr>)))"

subsection \<open>The time range\<close>

definition shift_and_render :: "scaling \<Rightarrow> js_num \<Rightarrow> js_num \<Rightarrow> widget \<Rightarrow> widget js_result" where
  "shift_and_render scale s e w =
     bind_result (wg_temporaryTimeShift scale s e w) (\<lambda>w'. Inr (fst (wg_render False w')))"

definition db_setTimeRange :: "scaling \<Rightarrow> js_num \<Rightarrow> js_num \<Rightarrow> dashboard \<Rightarrow> dashboard js_result" where
  "db_setTimeRange scale s e d =
     (let d1 = d\<lparr>db_startTime := s, db_endTime := e,
                 db_url := map_set ''endtime'' (UNum e) (map_set ''starttime'' (UNum s) (db_url d))\<rparr>
      in bind_result (each_widget (shift_and_render scale s e) (db_widgets d1)) (\<lambda>ws.
           Inr (d1\<lparr>db_widgets := ws,
             db_requests := db_requests d1 @ concat (map (\<lambda>w. [axis_request True w, axis_request False w]) ws)\<rparr>)))"

definition resetZoom :: "scaling \<Rightarrow> (js_num \<times> js_num) option \<Rightarrow> dashboard \<Rightarrow> dashboard js_result" where
  \<comment> \<open>the argument is the time range of the simulation task, if the server has one\<close>
  "resetZoom scale simulation d =
     (case simulation of
        Some (s, e) \<Rightarrow> db_setTimeRange scale s e d
      | None \<Rightarrow> db_setTimeRange scale 0 (Num (1 / 1000000)) d)"

definition switch_axis :: "string \<Rightarrow> (widget \<Rightarrow> widget) \<Rightarrow> string \<Rightarrow> dashboard \<Rightarrow> dashboard" where
  "switch_axis param f name d =
     (let ws = map (\<lambda>w. wg_render True (f w)) (db_widgets d)
      in d\<lparr>db_widgets := map fst ws, db_requests := db_requests d @ concat (map snd ws),
           db_url := (if db_widgets d = [] then db_url d else map_set param (UText name) (db_url d))\<rparr>)"

definition switchPrimaryAxis :: "string \<Rightarrow> dashboard \<Rightarrow> dashboard" where
  "switchPrimaryAxis name d = switch_axis ''primary_y'' (setFirstAxis name) name (d\<lparr>db_primaryAxis := name\<rparr>)"

definition switchSecondaryAxis :: "string \<Rightarrow> dashboard \<Rightarrow> dashboard" where
  "switchSecondaryAxis name d = switch_axis ''second_y'' (setSecondAxis name) name (d\<lparr>db_secondaryAxis := name\<rparr>)"

subsection \<open>Pages\<close>

definition numPages :: "dashboard \<Rightarrow> js_num" where
  "numPages d = js_ceil (of_nat_num (length (db_filteredNames d)) / of_nat_num (db_numRow d * db_numCol d))"

definition page_offset :: "js_num \<Rightarrow> js_num \<Rightarrow> js_num" where
  "page_offset currPage n =
     (let o1 = (if currPage \<le> 1 then - currPage else - 2);
          o2 = (if js_strict_eq currPage (n - 2) then - 3 else o1)
      in if js_strict_eq currPage (n - 1) then - 4 else o2)"

definition page_numbers :: "js_num \<Rightarrow> js_num \<Rightarrow> js_num list" where
  "page_numbers currPage n =
     filter (\<lambda>pageNum. \<not> (pageNum < 0 \<or> pageNum \<ge> n))
       (map (\<lambda>i. currPage + of_nat_num i + page_offset currPage n) [0..<5])"

definition addPageButtons :: "dashboard \<Rightarrow> page_bar" where
  "addPageButtons d =
     (if js_strict_eq (numPages d) 0 then NoComponent
      else Buttons (if db_currPage d > 0 then Some (db_currPage d - 1) else None)
             (map (\<lambda>p. (p, js_strict_eq p (db_currPage d))) (page_numbers (db_currPage d) (numPages d)))
             (if db_currPage d < numPages d - 1 then Some (db_currPage d + 1) else None))"

definition addPaginationControl :: "dashboard \<Rightarrow> dashboard" where
  "addPaginationControl d = d\<lparr>db_pageBar := addPageButtons d\<rparr>"

definition slice_index :: "nat \<Rightarrow> js_num \<Rightarrow> nat" where
  \<comment> \<open>how \<open>Array.prototype.slice\<close> reads an index\<close>
  "slice_index n k =
     (case k of
        Num a \<Rightarrow> (let i = (if a < 0 then \<lceil>a\<rceil> else \<lfloor>a\<rfloor>)
                  in if i < 0 then nat (int n + i) else min (nat i) n)
      | PInf \<Rightarrow> n
      | _ \<Rightarrow> 0)"

definition js_slice :: "js_num \<Rightarrow> js_num \<Rightarrow> 'a list \<Rightarrow> 'a list" where
  "js_slice a b xs = take (slice_index (length xs) b - slice_index (length xs) a) (drop (slice_index (length xs) a) xs)"

definition componentsToShow :: "dashboard \<Rightarrow> string list" where
  "componentsToShow d =
     (let startIndex = db_currPage d * of_nat_num (db_numRow d) * of_nat_num (db_numCol d);
          endIndex = startIndex + of_nat_num (db_numRow d * db_numCol d)
      in js_slice startIndex endIndex (db_filteredNames d))"

definition create_widget_for :: "dashboard \<Rightarrow> string \<Rightarrow> widget" where
  "create_widget_for d name =
     setSecondAxis (db_secondaryAxis d) (setFirstAxis (db_primaryAxis d)
       (setXAxis (db_startTime d) (db_endTime d)
         (createWidget (widgetWidth d) (widgetHeight d) (new_widget name))))"

definition renderPage :: "dashboard \<Rightarrow> dashboard" where
  "renderPage d =
     (let ws = map (\<lambda>name. wg_render True (create_widget_for d name)) (componentsToShow d);
          d1 = (if componentsToShow d = [] then d else resetNumRowCol d)
      in d1\<lparr>db_widgets := map fst ws, db_requests := db_requests d @ concat (map snd ws)\<rparr>)"

definition switchToPage :: "js_num \<Rightarrow> dashboard \<Rightarrow> dashboard" where
  "switchToPage pageNum d =
     renderPage (addPaginationControl (d\<lparr>db_currPage := pageNum, db_url := map_set ''page'' (UNum pageNum) (db_url d)\<rparr>))"

definition db_filter :: "(string \<Rightarrow> (string \<Rightarrow> bool) option) \<Rightarrow> dashboard \<Rightarrow> dashboard js_result" where
  "db_filter regexp d =
     (case (if db_currFilter d = [] then Some (db_componentNames d)
            else map_option (\<lambda>search. filter search (db_componentNames d)) (regexp (db_currFilter d))) of
        None \<Rightarrow> Inl (Throw ''SyntaxError'')
      | Some names \<Rightarrow>
          let n = (if length names > 16 then 16 else length names)
          in Inr (renderPage (addPaginationControl (resetNumRowCol (d\<lparr>db_filteredNames := names, db_numWidget := n\<rparr>)))))"

definition filter_input :: "(string \<Rightarrow> (string \<Rightarrow> bool) option) \<Rightarrow> string \<Rightarrow> dashboard \<Rightarrow> dashboard js_result" where
  \<comment> \<open>what \<open>_filterInputChage\<close> does when its time-out fires\<close>
  "filter_input regexp text d =
     db_filter regexp (d\<lparr>db_currPage := 0,
       db_url := map_set ''page'' (UNum 0) (map_set ''filter'' (UText text) (db_url d)), db_currFilter := text\<rparr>)"

definition url_number :: "(string \<Rightarrow> js_num) \<Rightarrow> url_value \<Rightarrow> js_num" where
  "url_number parse v = (case v of UNum n \<Rightarrow> n | UText s \<Rightarrow> parse s)"

definition url_text :: "(js_num \<Rightarrow> string) \<Rightarrow> url_value \<Rightarrow> string" where
  "url_text toString v = (case v of UNum n \<Rightarrow> toString n | UText s \<Rightarrow> s)"

definition getParamsFromURL ::
    "scaling \<Rightarrow> (string \<Rightarrow> js_num) \<Rightarrow> (js_num \<Rightarrow> string) \<Rightarrow> (js_num \<times> js_num) option \<Rightarrow> dashboard \<Rightarrow> dashboard js_result" where
  "getParamsFromURL scale parse toString simulation d =
     (let pageNum = (case map_get (db_url d) ''page'' of None \<Rightarrow> 0 | Some v \<Rightarrow> url_number parse v);
          text = (\<lambda>k dflt. case map_get (db_url d) k of None \<Rightarrow> dflt | Some v \<Rightarrow> url_text toString v)
      in bind_result
           (case (map_get (db_url d) ''starttime'', map_get (db_url d) ''endtime'') of
              (Some s, Some e) \<Rightarrow> db_setTimeRange scale (url_number parse s) (url_number parse e) d
            | _ \<Rightarrow> resetZoom scale simulation d)
           (\<lambda>d1. Inr (d1\<lparr>db_currPage := pageNum, db_currFilter := text ''filter'' [],
              db_primaryAxis := text ''primary_y'' ''ReqInCount'',
              db_secondaryAxis := text ''second_y'' ''AvgLatency''\<rparr>)))"

definition db_render ::
    "scaling \<Rightarrow> (string \<Rightarrow> js_num) \<Rightarrow> (js_num \<Rightarrow> string) \<Rightarrow> (string \<Rightarrow> (string \<Rightarrow> bool) option) \<Rightarrow>
     (js_num \<times> js_num) option \<Rightarrow> string list \<Rightarrow> dashboard \<Rightarrow> dashboard js_result" where
  \<comment> \<open>what \<open>render\<close> does with the two responses\<close>
  "db_render scale parse toString regexp simulation compNames d =
     (let names = sort compNames
      in bind_result (getParamsFromURL scale parse toString simulation
           (d\<lparr>db_componentNames := names, db_filteredNames := names\<rparr>)) (db_filter regexp))"

subsection \<open>The widget as a view of the mouse handler\<close>

definition with_widget :: "nat \<Rightarrow> (widget \<Rightarrow> widget js_result) \<Rightarrow> dashboard \<Rightarrow> dashboard js_result" where
  "with_widget i f d = bind_result (f (db_widgets d ! i)) (\<lambda>w. Inr (d\<lparr>db_widgets := (db_widgets d)[i := w]\<rparr>))"

definition widget_zoom :: "scaling \<Rightarrow> nat \<Rightarrow> dashboard zoom_handler" where
  \<comment> \<open>the interface as the widget at index \<open>i\<close> implements it\<close>
  "widget_zoom scale i =
     \<lparr> getAxisStatus = (\<lambda>d. wg_getAxisStatus (db_widgets d ! i)),
       temporaryTimeShift = (\<lambda>s e. with_widget i (wg_temporaryTimeShift scale s e)),
       permanentTimeShift = (\<lambda>s e d. bind_result (with_widget i (wg_temporaryTimeShift scale s e) d)
         (db_setTimeRange scale s e)) \<rparr>"

subsection \<open>The grid has room for the widgets\<close>

definition grid_ok :: "dashboard \<Rightarrow> bool" where
  \<comment> \<open>what \<open>_filter\<close> establishes\<close>
  "grid_ok d \<longleftrightarrow> db_numWidget d = min 16 (length (db_filteredNames d)) \<and>
     (db_numRow d, db_numCol d) = rowColTable ! db_numWidget d"

lemma le16_cases: "n \<le> (16 :: nat) \<Longrightarrow> n \<in> {0, 1, 2, 3, 4, 5, 6, 7, 8, 9, 10, 11, 12, 13, 14, 15, 16}"
  by simp presburger

lemma table_room:
  assumes "n \<le> 16" "rowColTable ! n = (r, c)"
  shows "n \<le> r * c" "0 < n \<Longrightarrow> 0 < r \<and> 0 < c" "n = 16 \<Longrightarrow> r = 4 \<and> c = 4"
    "n \<noteq> 2 \<Longrightarrow> r \<le> c" "n = 2 \<Longrightarrow> r = 2 \<and> c = 1" "n = 0 \<Longrightarrow> r = 0 \<and> c = 0"
  using le16_cases [OF assms(1)] assms(2) unfolding rowColTable_def by (auto simp: eval_nat_numeral)

lemma resetNumRowCol_grid: "grid_ok d \<Longrightarrow> resetNumRowCol d = d"
  by (simp add: grid_ok_def resetNumRowCol_def) (metis fst_conv snd_conv dashboard.surjective dashboard.update_convs(4,5))

lemma grid_capacity:
  assumes "grid_ok d" "db_filteredNames d \<noteq> []"
  shows "0 < db_numRow d * db_numCol d"
    "length (db_filteredNames d) \<le> 16 \<Longrightarrow> length (db_filteredNames d) \<le> db_numRow d * db_numCol d"
    "16 < length (db_filteredNames d) \<Longrightarrow> db_numRow d * db_numCol d = 16"
proof -
  have t: "rowColTable ! db_numWidget d = (db_numRow d, db_numCol d)" and n: "db_numWidget d \<le> 16"
    and pos: "0 < db_numWidget d"
    using assms by (simp_all add: grid_ok_def)
  note room = table_room [OF n t]
  show "0 < db_numRow d * db_numCol d" using room(2) [OF pos] by simp
  show "length (db_filteredNames d) \<le> db_numRow d * db_numCol d" if "length (db_filteredNames d) \<le> 16"
    using room(1) assms(1) that by (simp add: grid_ok_def)
  show "db_numRow d * db_numCol d = 16" if "16 < length (db_filteredNames d)"
    using room(3) assms(1) that by (simp add: grid_ok_def)
qed

subsection \<open>Pages cut the array\<close>

lemma slice_index_nat: "slice_index n (of_nat_num k) = min k n"
  by (simp add: slice_index_def Let_def)

lemma js_slice_nat: "js_slice (of_nat_num k) (of_nat_num (k + c)) xs = take c (drop k xs)"
proof (cases "k \<le> length xs")
  case True
  then show ?thesis by (simp add: js_slice_def slice_index_nat del: of_nat_add) (metis diff_add_inverse length_drop
    min.cobounded2 min_diff nat_add_left_cancel_le take_all_iff take_take min.commute nle_le)
qed (simp add: js_slice_def slice_index_nat del: of_nat_add)

lemma chunks_concat:
  "length xs \<le> n * c \<Longrightarrow> concat (map (\<lambda>p. take c (drop (p * c) xs)) [0..<n]) = xs"
proof (induction n arbitrary: xs)
  case (Suc n)
  have "map (\<lambda>p. take c (drop (p * c) xs)) [0..<Suc n] =
      take c xs # map (\<lambda>p. take c (drop (p * c) (drop c xs))) [0..<n]"
    by (simp only: upt_conv_Cons zero_less_Suc list.map map_Suc_upt [symmetric] map_map o_def)
      (simp add: drop_drop add.commute)
  moreover have "concat (map (\<lambda>p. take c (drop (p * c) (drop c xs))) [0..<n]) = drop c xs"
    using Suc.prems by (intro Suc.IH) (simp add: le_diff_conv add.commute)
  ultimately show ?case by simp
qed simp

lemma componentsToShow_nat:
  "componentsToShow (d\<lparr>db_currPage := of_nat_num p\<rparr>) =
     take (db_numRow d * db_numCol d) (drop (p * (db_numRow d * db_numCol d)) (db_filteredNames d))"
proof -
  have "of_nat_num p * of_nat_num (db_numRow d) * of_nat_num (db_numCol d) = of_nat_num (p * (db_numRow d * db_numCol d))"
    "of_nat_num (p * (db_numRow d * db_numCol d)) + of_nat_num (db_numRow d * db_numCol d) =
      of_nat_num (p * (db_numRow d * db_numCol d) + db_numRow d * db_numCol d)" by simp_all
  moreover have "db_currPage (d\<lparr>db_currPage := of_nat_num p\<rparr>) = of_nat_num p"
    "db_numRow (d\<lparr>db_currPage := of_nat_num p\<rparr>) = db_numRow d" "db_numCol (d\<lparr>db_currPage := of_nat_num p\<rparr>) = db_numCol d"
    "db_filteredNames (d\<lparr>db_currPage := of_nat_num p\<rparr>) = db_filteredNames d" by simp_all
  ultimately show ?thesis by (simp only: componentsToShow_def Let_def js_slice_nat)
qed

lemma numPages_nat:
  assumes "grid_ok d" "db_filteredNames d \<noteq> []"
  obtains n where "numPages d = of_nat_num n" "0 < n" "length (db_filteredNames d) \<le> n * (db_numRow d * db_numCol d)"
    "(n - 1) * (db_numRow d * db_numCol d) < length (db_filteredNames d)"
proof -
  define c where "c = db_numRow d * db_numCol d"
  define l where "l = length (db_filteredNames d)"
  define q where "q = (of_nat l / of_nat c :: rat)"
  have pos: "0 < c" "0 < l" using grid_capacity(1) [OF assms] assms(2) by (simp_all add: c_def l_def)
  then have q: "0 < q" "of_nat l = q * of_nat c" by (simp_all add: q_def)
  define n where "n = nat \<lceil>q\<rceil>"
  have n: "of_nat n = (of_int \<lceil>q\<rceil> :: rat)" "0 < n" using q(1) by (simp_all add: n_def)
  have "numPages d = of_nat_num n"
    using pos n by (simp add: numPages_def c_def [symmetric] l_def [symmetric] q_def [symmetric] del: of_nat_mult)
  moreover have "l \<le> n * c"
  proof -
    have "q \<le> of_nat n" unfolding n(1) by simp
    then have "of_nat l \<le> (of_nat (n * c) :: rat)" unfolding q(2) using pos(1) by (simp add: mult_right_mono)
    then show ?thesis by (simp only: of_nat_le_iff)
  qed
  moreover have "(n - 1) * c < l"
  proof -
    have "of_nat (n - 1) = (of_nat n - 1 :: rat)" using n(2) by (simp add: of_nat_diff)
    also have "\<dots> < q" unfolding n(1) using ceiling_correct [of q] by linarith
    finally have "of_nat ((n - 1) * c) < (of_nat l :: rat)" unfolding q(2) using pos(1) by simp
    then show ?thesis by (simp only: of_nat_less_iff)
  qed
  ultimately show thesis using that n(2) by (simp add: c_def l_def)
qed

subsection \<open>Properties of the pages\<close>

text \<open>
  (C37) Every component that passes the filter is shown on exactly one page: the pages from the
  first to the last, one after the other, are the filtered names, and none of them is empty.
\<close>

theorem dashboard_pages_partition:
  assumes "grid_ok d" "db_filteredNames d \<noteq> []"
  shows "\<exists>n. numPages d = of_nat_num n \<and> 0 < n \<and>
    concat (map (\<lambda>p. componentsToShow (d\<lparr>db_currPage := of_nat_num p\<rparr>)) [0..<n]) = db_filteredNames d \<and>
    (\<forall>p < n. componentsToShow (d\<lparr>db_currPage := of_nat_num p\<rparr>) \<noteq> [])"
proof -
  let ?c = "db_numRow d * db_numCol d"
  obtain n where n: "numPages d = of_nat_num n" "0 < n" "length (db_filteredNames d) \<le> n * ?c"
    "(n - 1) * ?c < length (db_filteredNames d)" using numPages_nat [OF assms] .
  have "componentsToShow (d\<lparr>db_currPage := of_nat_num p\<rparr>) \<noteq> []" if "p < n" for p
  proof -
    have "p * ?c \<le> (n - 1) * ?c" using that by (intro mult_right_mono) simp_all
    then have "p * ?c < length (db_filteredNames d)" using n(4) by linarith
    then show ?thesis unfolding componentsToShow_nat using grid_capacity(1) [OF assms] by simp
  qed
  then show ?thesis using n chunks_concat [OF n(3)] by (auto simp: componentsToShow_nat)
qed

definition twenty :: dashboard where
  "twenty = resetNumRowCol ((new_dashboard 1000 600 [])\<lparr>db_filteredNames := map (\<lambda>i. replicate i (CHR ''a'')) [0..<20],
     db_numWidget := 16, db_currPage := 0\<rparr>)"

lemma twenty_ok: "grid_ok twenty" "db_filteredNames twenty \<noteq> []" "length (db_filteredNames twenty) = 20"
  by (simp_all add: grid_ok_def twenty_def resetNumRowCol_def)

theorem dashboard_pages_partition_witness:
  "\<exists>n. numPages twenty = of_nat_num n \<and>
     concat (map (\<lambda>p. componentsToShow (twenty\<lparr>db_currPage := of_nat_num p\<rparr>)) [0..<n]) = db_filteredNames twenty"
  using dashboard_pages_partition [OF twenty_ok(1,2)] by blast

lemma page_offset_int:
  "page_offset (of_int_num p) (of_int_num n) =
     of_int_num (if p = n - 1 then - 4 else if p = n - 2 then - 3 else if p \<le> 1 then - p else - 2)"
proof -
  have eq: "(of_int p :: rat) = of_int n - 1 \<longleftrightarrow> p = n - 1" "(of_int p :: rat) = of_int n - 2 \<longleftrightarrow> p = n - 2"
    by (metis of_int_1 of_int_diff of_int_eq_iff, metis of_int_diff of_int_eq_iff of_int_numeral)
  show ?thesis by (simp add: page_offset_def Let_def js_strict_eq_def js_num_simps eq)
qed

lemma page_numbers_int:
  "page_numbers (of_int_num p) (of_int_num n) =
     map of_int_num (filter (\<lambda>q. 0 \<le> q \<and> q < n)
       (map (\<lambda>i. p + int i + (if p = n - 1 then - 4 else if p = n - 2 then - 3 else if p \<le> 1 then - p else - 2)) [0..<5]))"
proof -
  define ofs where "ofs = (if p = n - 1 then - 4 else if p = n - 2 then - 3 else if p \<le> 1 then - p else - 2)"
  define ys where "ys = map (\<lambda>i. p + int i + ofs) [0..<5]"
  have off: "page_offset (of_int_num p) (of_int_num n) = of_int_num ofs"
    by (simp only: page_offset_int ofs_def)
  have nums: "map (\<lambda>i. of_int_num p + of_nat_num i + page_offset (of_int_num p) (of_int_num n)) [0..<5] =
      map of_int_num ys"
    unfolding off ys_def by simp
  have "(\<not> (of_int_num q < 0 \<or> of_int_num q \<ge> of_int_num n)) = (0 \<le> q \<and> q < n)" for q
    by (auto simp: js_num_simps not_less)
  then show ?thesis
    unfolding page_numbers_def nums ofs_def [symmetric] ys_def [symmetric] filter_map o_def by (simp only:)
qed

lemma window_int:
  assumes "0 \<le> p" "p < n"
  shows "filter (\<lambda>q. 0 \<le> q \<and> q < n)
       (map (\<lambda>i. p + int i + (if p = n - 1 then - 4 else if p = n - 2 then - 3 else if p \<le> 1 then - p else - 2)) [0..<5]) =
     [max 0 (min (p - 2) (n - 5)) .. min (n - 1) (max 0 (min (p - 2) (n - 5)) + 4)]"
proof -
  have five: "[0..<5] = [0, 1, 2, 3, 4 :: nat]" by (simp add: upt_rec)
  show ?thesis using assms unfolding five
    by (auto simp: upto.simps max_def min_def)
qed

lemma map_int_upt_upto: "map int [a..<b] = [int a .. int b - 1]"
proof (induction b)
  case (Suc b)
  then show ?case using upto_rec2 [of "int a" "int b"] by (cases "a \<le> b") simp_all
qed simp

lemma window_nat:
  assumes "p < n"
  obtains lo where "[max 0 (min (int p - 2) (int n - 5)) .. min (int n - 1) (max 0 (min (int p - 2) (int n - 5)) + 4)] =
      map int [lo..<lo + min 5 n]" "lo \<le> p" "p < lo + min 5 n" "lo + min 5 n \<le> n"
proof -
  define lo where "lo = min (p - 2) (n - 5)"
  have from_lo: "max 0 (min (int p - 2) (int n - 5)) = int lo"
    by (simp add: lo_def min_def max_def) linarith
  have upto_lo: "min (int n - 1) (int lo + 4) = int (lo + min 5 n) - 1"
    using assms by (cases "5 \<le> n") (auto simp: lo_def min_def)
  show thesis
  proof (rule that [of lo])
    show "[max 0 (min (int p - 2) (int n - 5)) .. min (int n - 1) (max 0 (min (int p - 2) (int n - 5)) + 4)] =
        map int [lo..<lo + min 5 n]"
      unfolding from_lo upto_lo by (rule map_int_upt_upto [symmetric])
    show "lo \<le> p" "lo + min 5 n \<le> n" using assms unfolding lo_def min_def by (simp_all split: if_split) linarith+
    show "p < lo + min 5 n" using assms unfolding lo_def min_def by (simp split: if_split; linarith)
  qed
qed

text \<open>
  The page bar shows a window of five consecutive pages around the current one, or all pages
  when there are fewer: the current page is always among them and is the only one that is
  marked, the window never leaves the range of pages, and the arrows lead to the neighbours
  where there are any.
\<close>

theorem dashboard_page_window:
  assumes "db_currPage d = of_nat_num p" "numPages d = of_nat_num n" "p < n"
  shows "\<exists>lo. addPageButtons d = Buttons (if 0 < p then Some (of_nat_num (p - 1)) else None)
      (map (\<lambda>q. (of_nat_num q, q = p)) [lo..<lo + min 5 n])
      (if p + 1 < n then Some (of_nat_num (p + 1)) else None) \<and>
    lo \<le> p \<and> p < lo + min 5 n \<and> lo + min 5 n \<le> n"
proof -
  obtain lo where lo: "[max 0 (min (int p - 2) (int n - 5)) .. min (int n - 1) (max 0 (min (int p - 2) (int n - 5)) + 4)] =
      map int [lo..<lo + min 5 n]" "lo \<le> p" "p < lo + min 5 n" "lo + min 5 n \<le> n"
    using window_nat [OF assms(3)] .
  have "page_numbers (of_int_num (int p)) (of_int_num (int n)) = map of_int_num (map int [lo..<lo + min 5 n])"
    using page_numbers_int [of "int p" "int n"] window_int [of "int p" "int n"] assms(3) lo(1) by simp
  then have pages: "page_numbers (of_nat_num p) (of_nat_num n) = map of_nat_num [lo..<lo + min 5 n]" by simp
  have "(0 < p \<longrightarrow> of_nat p - (1 :: rat) = of_nat (p - 1)) \<and> (of_nat p < (of_nat n - 1 :: rat)) = (p + 1 < n)"
    using assms(3) by (auto simp: of_nat_diff less_diff_eq)
  then show ?thesis
    using lo(2-4) assms by (intro exI [of _ lo]) (auto simp: addPageButtons_def pages js_strict_eq_def js_num_simps)
qed

theorem dashboard_page_window_witness:
  "\<exists>lo. addPageButtons twenty = Buttons None (map (\<lambda>q. (of_nat_num q, q = 0)) [lo..<lo + 2]) (Some (of_nat_num 1))"
proof -
  have "numPages twenty = of_nat_num 2"
  proof -
    have "\<lceil>(5 / 4 :: rat)\<rceil> = 2" by (rule ceiling_unique) simp_all
    then show ?thesis by (simp add: numPages_def twenty_def resetNumRowCol_def rowColTable_def)
  qed
  moreover have "db_currPage twenty = of_nat_num 0" by (simp add: twenty_def resetNumRowCol_def js_num_simps)
  ultimately show ?thesis using dashboard_page_window [of twenty 0 2] by auto
qed




lemma empty_pages:
  assumes "db_filteredNames d = []" "db_numRow d = 0" "db_currPage d = 0"
  shows "numPages d = NaN"
    "addPageButtons d = Buttons None (map (\<lambda>i. (of_nat_num i, i = 0)) [0..<5]) None"
proof -
  have five: "[0..<5] = [0, 1, 2, 3, 4 :: nat]" by (simp add: upt_rec)
  show n: "numPages d = NaN" using assms by (simp add: numPages_def signed_inf_def)
  have "page_offset 0 NaN = 0" by (simp add: page_offset_def js_strict_eq_def js_num_simps)
  then have "page_numbers 0 NaN = map of_nat_num [0..<5]"
    unfolding page_numbers_def five by (simp add: js_num_simps)
  then show "addPageButtons d = Buttons None (map (\<lambda>i. (of_nat_num i, i = 0)) [0..<5]) None"
    using assms(3) unfolding addPageButtons_def n five by (simp add: js_strict_eq_def js_num_simps)
qed

text \<open>
  When no component passes the filter the warning is not shown: the number of pages is not a
  number, the test against zero fails, and the bar offers five pages that have no widgets.
\<close>

theorem dashboard_no_component:
  assumes "regexp f = Some (\<lambda>_. False)" "f \<noteq> []"
  shows "\<exists>d'. filter_input regexp f d = Inr d' \<and> numPages d' = NaN \<and> db_widgets d' = [] \<and>
    db_pageBar d' = Buttons None (map (\<lambda>i. (of_nat_num i, i = 0)) [0..<5]) None"
proof -
  define d0 where "d0 = resetNumRowCol (d\<lparr>db_currPage := 0, db_url := map_set ''page'' (UNum 0)
    (map_set ''filter'' (UText f) (db_url d)), db_currFilter := f, db_filteredNames := [], db_numWidget := 0\<rparr>)"
  have d0: "db_filteredNames d0 = []" "db_numRow d0 = 0" "db_currPage d0 = 0"
    by (simp_all add: d0_def resetNumRowCol_def rowColTable_def)
  have "filter_input regexp f d = Inr (renderPage (addPaginationControl d0))"
    using assms by (simp add: filter_input_def db_filter_def d0_def Let_def)
  moreover have none: "componentsToShow (addPaginationControl d0) = []"
    using d0(1) by (simp add: componentsToShow_def addPaginationControl_def js_slice_def Let_def)
  ultimately show ?thesis
    using empty_pages(2) [OF d0] none d0(1,2)
    by (simp add: renderPage_def addPaginationControl_def numPages_def signed_inf_def)
qed

theorem dashboard_no_component_witness:
  "\<exists>d'. filter_input (\<lambda>_. Some (\<lambda>_. False)) ''GPU9'' twenty = Inr d' \<and> db_pageBar d' \<noteq> NoComponent"
  using dashboard_no_component [of "\<lambda>_. Some (\<lambda>_. False)" "''GPU9''" twenty] by auto

subsection \<open>Zooming a widget\<close>

definition dashboard_ready :: "nat \<Rightarrow> dashboard \<Rightarrow> bool" where
  "dashboard_ready i d \<longleftrightarrow> i < length (db_widgets d) \<and> (\<forall>w \<in> set (db_widgets d). widget_ready w)"

lemma each_widget_total:
  assumes "\<And>w. w \<in> set ws \<Longrightarrow> \<exists>w'. f w = Inr w' \<and> P w w'"
  shows "\<exists>ws'. each_widget f ws = Inr ws' \<and> list_all2 P ws ws'"
  using assms
proof (induction ws)
  case (Cons w ws)
  obtain w' where "f w = Inr w'" "P w w'" using Cons.prems by auto
  moreover obtain ws' where "each_widget f ws = Inr ws'" "list_all2 P ws ws'" using Cons by auto
  ultimately show ?case by auto
qed simp

definition shifted :: "js_num \<Rightarrow> js_num \<Rightarrow> widget \<Rightarrow> widget \<Rightarrow> bool" where
  \<comment> \<open>the second widget is the first one with another time range\<close>
  "shifted s e w w' \<longleftrightarrow> widget_ready w' \<and> wg_getAxisStatus w' = (s, e, 0, wg_widgetWidth w) \<and>
     wg_componentName w' = wg_componentName w \<and> wg_primaryAxis w' = wg_primaryAxis w \<and>
     wg_secondaryAxis w' = wg_secondaryAxis w \<and> wg_numDots w' = wg_numDots w"

lemma shift_and_render_ready:
  assumes "widget_ready w"
  shows "\<exists>w'. shift_and_render scale s e w = Inr w' \<and> shifted s e w w'"
  using temporaryTimeShift_ready [OF assms, of scale s e]
  by (auto simp: shift_and_render_def shifted_def wg_render_def renderXAxis_def wg_getAxisStatus_def Let_def)

lemma setTimeRange_ready:
  assumes "\<forall>w \<in> set (db_widgets d). widget_ready w"
  shows "\<exists>d'. db_setTimeRange scale s e d = Inr d' \<and> list_all2 (shifted s e) (db_widgets d) (db_widgets d') \<and>
    db_startTime d' = s \<and> db_endTime d' = e \<and>
    db_requests d' = db_requests d @ concat (map (\<lambda>w. [axis_request True w, axis_request False w]) (db_widgets d'))"
proof -
  obtain ws where "each_widget (shift_and_render scale s e) (db_widgets d) = Inr ws"
    "list_all2 (shifted s e) (db_widgets d) ws"
    using each_widget_total [of "db_widgets d" "shift_and_render scale s e" "shifted s e"]
      shift_and_render_ready assms by blast
  then show ?thesis by (simp add: db_setTimeRange_def Let_def)
qed

lemma with_widget_ready:
  assumes "dashboard_ready i d"
  shows "\<exists>d' w'. with_widget i (wg_temporaryTimeShift scale s e) d = Inr d' \<and> dashboard_ready i d' \<and>
    db_widgets d' = (db_widgets d)[i := w'] \<and> shifted s e (db_widgets d ! i) w' \<and> db_requests d' = db_requests d"
proof -
  have "widget_ready (db_widgets d ! i)" using assms by (simp add: dashboard_ready_def)
  then obtain w' where w': "wg_temporaryTimeShift scale s e (db_widgets d ! i) = Inr w'" "shifted s e (db_widgets d ! i) w'"
    using temporaryTimeShift_ready [of "db_widgets d ! i" scale s e] by (auto simp: shifted_def)
  then have "dashboard_ready i (d\<lparr>db_widgets := (db_widgets d)[i := w']\<rparr>)"
    using assms by (auto simp: dashboard_ready_def shifted_def dest: set_update_subset_insert [THEN subsetD])
  with w' show ?thesis
    by (intro exI [of _ "d\<lparr>db_widgets := (db_widgets d)[i := w']\<rparr>"] exI [of _ w']) (simp add: with_widget_def)
qed

interpretation wd: zoom_view "widget_zoom scale i" "dashboard_ready i" for scale i
proof (unfold_locales, goal_cases)
  case (1 d s0 e0 l r s e)
  then obtain d' w' where "with_widget i (wg_temporaryTimeShift scale s e) d = Inr d'" "dashboard_ready i d'"
    "db_widgets d' = (db_widgets d)[i := w']" "shifted s e (db_widgets d ! i) w'"
    using with_widget_ready by blast
  then show ?case using 1 by (auto simp: widget_zoom_def dashboard_ready_def shifted_def wg_getAxisStatus_def)
next
  case (2 d s e l r)
  then obtain d1 w' where d1: "with_widget i (wg_temporaryTimeShift scale s e) d = Inr d1" "dashboard_ready i d1"
    "db_widgets d1 = (db_widgets d)[i := w']" "shifted s e (db_widgets d ! i) w'"
    using with_widget_ready by blast
  then obtain d2 where d2: "db_setTimeRange scale s e d1 = Inr d2" "list_all2 (shifted s e) (db_widgets d1) (db_widgets d2)"
    using setTimeRange_ready [of d1 scale s e] by (auto simp: dashboard_ready_def)
  have i: "i < length (db_widgets d)" "i < length (db_widgets d2)" "length (db_widgets d2) = length (db_widgets d1)"
    using 2 d1(3) d2(2) by (auto simp: dashboard_ready_def dest: list_all2_lengthD)
  have "widget_ready w" if "w \<in> set (db_widgets d2)" for w
    using that d2(2) by (auto simp: in_set_conv_nth list_all2_conv_all_nth shifted_def)
  moreover have "shifted s e w' (db_widgets d2 ! i)"
    using list_all2_nthD2 [OF d2(2) i(2)] d1(3) i(1) by simp
  ultimately show ?case
    using 2 d1 d2(1) i by (auto simp: widget_zoom_def dashboard_ready_def shifted_def wg_getAxisStatus_def)
qed

lemma widget_shows_at:
  "shows_at (widget_zoom scale i) (dashboard_ready i) d s e 0 w \<longleftrightarrow>
     dashboard_ready i d \<and> wg_getAxisStatus (db_widgets d ! i) = (Num s, Num e, 0, Num w)"
  by (auto simp: shows_at_def widget_zoom_def js_num_simps)

definition drawn_time :: "rat \<Rightarrow> rat \<Rightarrow> rat \<Rightarrow> rat \<Rightarrow> rat" where
  \<comment> \<open>the time that the axis of a widget of width \<open>w\<close> draws at a pixel of its drawing: the axis
     begins after the 55 pixels of the left axis and ends before those of the right one\<close>
  "drawn_time s e w x = time_at s e 55 (w - 55) x"

text \<open>
  Dragging over a widget shifts its time range by the distance of the mouse, whatever path
  the mouse takes, and keeps the duration; no other widget moves before the reload.
\<close>

theorem widget_drag:
  assumes "dashboard_ready i d" "wg_getAxisStatus (db_widgets d ! i) = (Num s, Num e, 0, Num w)" "0 < w"
  shows "\<exists>m' d' s' e'.
    dispatch_all (widget_zoom scale i) (MouseDown x0 # map MouseMove xs @ [MouseMove x]) (m, d) = Inr (m', d') \<and>
    wg_getAxisStatus (db_widgets d' ! i) = (Num s', Num e', 0, Num w) \<and> dashboard_ready i d' \<and>
    e' - s' = e - s \<and> s' = s - (x - x0) * ((e - s) / w)"
proof -
  have "shows_at (widget_zoom scale i) (dashboard_ready i) d s e 0 w" using assms by (simp add: widget_shows_at)
  from wd.down_drag_at [OF this assms(3), of x0 xs x m] show ?thesis
    unfolding widget_shows_at by fastforce
qed

definition two_widgets :: dashboard where
  "two_widgets = (new_dashboard 1000 600 [])\<lparr>db_widgets :=
     [setSecondAxis ''-'' (setFirstAxis ''-'' sample_widget), setSecondAxis ''-'' (setFirstAxis ''-'' sample_widget)]\<rparr>"

lemma two_widgets_ok:
  "dashboard_ready 0 two_widgets" "wg_getAxisStatus (db_widgets two_widgets ! 0) = (Num 0, Num 10, 0, Num 292)"
  by (simp_all add: dashboard_ready_def two_widgets_def widget_ready_def setFirstAxis_def setSecondAxis_def
      isPrimaryAxisSkipped_def isSecondaryAxisSkipped_def sample_widget_def setXAxis_def createWidget_def
      setWidgetHeight_def setWidgetWidth_def new_widget_def wg_time_scale_def wg_getAxisStatus_def Let_def js_num_simps)

theorem widget_drag_witness:
  "\<exists>m' d' s' e'. dispatch_all (widget_zoom lerp 0) (MouseDown 100 # map MouseMove [150] @ [MouseMove 246])
     (new_mouse_handler, two_widgets) = Inr (m', d') \<and>
     wg_getAxisStatus (db_widgets d' ! 0) = (Num s', Num e', 0, Num 292) \<and> s' = - 5"
  using widget_drag [OF two_widgets_ok, of lerp 100 "[150]" 246 new_mouse_handler] by fastforce

text \<open>
  The wheel over a widget does not zoom at the mouse: the handler is told that the time axis
  covers the whole width of the widget, but it is drawn between the two vertical axes.  The time
  that is drawn under the mouse stays where it is only in the middle of the widget.
\<close>

theorem widget_wheel_pivot:
  assumes "dashboard_ready i d" "wg_getAxisStatus (db_widgets d ! i) = (Num s, Num e, 0, Num w)" "110 < w"
    and "s < e" "dy \<noteq> 0"
  shows "\<exists>m' d' s' e'. dispatch (widget_zoom scale i) (Wheel 0 dy x) (m, d) = Inr (m', d') \<and>
    wg_getAxisStatus (db_widgets d' ! i) = (Num s', Num e', 0, Num w) \<and>
    (drawn_time s' e' w x = drawn_time s e w x \<longleftrightarrow> x = w / 2)"
proof -
  have "shows_at (widget_zoom scale i) (dashboard_ready i) d s e 0 w" using assms by (simp add: widget_shows_at)
  moreover have w: "0 < w" using assms(3) by simp
  ultimately obtain d' s' e' where run: "dispatch (widget_zoom scale i) (Wheel 0 dy x) (m, d) = Inr (continueScrolling m, d')"
    "shows_at (widget_zoom scale i) (dashboard_ready i) d' s' e' 0 w"
    and z: "e' - s' = (e - s) * zoom_factor dy" "time_at s' e' 0 w x = time_at s e 0 w x"
    using wd.wheel_at [OF _ _ assms(5), of scale i d s e 0 w x m] by metis
  define k where "k = (e' - s') - (e - s)"
  have f1: "zoom_factor dy \<noteq> 1"
  proof (cases "0 < dy")
    case True
    then have "1 < (1001 / 1000 :: rat) ^ nat \<lceil>dy\<rceil>" by (intro one_less_power) simp_all
    then have "1 < zoom_factor dy" unfolding zoom_factor_def using True by (simp only: if_True)
    then show ?thesis by simp
  next
    case False
    then have "(1000 / 1001 :: rat) ^ nat \<lceil>- dy\<rceil> < 1" using assms(5) by (simp add: power_less_one_iff)
    then have "zoom_factor dy < 1" unfolding zoom_factor_def using False by (simp only: if_False)
    then show ?thesis by simp
  qed
  then have k: "k \<noteq> 0" using assms(4) by (simp add: k_def z(1))
  have "s' - s = - (x * k / w)"
    using z(2) w by (simp add: time_at_def k_def field_simps)
  moreover have "drawn_time s' e' w x - drawn_time s e w x = (s' - s) + (x - 55) * (k / (w - 110))"
  proof -
    define A B where "A = (e' - s') / (w - 110)" and "B = (e - s) / (w - 110)"
    have kw: "k / (w - 110) = A - B" by (simp add: k_def A_def B_def diff_divide_distrib)
    have dr: "drawn_time s' e' w x = s' + (x - 55) * A" "drawn_time s e w x = s + (x - 55) * B"
      by (simp_all add: drawn_time_def time_at_def A_def B_def)
    show ?thesis unfolding kw dr by (simp add: algebra_simps)
  qed
  ultimately have "drawn_time s' e' w x - drawn_time s e w x = k * ((x - 55) / (w - 110) - x / w)"
    by (simp add: right_diff_distrib left_diff_distrib mult.commute)
  also have "(x - 55) / (w - 110) - x / w = 55 * (2 * x - w) / (w * (w - 110))"
    using assms(3) by (simp add: field_simps)
  finally have diff: "drawn_time s' e' w x - drawn_time s e w x = k * (55 * (2 * x - w) / (w * (w - 110)))" .
  have "drawn_time s' e' w x = drawn_time s e w x \<longleftrightarrow> k * (55 * (2 * x - w) / (w * (w - 110))) = 0"
    unfolding diff [symmetric] by simp
  also have "\<dots> \<longleftrightarrow> x = w / 2" using k assms(3) by auto
  finally have "drawn_time s' e' w x = drawn_time s e w x \<longleftrightarrow> x = w / 2" .
  then show ?thesis using run unfolding widget_shows_at by blast
qed

theorem widget_wheel_pivot_witness:
  "\<exists>m' d' s' e'. dispatch (widget_zoom lerp 0) (Wheel 0 100 60) (new_mouse_handler, two_widgets) = Inr (m', d') \<and>
     wg_getAxisStatus (db_widgets d' ! 0) = (Num s', Num e', 0, Num 292) \<and> drawn_time s' e' 292 60 \<noteq> drawn_time 0 10 292 60"
proof -
  have "(110 :: rat) < 292" "(0 :: rat) < 10" "(100 :: rat) \<noteq> 0" by simp_all
  from widget_wheel_pivot [OF two_widgets_ok this, of lerp 60 new_mouse_handler] show ?thesis
    by (elim exE conjE) (intro exI conjI, assumption, assumption, simp)
qed



end
