(* ===== verification/Intervals.thy ===== *)
theory Intervals
  imports "HOL-Library.Multiset"
begin

text \<open>
  The interval timers of the browser, as far as the monitor uses them: \<open>setInterval\<close> gives a
  new handle, \<open>clearInterval\<close> stops the timer of a handle and does nothing for a handle that is
  not live.  Two classes of the monitor refresh a view periodically and remember whether they do;
  the locale \<open>refresher\<close> states what both promise and what follows for the timers.
\<close>

record intervals =
  iv_next :: nat
  iv_live :: "nat list"

definition no_intervals :: intervals where
  "no_intervals = \<lparr> iv_next = 1, iv_live = [] \<rparr>"

definition setInterval :: "intervals \<Rightarrow> nat \<times> intervals" where
  "setInterval iv = (iv_next iv, iv\<lparr>iv_next := iv_next iv + 1, iv_live := iv_live iv @ [iv_next iv]\<rparr>)"

definition clearInterval :: "nat \<Rightarrow> intervals \<Rightarrow> intervals" where
  "clearInterval h iv = iv\<lparr>iv_live := filter (\<lambda>x. x \<noteq> h) (iv_live iv)\<rparr>"

definition iv_ok :: "intervals \<Rightarrow> bool" where
  "iv_ok iv \<longleftrightarrow> distinct (iv_live iv) \<and> (\<forall>h \<in> set (iv_live iv). 0 < h \<and> h < iv_next iv) \<and> 0 < iv_next iv"

lemma iv_ok_none: "iv_ok no_intervals"
  by (simp add: iv_ok_def no_intervals_def)

lemma iv_ok_set: "iv_ok iv \<Longrightarrow> iv_ok (snd (setInterval iv))"
  by (auto simp: iv_ok_def setInterval_def)

lemma iv_ok_clear: "iv_ok iv \<Longrightarrow> iv_ok (clearInterval h iv)"
  by (auto simp: iv_ok_def clearInterval_def)

lemma set_fresh: "iv_ok iv \<Longrightarrow> fst (setInterval iv) \<notin> set (iv_live iv)"
  by (auto simp: iv_ok_def setInterval_def)

lemma live_set [simp]: "iv_live (snd (setInterval iv)) = iv_live iv @ [fst (setInterval iv)]"
  by (simp add: setInterval_def)

lemma live_clear [simp]: "iv_live (clearInterval h iv) = filter (\<lambda>x. x \<noteq> h) (iv_live iv)"
  by (simp add: clearInterval_def)

lemma clear_last: "iv_ok iv \<Longrightarrow> iv_live (clearInterval (fst (setInterval iv)) (snd (setInterval iv))) = iv_live iv"
  using set_fresh [of iv] by (auto intro: filter_True)

text \<open>Clearing a timer that is live leaves the others.\<close>

lemma clear_owned:
  assumes "mset (iv_live iv) = add_mset h R" "iv_ok iv"
  shows "mset (iv_live (clearInterval h iv)) = R"
proof -
  have "count (mset (iv_live iv)) h \<le> 1"
    using assms(2) by (simp add: iv_ok_def distinct_count_atmost_1)
  then have "h \<notin># R" using assms(1) by (simp add: not_in_iff)
  then have "filter_mset (\<lambda>x. x \<noteq> h) R = R" by (auto simp: filter_mset_eq_conv)
  then show ?thesis using assms(1) by (simp add: mset_filter)
qed

locale refresher =
  fixes running :: "'a \<Rightarrow> bool"
    and handle :: "'a \<Rightarrow> nat"
    and start :: "'a \<Rightarrow> intervals \<Rightarrow> 'a \<times> intervals"
    and stop :: "'a \<Rightarrow> intervals \<Rightarrow> 'a \<times> intervals"
  assumes start_running: "running a \<Longrightarrow> start a iv = (a, iv)"
    and start_idle: "\<not> running a \<Longrightarrow> snd (start a iv) = snd (setInterval iv) \<and> running (fst (start a iv)) \<and>
      handle (fst (start a iv)) = fst (setInterval iv)"
    and stop_running: "running a \<Longrightarrow> snd (stop a iv) = clearInterval (handle a) iv \<and> \<not> running (fst (stop a iv))"
    and stop_idle: "\<not> running a \<Longrightarrow> stop a iv = (a, iv)"
begin

definition timers :: "'a \<Rightarrow> nat multiset" where
  \<comment> \<open>the timer an object owns\<close>
  "timers a = (if running a then {#handle a#} else {#})"

lemma start_ok: "iv_ok iv \<Longrightarrow> iv_ok (snd (start a iv))"
  using start_running [of a iv] start_idle [of a iv] iv_ok_set by (cases "running a") auto

lemma stop_ok: "iv_ok iv \<Longrightarrow> iv_ok (snd (stop a iv))"
  using stop_running [of a iv] stop_idle [of a iv] iv_ok_clear by (cases "running a") auto

text \<open>Starting and stopping an object changes the timers by what the object owns and no other.\<close>

lemma start_frame:
  "mset (iv_live iv) = timers a + R \<Longrightarrow> mset (iv_live (snd (start a iv))) = timers (fst (start a iv)) + R"
  using start_running [of a iv] start_idle [of a iv] by (cases "running a") (simp_all add: timers_def)

lemma stop_frame:
  assumes "mset (iv_live iv) = timers a + R" "iv_ok iv"
  shows "mset (iv_live (snd (stop a iv))) = timers (fst (stop a iv)) + R"
proof (cases "running a")
  case True
  then show ?thesis
    using stop_running [OF True, of iv] assms clear_owned [of iv "handle a" R] by (simp add: timers_def)
next
  case False
  then show ?thesis using assms(1) stop_idle by simp
qed

definition toggle :: "'a \<Rightarrow> intervals \<Rightarrow> 'a \<times> intervals" where
  \<comment> \<open>what a refresh button does\<close>
  "toggle a iv = (if running a then stop else start) a iv"

lemma toggle_frame:
  "mset (iv_live iv) = timers a + R \<Longrightarrow> iv_ok iv \<Longrightarrow>
   mset (iv_live (snd (toggle a iv))) = timers (fst (toggle a iv)) + R \<and> iv_ok (snd (toggle a iv))"
  by (simp add: toggle_def start_frame stop_frame start_ok stop_ok)

lemma toggle_running: "running (fst (toggle a iv)) = (\<not> running a)"
  using start_idle [of a iv] stop_running [of a iv] by (auto simp: toggle_def)

end

end
