(* ===== verification/Page_Layout.thy ===== *)
theory Page_Layout
  imports Dashboard Task_Page Intervals
begin

text \<open>
  The elements of the two pages of Daisen: \<open>daisen/static/src/dashboardpage.ts\<close> with the toolbar of
  \<open>dashboard.ts\<close>, and the columns of \<open>taskpage.ts\<close>.  A page looks up its elements, creates those that
  are missing and gives them their sizes; it does this again whenever the window is resized.

  The sizes of the window and the size that the browser gives an element with a certain style are
  arguments.
\<close>

subsection \<open>The dashboard page\<close>

record page_env =
  pe_containerWidth :: js_num
  pe_windowHeight :: js_num
  pe_navHeight :: js_num
  pe_offset :: "js_num \<Rightarrow> js_num" \<comment> \<open>the offset size of an element with a style size\<close>

datatype tool =
    ZoomResetButton
  | FilterInput string \<comment> \<open>its value\<close>
  | PrimarySelect string
  | SecondarySelect string

record dashboard_page =
  dg_containerHeight :: js_num \<comment> \<open>the style of \<open>inner-container\<close>\<close>
  dg_elements :: "(string, js_num \<times> js_num) js_map" \<comment> \<open>the elements by their class, with their styles\<close>
  dg_toolbar :: "tool list option" \<comment> \<open>the form in \<open>top-nav\<close>, if there is one\<close>
  dg_dashboard :: dashboard
  dg_filterTimer :: nat \<comment> \<open>a handle; zero when the field is not set\<close>
  dg_timers :: intervals \<comment> \<open>the time-outs that have not fired\<close>

definition new_dashboard_page :: "dashboard \<Rightarrow> dashboard_page" where
  "new_dashboard_page d =
     \<lparr> dg_containerHeight = Undef, dg_elements = [], dg_toolbar = None, dg_dashboard = d, dg_filterTimer = 0,
       dg_timers = no_intervals \<rparr>"

definition containerDim :: "page_env \<Rightarrow> js_num \<times> js_num" where
  "containerDim E = (pe_containerWidth E, pe_windowHeight E - pe_navHeight E)"

definition getDashboard :: "page_env \<Rightarrow> dashboard_page \<Rightarrow> dashboard_page" where
  "getDashboard E p = p\<lparr>dg_elements := map_set ''dashboard'' (containerDim E) (dg_elements p)\<rparr>"

definition getPageContainer :: "page_env \<Rightarrow> dashboard_page \<Rightarrow> dashboard_page" where
  "getPageContainer E p =
     (let (w, h) = the (map_get (dg_elements p) ''dashboard'')
      in p\<lparr>dg_elements := map_set ''page-container'' (pe_offset E w, pe_offset E h - 78) (dg_elements p)\<rparr>)"

definition getPageButtonContainer :: "dashboard_page \<Rightarrow> dashboard_page" where
  "getPageButtonContainer p =
     (if map_get (dg_elements p) ''page-button-container'' \<noteq> None then p
      else p\<lparr>dg_elements := map_set ''page-button-container'' (Undef, Undef) (dg_elements p)\<rparr>)"

definition getToolbar :: "dashboard_page \<Rightarrow> dashboard_page" where
  "getToolbar p = (case dg_toolbar p of None \<Rightarrow> p\<lparr>dg_toolbar := Some []\<rparr> | Some _ \<Rightarrow> p)"

definition yAxisOptions :: "string list" where
  "yAxisOptions = [''ReqInCount'', ''ReqCompleteCount'', ''AvgLatency'', ''ConcurrentTask'', ''BufferPressure'', ''PendingReqOut'', ''-'']"

definition add_tool :: "tool \<Rightarrow> dashboard_page \<Rightarrow> dashboard_page" where
  "add_tool t p = p\<lparr>dg_toolbar := map_option (\<lambda>ts. ts @ [t]) (dg_toolbar p)\<rparr>"

definition addZoomResetButton :: "dashboard_page \<Rightarrow> dashboard_page" where
  "addZoomResetButton p = add_tool ZoomResetButton p"

definition addFilterUI :: "dashboard_page \<Rightarrow> dashboard_page" where
  "addFilterUI p = add_tool (FilterInput []) p"

definition addPrimarySelector :: "dashboard_page \<Rightarrow> dashboard_page" where
  \<comment> \<open>the first option is selected\<close>
  "addPrimarySelector p = add_tool (PrimarySelect (yAxisOptions ! 0)) p"

definition addSecondarySelector :: "dashboard_page \<Rightarrow> dashboard_page" where
  "addSecondarySelector p = add_tool (SecondarySelect (yAxisOptions ! 0)) p"

definition setCanvas :: "page_env \<Rightarrow> scaling \<Rightarrow> dashboard_page \<Rightarrow> dashboard_page js_result" where
  "setCanvas E scale p =
     (let p1 = addSecondarySelector (addPrimarySelector (addFilterUI (addZoomResetButton p)));
          (w, h) = the (map_get (dg_elements p1) ''page-container'')
      in bind_result (db_resize scale ((dg_dashboard p1)\<lparr>db_offsetWidth := pe_offset E w, db_offsetHeight := pe_offset E h\<rparr>))
           (\<lambda>d. Inr (p1\<lparr>dg_dashboard := d\<rparr>)))"

definition dg_layout :: "page_env \<Rightarrow> scaling \<Rightarrow> dashboard_page \<Rightarrow> dashboard_page js_result" where
  "dg_layout E scale p =
     (let p1 = p\<lparr>dg_containerHeight := snd (containerDim E) - 60\<rparr>;
          p2 = getToolbar (getPageButtonContainer (getPageContainer E (getDashboard E p1)));
          p3 = p2\<lparr>dg_toolbar := Some []\<rparr>
      in setCanvas E scale p3)"

subsection \<open>The toolbar\<close>

fun set_filter_input :: "string \<Rightarrow> tool \<Rightarrow> tool" where
  "set_filter_input v (FilterInput _) = FilterInput v"
| "set_filter_input v t = t"

definition select_value :: "string \<Rightarrow> string" where
  \<comment> \<open>assigning \<open>value\<close> of a \<open>select\<close>: nothing is selected when there is no such option\<close>
  "select_value v = (if v \<in> set yAxisOptions then v else [])"

fun set_selects :: "string \<Rightarrow> string \<Rightarrow> tool \<Rightarrow> tool" where
  "set_selects a b (PrimarySelect _) = PrimarySelect (select_value a)"
| "set_selects a b (SecondarySelect _) = SecondarySelect (select_value b)"
| "set_selects a b t = t"

definition on_tools :: "(tool \<Rightarrow> tool) \<Rightarrow> dashboard_page \<Rightarrow> dashboard_page" where
  "on_tools f p = p\<lparr>dg_toolbar := map_option (map f) (dg_toolbar p)\<rparr>"

fun filter_value :: "tool list \<Rightarrow> string option" where
  \<comment> \<open>the value of the element \<open>dashboard-filter-input\<close>\<close>
  "filter_value [] = None"
| "filter_value (FilterInput v # ts) = Some v"
| "filter_value (t # ts) = filter_value ts"

definition filterInputChage :: "string \<Rightarrow> dashboard_page \<Rightarrow> dashboard_page" where
  \<comment> \<open>the user has typed: the old time-out is cleared and a new one is set\<close>
  "filterInputChage v p =
     (let p1 = on_tools (set_filter_input v) p;
          (h, iv) = setInterval (clearInterval (dg_filterTimer p1) (dg_timers p1))
      in p1\<lparr>dg_filterTimer := h, dg_timers := iv\<rparr>)"

definition filter_timeout :: "(string \<Rightarrow> (string \<Rightarrow> bool) option) \<Rightarrow> nat \<Rightarrow> dashboard_page \<Rightarrow> dashboard_page js_result" where
  \<comment> \<open>a time-out fires and reads the input as it is then\<close>
  "filter_timeout regexp h p =
     (let p1 = p\<lparr>dg_timers := clearInterval h (dg_timers p)\<rparr>
      in case Option.bind (dg_toolbar p1) filter_value of
           None \<Rightarrow> Inl TypeError
         | Some v \<Rightarrow> bind_result (filter_input regexp v (dg_dashboard p1)) (\<lambda>d. Inr (p1\<lparr>dg_dashboard := d\<rparr>)))"

definition select_primary :: "string \<Rightarrow> dashboard_page \<Rightarrow> dashboard_page" where
  \<comment> \<open>the user chooses an option\<close>
  "select_primary v p =
     (let p1 = on_tools (\<lambda>t. case t of PrimarySelect _ \<Rightarrow> PrimarySelect v | _ \<Rightarrow> t) p
      in p1\<lparr>dg_dashboard := switchPrimaryAxis v (dg_dashboard p1)\<rparr>)"

definition select_secondary :: "string \<Rightarrow> dashboard_page \<Rightarrow> dashboard_page" where
  "select_secondary v p =
     (let p1 = on_tools (\<lambda>t. case t of SecondarySelect _ \<Rightarrow> SecondarySelect v | _ \<Rightarrow> t) p
      in p1\<lparr>dg_dashboard := switchSecondaryAxis v (dg_dashboard p1)\<rparr>)"

definition dg_render ::
    "scaling \<Rightarrow> (string \<Rightarrow> js_num) \<Rightarrow> (js_num \<Rightarrow> string) \<Rightarrow> (string \<Rightarrow> (string \<Rightarrow> bool) option) \<Rightarrow>
     (js_num \<times> js_num) option \<Rightarrow> string list \<Rightarrow> dashboard_page \<Rightarrow> dashboard_page js_result" where
  \<comment> \<open>\<open>render\<close> with its responses; \<open>_getParamsFromURL\<close> also writes the address into the toolbar\<close>
  "dg_render scale parse toString regexp simulation compNames p =
     bind_result (db_render scale parse toString regexp simulation compNames (dg_dashboard p)) (\<lambda>d.
       Inr (on_tools (\<lambda>t. set_selects (db_primaryAxis d) (db_secondaryAxis d) (set_filter_input (db_currFilter d) t))
         (p\<lparr>dg_dashboard := d\<rparr>)))"

subsection \<open>Elements are created once\<close>

lemma bind_result_Inr: "bind_result r f = Inr b \<longleftrightarrow> (\<exists>a. r = Inr a \<and> f a = Inr b)"
  by (cases r) (simp_all add: bind_result_def)

lemma keys_map_set: "map fst (map_set k v m) = (if k \<in> set (map fst m) then map fst m else map fst m @ [k])"
  by (induction m) auto

definition page_classes :: "string list" where
  "page_classes = [''dashboard'', ''page-container'', ''page-button-container'']"

lemmas element_ops = getDashboard_def getPageContainer_def getPageButtonContainer_def getToolbar_def
lemmas toolbar_ops = addZoomResetButton_def addFilterUI_def addPrimarySelector_def addSecondarySelector_def add_tool_def

lemma db_resize_kept:
  assumes "db_resize scale d = Inr d'"
  shows "db_currFilter d' = db_currFilter d" "db_primaryAxis d' = db_primaryAxis d" "db_secondaryAxis d' = db_secondaryAxis d"
    "db_filteredNames d' = db_filteredNames d" "db_url d' = db_url d"
  using assms by (auto simp: db_resize_def Let_def bind_result_Inr resetNumRowCol_def)

definition fresh_tools :: "tool list" where
  "fresh_tools = [ZoomResetButton, FilterInput [], PrimarySelect ''ReqInCount'', SecondarySelect ''ReqInCount'']"

lemma layout_result:
  assumes "dg_layout E scale p = Inr q" "(w, h) = containerDim E"
  shows "dg_toolbar q = Some fresh_tools" "dg_containerHeight q = h - 60" "dg_timers q = dg_timers p" "dg_filterTimer q = dg_filterTimer p"
    "map fst (dg_elements p) \<in> {[], page_classes} \<Longrightarrow> map fst (dg_elements q) = page_classes"
    "map_get (dg_elements q) ''dashboard'' = Some (w, h)"
    "map_get (dg_elements q) ''page-container'' = Some (pe_offset E w, pe_offset E h - 78)"
    "\<exists>d. db_resize scale d = Inr (dg_dashboard q) \<and>
       d = (dg_dashboard p)\<lparr>db_offsetWidth := pe_offset E (pe_offset E w), db_offsetHeight := pe_offset E (pe_offset E h - 78)\<rparr>"
proof -
  let ?e1 = "map_set ''dashboard'' (w, h) (dg_elements p)"
  let ?e2 = "map_set ''page-container'' (pe_offset E w, pe_offset E h - 78) ?e1"
  let ?e3 = "if map_get ?e2 ''page-button-container'' \<noteq> None then ?e2 else map_set ''page-button-container'' (Undef, Undef) ?e2"
  let ?p = "p\<lparr>dg_containerHeight := h - 60, dg_elements := ?e3, dg_toolbar := Some []\<rparr>"
  have get: "map_get ?e3 ''dashboard'' = Some (w, h)" "map_get ?e3 ''page-container'' = Some (pe_offset E w, pe_offset E h - 78)"
    by (simp_all add: jm.get_put)
  have "getPageContainer E (getDashboard E (p\<lparr>dg_containerHeight := h - 60\<rparr>)) = p\<lparr>dg_containerHeight := h - 60, dg_elements := ?e2\<rparr>"
    unfolding getPageContainer_def getDashboard_def assms(2) [symmetric] by (simp add: jm.get_put)
  then have prep: "(getToolbar (getPageButtonContainer (getPageContainer E (getDashboard E (p\<lparr>dg_containerHeight := h - 60\<rparr>)))))
      \<lparr>dg_toolbar := Some []\<rparr> = ?p"
    by (cases "map_get ?e2 ''page-button-container''") (simp_all add: getPageButtonContainer_def getToolbar_def split: option.split)
  have "setCanvas E scale ?p = Inr q" using assms(1) prep unfolding dg_layout_def assms(2) [symmetric] by (simp add: Let_def)
  then have q: "dg_toolbar q = Some fresh_tools" "dg_containerHeight q = h - 60" "dg_elements q = ?e3" "dg_timers q = dg_timers p"
    "dg_filterTimer q = dg_filterTimer p"
    "\<exists>d. db_resize scale d = Inr (dg_dashboard q) \<and>
       d = (dg_dashboard p)\<lparr>db_offsetWidth := pe_offset E (pe_offset E w), db_offsetHeight := pe_offset E (pe_offset E h - 78)\<rparr>"
    using get unfolding setCanvas_def
    by (auto simp: toolbar_ops bind_result_Inr fresh_tools_def yAxisOptions_def split_def Let_def simp del: not_None_eq)
  then show "dg_toolbar q = Some fresh_tools" "dg_containerHeight q = h - 60" "dg_timers q = dg_timers p" "dg_filterTimer q = dg_filterTimer p"
    "\<exists>d. db_resize scale d = Inr (dg_dashboard q) \<and>
       d = (dg_dashboard p)\<lparr>db_offsetWidth := pe_offset E (pe_offset E w), db_offsetHeight := pe_offset E (pe_offset E h - 78)\<rparr>"
    by simp_all
  show "map_get (dg_elements q) ''dashboard'' = Some (w, h)"
    "map_get (dg_elements q) ''page-container'' = Some (pe_offset E w, pe_offset E h - 78)"
    by (simp_all only: q(3) get)
  have "map_get m k = None \<longleftrightarrow> k \<notin> set (map fst m)" for m :: "(string, js_num \<times> js_num) js_map" and k
    by (simp add: map_of_eq_None_iff)
  then show "map fst (dg_elements q) = page_classes" if "map fst (dg_elements p) \<in> {[], page_classes}"
    using that by (simp add: q(3) keys_map_set page_classes_def) auto
qed

subsection \<open>Properties of the dashboard page\<close>

definition controls_agree :: "dashboard_page \<Rightarrow> bool" where
  \<comment> \<open>the toolbar shows the filter and the axes that the dashboard uses\<close>
  "controls_agree p \<longleftrightarrow> dg_toolbar p = Some [ZoomResetButton, FilterInput (db_currFilter (dg_dashboard p)),
     PrimarySelect (db_primaryAxis (dg_dashboard p)), SecondarySelect (db_secondaryAxis (dg_dashboard p))]"

text \<open>
  Resizing the window resets the toolbar but not the dashboard: every layout creates the
  elements of the page only when they are missing and gives them the sizes of the window, but it
  fills the toolbar anew, so afterwards the toolbar agrees with the dashboard only if no filter is
  set and both axes show the first option.
\<close>

theorem dashboard_layout_controls:
  assumes "dg_layout E scale p = Inr q" "map fst (dg_elements p) \<in> {[], page_classes}" "(w, h) = containerDim E"
  shows "map fst (dg_elements q) = page_classes \<and> map_get (dg_elements q) ''dashboard'' = Some (w, h) \<and>
    map_get (dg_elements q) ''page-container'' = Some (pe_offset E w, pe_offset E h - 78) \<and>
    db_currFilter (dg_dashboard q) = db_currFilter (dg_dashboard p) \<and>
    db_primaryAxis (dg_dashboard q) = db_primaryAxis (dg_dashboard p) \<and>
    db_secondaryAxis (dg_dashboard q) = db_secondaryAxis (dg_dashboard p) \<and>
    (controls_agree q \<longleftrightarrow> db_currFilter (dg_dashboard p) = [] \<and> db_primaryAxis (dg_dashboard p) = ''ReqInCount'' \<and>
       db_secondaryAxis (dg_dashboard p) = ''ReqInCount'')"
proof -
  note r = layout_result [OF assms(1,3)]
  have keep: "db_currFilter (dg_dashboard q) = db_currFilter (dg_dashboard p)"
    "db_primaryAxis (dg_dashboard q) = db_primaryAxis (dg_dashboard p)"
    "db_secondaryAxis (dg_dashboard q) = db_secondaryAxis (dg_dashboard p)"
    using r(8) by (auto dest: db_resize_kept)
  show ?thesis using r(1,5-7) keep assms(2) by (auto simp: controls_agree_def fresh_tools_def)
qed

definition sample_page_env :: page_env where
  "sample_page_env = \<lparr>pe_containerWidth = 1400, pe_windowHeight = 900, pe_navHeight = 56, pe_offset = id\<rparr>"

theorem dashboard_layout_controls_witness:
  "\<exists>q. dg_layout sample_page_env lerp (new_dashboard_page (new_dashboard 0 0 [])) = Inr q \<and>
     map fst (dg_elements q) = page_classes \<and> \<not> controls_agree q"
proof -
  let ?p = "new_dashboard_page (new_dashboard 0 0 [])"
  have "\<exists>q. dg_layout sample_page_env lerp ?p = Inr q"
    by (simp add: dg_layout_def setCanvas_def element_ops toolbar_ops new_dashboard_page_def new_dashboard_def db_resize_def
        resetNumRowCol_def Let_def split_def)
  then obtain q where q: "dg_layout sample_page_env lerp ?p = Inr q" by blast
  have "(1400, 900 - 56) = containerDim sample_page_env" by (simp add: containerDim_def sample_page_env_def)
  from dashboard_layout_controls [OF q _ this] show ?thesis
    using q by (auto simp: new_dashboard_page_def new_dashboard_def)
qed

lemma filter_value_set: "filter_value (map (set_filter_input v) ts) = map_option (\<lambda>_. v) (filter_value ts)"
  by (induction ts rule: filter_value.induct) simp_all

lemma filterInput_timers:
  assumes "iv_ok (dg_timers p)" "set (iv_live (dg_timers p)) \<subseteq> {dg_filterTimer p}"
  shows "iv_ok (dg_timers (filterInputChage v p))" "iv_live (dg_timers (filterInputChage v p)) = [dg_filterTimer (filterInputChage v p)]"
proof -
  have "filter (\<lambda>x. x \<noteq> dg_filterTimer p) (iv_live (dg_timers p)) = []" using assms(2) by (auto simp: filter_empty_conv)
  then show "iv_live (dg_timers (filterInputChage v p)) = [dg_filterTimer (filterInputChage v p)]"
    by (simp add: filterInputChage_def on_tools_def split_def Let_def)
  show "iv_ok (dg_timers (filterInputChage v p))"
    using iv_ok_set [OF iv_ok_clear [OF assms(1), of "dg_filterTimer p"]]
    by (simp add: filterInputChage_def on_tools_def split_def Let_def)
qed

lemma typing:
  assumes "iv_ok (dg_timers p)" "set (iv_live (dg_timers p)) \<subseteq> {dg_filterTimer p}" "Option.bind (dg_toolbar p) filter_value \<noteq> None"
    "vs \<noteq> []" "q = foldl (\<lambda>p v. filterInputChage v p) p vs"
  shows "iv_live (dg_timers q) = [dg_filterTimer q]" "Option.bind (dg_toolbar q) filter_value = Some (last vs)"
    "dg_dashboard q = dg_dashboard p"
proof -
  have "iv_ok (dg_timers q) \<and> iv_live (dg_timers q) = [dg_filterTimer q] \<and>
      Option.bind (dg_toolbar q) filter_value = Some (last vs) \<and> dg_dashboard q = dg_dashboard p"
    using assms(4,5)
  proof (induction vs arbitrary: q rule: rev_induct)
    case (snoc v vs)
    let ?r = "foldl (\<lambda>p v. filterInputChage v p) p vs"
    have r: "iv_ok (dg_timers ?r)" "set (iv_live (dg_timers ?r)) \<subseteq> {dg_filterTimer ?r}" "dg_dashboard ?r = dg_dashboard p"
      "Option.bind (dg_toolbar ?r) filter_value \<noteq> None"
      using snoc.IH [OF _ refl] assms(1-3) by (cases "vs = []"; simp)+
    have q: "q = filterInputChage v ?r" using snoc.prems(2) by simp
    have "Option.bind (dg_toolbar q) filter_value = Some v"
      using r(4) by (cases "dg_toolbar ?r") (auto simp: q filterInputChage_def on_tools_def split_def Let_def filter_value_set)
    moreover have "dg_dashboard q = dg_dashboard ?r" by (simp add: q filterInputChage_def on_tools_def split_def Let_def)
    ultimately show ?case using filterInput_timers [OF r(1,2), of v] r(3) by (simp add: q)
  qed simp
  then show "iv_live (dg_timers q) = [dg_filterTimer q]" "Option.bind (dg_toolbar q) filter_value = Some (last vs)"
    "dg_dashboard q = dg_dashboard p" by simp_all
qed

text \<open>
  (C33) Typing filters once, with the last text: while the user types, one time-out is pending, and
  when it fires the dashboard is filtered by the text that the input has then.  When the page is
  laid out again before, the input is new and empty, and the time-out removes the filter.
\<close>

theorem dashboard_filter_debounced:
  assumes "iv_ok (dg_timers p)" "set (iv_live (dg_timers p)) \<subseteq> {dg_filterTimer p}" "Option.bind (dg_toolbar p) filter_value \<noteq> None"
    "vs \<noteq> []" "q = foldl (\<lambda>p v. filterInputChage v p) p vs" "h = dg_filterTimer q"
  shows "iv_live (dg_timers q) = [h] \<and>
    bind_result (filter_timeout regexp h q) (\<lambda>r. Inr (dg_dashboard r)) = filter_input regexp (last vs) (dg_dashboard p) \<and>
    (\<forall>r. filter_timeout regexp h q = Inr r \<longrightarrow> iv_live (dg_timers r) = []) \<and>
    (\<forall>E scale r. dg_layout E scale q = Inr r \<longrightarrow>
       bind_result (filter_timeout regexp h r) (\<lambda>r. Inr (dg_dashboard r)) = filter_input regexp [] (dg_dashboard r))"
proof -
  note t = typing [OF assms(1-5)]
  have fire: "bind_result (filter_timeout regexp k r) (\<lambda>r. Inr (dg_dashboard r)) = filter_input regexp v (dg_dashboard r)"
    if "Option.bind (dg_toolbar r) filter_value = Some v" for r v k
    using that by (cases "filter_input regexp v (dg_dashboard r)") (simp_all add: filter_timeout_def bind_result_def Let_def)
  moreover have "iv_live (dg_timers r) = []" if "filter_timeout regexp h q = Inr r" for r
    using that t(1,2) assms(6) by (auto simp: filter_timeout_def Let_def bind_result_Inr)
  moreover have "Option.bind (dg_toolbar r) filter_value = Some []" if "dg_layout E scale q = Inr r" for E scale r
    using layout_result(1) [OF that, of "fst (containerDim E)" "snd (containerDim E)"] by (simp add: fresh_tools_def)
  ultimately show ?thesis using t assms(6) by auto
qed

definition sample_dashboard_page :: dashboard_page where
  "sample_dashboard_page = (new_dashboard_page ((new_dashboard 1400 800 [])\<lparr>db_componentNames := [''GPU'', ''CPU'']\<rparr>))\<lparr>dg_toolbar := Some fresh_tools\<rparr>"

theorem dashboard_filter_debounced_witness:
  "iv_live (dg_timers (foldl (\<lambda>p v. filterInputChage v p) sample_dashboard_page [''G'', ''GP''])) =
     [dg_filterTimer (foldl (\<lambda>p v. filterInputChage v p) sample_dashboard_page [''G'', ''GP''])]"
proof -
  have "iv_ok (dg_timers sample_dashboard_page)" "set (iv_live (dg_timers sample_dashboard_page)) \<subseteq> {dg_filterTimer sample_dashboard_page}"
    "Option.bind (dg_toolbar sample_dashboard_page) filter_value \<noteq> None"
    by (simp_all add: sample_dashboard_page_def new_dashboard_page_def iv_ok_none fresh_tools_def) (simp add: no_intervals_def)
  from dashboard_filter_debounced [OF this _ refl refl, of "[''G'', ''GP'']"] show ?thesis by simp
qed

text \<open>The toolbar follows the address and the user, as long as the page is not laid out again.\<close>

lemma render_controls:
  assumes "dg_toolbar p = Some [ZoomResetButton, FilterInput a, PrimarySelect b, SecondarySelect c]"
    and "dg_render scale parse toString regexp simulation names p = Inr q"
    and "db_primaryAxis (dg_dashboard q) \<in> set yAxisOptions" "db_secondaryAxis (dg_dashboard q) \<in> set yAxisOptions"
  shows "controls_agree q"
  using assms by (auto simp: dg_render_def bind_result_Inr on_tools_def controls_agree_def select_value_def)

lemma renderPage_kept:
  "db_currFilter (renderPage d) = db_currFilter d" "db_primaryAxis (renderPage d) = db_primaryAxis d"
  "db_secondaryAxis (renderPage d) = db_secondaryAxis d"
  by (simp_all add: renderPage_def Let_def resetNumRowCol_def)

lemma filter_kept:
  assumes "db_filter regexp d = Inr d'"
  shows "db_currFilter d' = db_currFilter d" "db_primaryAxis d' = db_primaryAxis d" "db_secondaryAxis d' = db_secondaryAxis d"
  using assms by (auto simp: db_filter_def renderPage_kept addPaginationControl_def resetNumRowCol_def Let_def split: option.splits)

lemma controls_step:
  assumes "controls_agree p"
  shows "controls_agree (select_primary v p)" "controls_agree (select_secondary v p)"
    "filter_timeout regexp h (on_tools (set_filter_input v) p) = Inr q \<Longrightarrow> controls_agree q"
proof -
  show "controls_agree (select_primary v p)" "controls_agree (select_secondary v p)"
    using assms by (simp_all add: controls_agree_def select_primary_def select_secondary_def on_tools_def switchPrimaryAxis_def
        switchSecondaryAxis_def switch_axis_def Let_def)
  assume fire: "filter_timeout regexp h (on_tools (set_filter_input v) p) = Inr q"
  then obtain d where d: "filter_input regexp v (dg_dashboard p) = Inr d" "dg_dashboard q = d"
    "dg_toolbar q = dg_toolbar (on_tools (set_filter_input v) p)"
    using assms by (auto simp: filter_timeout_def controls_agree_def on_tools_def bind_result_Inr Let_def)
  then have "db_currFilter d = v" "db_primaryAxis d = db_primaryAxis (dg_dashboard p)" "db_secondaryAxis d = db_secondaryAxis (dg_dashboard p)"
    by (auto simp: filter_input_def dest: filter_kept)
  then show "controls_agree q" using assms d by (simp add: controls_agree_def on_tools_def)
qed

subsection \<open>The columns of the task page\<close>

record page_columns =
  pc_containerHeight :: js_num
  pc_children :: "string list" \<comment> \<open>what the page has put into \<open>inner-container\<close>\<close>
  pc_leftChildren :: "string list"
  pc_rightChildren :: "string list"
  pc_leftColumn :: "(js_num \<times> js_num) option" \<comment> \<open>the style, if the element exists\<close>
  pc_rightColumn :: "(js_num \<times> js_num) option"
  pc_taskViewCanvas :: "(js_num \<times> js_num) option"
  pc_componentViewCanvas :: "(js_num \<times> js_num) option"
  pc_tooltip :: bool
  pc_legendCanvas :: bool
  pc_leftColumnWidth :: js_num

definition no_columns :: page_columns where
  "no_columns = \<lparr> pc_containerHeight = Undef, pc_children = [], pc_leftChildren = [], pc_rightChildren = [], pc_leftColumn = None,
     pc_rightColumn = None, pc_taskViewCanvas = None, pc_componentViewCanvas = None, pc_tooltip = False, pc_legendCanvas = False,
     pc_leftColumnWidth = 0 \<rparr>"

definition rightColumnWidth :: js_num where
  "rightColumnWidth = 350"

definition layoutTaskView :: "page_env \<Rightarrow> page_columns \<Rightarrow> page_columns" where
  "layoutTaskView E c =
     (let c1 = (if pc_taskViewCanvas c = None then c\<lparr>pc_leftChildren := pc_leftChildren c @ [''task-view'']\<rparr> else c)
      in c1\<lparr>pc_taskViewCanvas := Some (pe_offset E (fst (the (pc_leftColumn c1))), 200)\<rparr>)"

definition layoutComponentView :: "page_env \<Rightarrow> page_columns \<Rightarrow> page_columns" where
  "layoutComponentView E c =
     (let c1 = (if pc_componentViewCanvas c = None then c\<lparr>pc_leftChildren := pc_leftChildren c @ [''component-view'']\<rparr> else c);
          (w, h) = the (pc_leftColumn c1)
      in c1\<lparr>pc_componentViewCanvas := Some (pe_offset E w, pe_offset E h - 200)\<rparr>)"

definition layoutLeftColumn :: "page_env \<Rightarrow> page_columns \<Rightarrow> page_columns" where
  "layoutLeftColumn E c =
     (let c1 = (if pc_leftColumn c = None then c\<lparr>pc_children := pc_children c @ [''left'']\<rparr> else c);
          w = pe_containerWidth E - rightColumnWidth - 1
      in layoutComponentView E (layoutTaskView E
           (c1\<lparr>pc_leftColumnWidth := w, pc_leftColumn := Some (w, pe_offset E (pc_containerHeight c1))\<rparr>)))"

definition layoutRightColumn :: "page_env \<Rightarrow> page_columns \<Rightarrow> page_columns" where
  "layoutRightColumn E c =
     (let c1 = (if pc_rightColumn c = None then c\<lparr>pc_children := pc_children c @ [''right'']\<rparr> else c);
          c2 = c1\<lparr>pc_rightColumn := Some (rightColumnWidth, pe_offset E (pc_containerHeight c1))\<rparr>;
          c3 = (if \<not> pc_tooltip c2 then c2\<lparr>pc_tooltip := True, pc_rightChildren := pc_rightChildren c2 @ [''curr-task-info'']\<rparr> else c2)
      in if \<not> pc_legendCanvas c3 then c3\<lparr>pc_legendCanvas := True, pc_rightChildren := pc_rightChildren c3 @ [''legend'']\<rparr> else c3)"

definition layout_columns :: "page_env \<Rightarrow> page_columns \<Rightarrow> page_columns" where
  \<comment> \<open>the first part of \<open>layout\<close>; the rest is \<open>page_layout\<close>\<close>
  "layout_columns E c = layoutRightColumn E (layoutLeftColumn E (c\<lparr>pc_containerHeight := pe_windowHeight E - 76\<rparr>))"

text \<open>The columns after any number of layouts, the last one for the window \<open>E\<close>.\<close>

definition laid_columns :: "page_env \<Rightarrow> page_columns" where
  "laid_columns E =
     (let w = pe_containerWidth E - rightColumnWidth - 1; h = pe_windowHeight E - 76; oh = pe_offset E h
      in \<lparr> pc_containerHeight = h, pc_children = [''left'', ''right''], pc_leftChildren = [''task-view'', ''component-view''],
           pc_rightChildren = [''curr-task-info'', ''legend''], pc_leftColumn = Some (w, oh),
           pc_rightColumn = Some (rightColumnWidth, oh), pc_taskViewCanvas = Some (pe_offset E w, 200),
           pc_componentViewCanvas = Some (pe_offset E w, pe_offset E oh - 200), pc_tooltip = True, pc_legendCanvas = True,
           pc_leftColumnWidth = w \<rparr>)"

lemma layout_laid: "layout_columns E no_columns = laid_columns E" "layout_columns E (laid_columns F) = laid_columns E"
  by (simp_all add: layout_columns_def layoutRightColumn_def layoutLeftColumn_def layoutTaskView_def layoutComponentView_def
      no_columns_def laid_columns_def Let_def)

text \<open>
  The columns of the task page fill the window, however often it was resized: each element is
  created once, the columns depend only on the last size of the window, the left column, the right
  column and a pixel between them are as wide as the container, which is also what the time axis of
  the page uses, and the two canvases are together as high as the column, in a browser that gives
  elements the sizes of their styles.
\<close>

theorem task_page_columns_fill:
  assumes "c = foldl (\<lambda>c E. layout_columns E c) no_columns (Es @ [E])" "pe_offset E = id"
    and "pe_containerWidth E = Num W" "pe_windowHeight E = Num H"
  shows "distinct (pc_children c @ pc_leftChildren c @ pc_rightChildren c) \<and> c = layout_columns E no_columns \<and>
    (\<exists>w h a b. pc_leftColumn c = Some (Num w, Num h) \<and> pc_rightColumn c = Some (Num 350, Num h) \<and> w + 1 + 350 = W \<and>
       pc_leftColumnWidth c = fst (column_sizes (Num W) (Num h) (new_task_page st url)) \<and>
       pc_taskViewCanvas c = Some (Num w, Num a) \<and> pc_componentViewCanvas c = Some (Num w, Num b) \<and> a + b = h \<and> h = H - 76)"
proof -
  have "foldl (\<lambda>c E. layout_columns E c) no_columns Es = no_columns \<or> (\<exists>F. foldl (\<lambda>c E. layout_columns E c) no_columns Es = laid_columns F)"
    by (induction Es rule: rev_induct) (auto simp: layout_laid)
  then have c: "c = laid_columns E" using assms(1) layout_laid by auto
  show ?thesis unfolding layout_laid(1) c
    using assms(2-4) by (simp add: laid_columns_def Let_def rightColumnWidth_def js_num_simps column_sizes_def new_task_page_def)
qed

theorem task_page_columns_fill_witness:
  "\<exists>w h. pc_leftColumn (foldl (\<lambda>c E. layout_columns E c) no_columns ([] @ [sample_page_env])) = Some (Num w, Num h) \<and> w + 1 + 350 = 1400"
  using task_page_columns_fill [OF refl, of sample_page_env 1400 900 "[]" "\<lambda>_. new_task" "[]"]
  by (simp add: sample_page_env_def js_num_simps) blast

end
