(* ===== verification/App_Routing.thy ===== *)
theory App_Routing
  imports Task_Page
begin

text \<open>
  \<open>daisen/static/src/app.ts\<close>: the application, which shows the dashboard or the task page for the
  address of the window.  The address is its path and its search parameters as texts.  A request of
  the application carries the parameters that its callback has captured.  Every visit of the task
  page registers one more mouse handler on the element of the page, so the handlers are a list and
  an event of the browser reaches all of them in the order of their registration.

  The dashboard has its own theory; here only the calls of its \<open>render\<close> are counted.  Reading and
  printing numbers and the sizes of the elements are arguments.  The address as text is
  \<open>ap_params\<close>; the field \<open>tp_url\<close> of the page, which has the numbers of it, is not read here.
\<close>

subsection \<open>State\<close>

datatype app_view = DashboardView | TaskPageView

type_synonym params = "(string, string) js_map"

datatype app_fetch =
    SimulationForTask
  | TaskFor string params
  | SimulationForComponent string params

record app_env =
  env_libs :: libs
  env_parseFloat :: "string \<Rightarrow> js_num"
  env_toString :: "js_num \<Rightarrow> string"
  env_width :: js_num \<comment> \<open>the width of the container\<close>
  env_sizes :: sizes

record app =
  ap_currentView :: "app_view option"
  ap_path :: string
  ap_params :: params
  ap_page :: task_page
  ap_handlers :: "mouse_handler list"
  ap_dashboardRenders :: nat
  ap_fetches :: "app_fetch list"

definition new_app :: "string \<Rightarrow> params \<Rightarrow> task_page \<Rightarrow> app" where
  "new_app path params page =
     \<lparr> ap_currentView = None, ap_path = path, ap_params = params, ap_page = page, ap_handlers = [],
       ap_dashboardRenders = 0, ap_fetches = [] \<rparr>"

definition and_then :: "'a js_result option \<Rightarrow> ('a \<Rightarrow> 'b js_result option) \<Rightarrow> 'b js_result option" where
  "and_then r f = (case r of None \<Rightarrow> None | Some (Inl e) \<Rightarrow> Some (Inl e) | Some (Inr a) \<Rightarrow> f a)"

lemma and_then_simps [simp]:
  "and_then None f = None" "and_then (Some (Inl e)) f = Some (Inl e)" "and_then (Some (Inr a)) f = f a"
  by (simp_all add: and_then_def)

lemma and_then_Inr:
  "and_then r f = Some (Inr b) \<longleftrightarrow> (\<exists>a. r = Some (Inr a) \<and> f a = Some (Inr b))"
  by (auto simp: and_then_def split: option.splits sum.splits)

subsection \<open>Routing\<close>

definition switchLayout :: "app_env \<Rightarrow> app_view \<Rightarrow> app \<Rightarrow> app js_result option" where
  "switchLayout E view a =
     (if ap_currentView a = Some view then Some (Inr a)
      else
        let a1 = a\<lparr>ap_currentView := Some view\<rparr>
        in case view of
             DashboardView \<Rightarrow> Some (Inr a1)
           | TaskPageView \<Rightarrow>
               and_then (page_layout (env_libs E) (env_width E) (env_sizes E) (ap_page a1)) (\<lambda>p.
                 Some (Inr (a1\<lparr>ap_page := p\<rparr>))))"

definition register :: "app \<Rightarrow> app" where
  \<comment> \<open>\<open>new MouseEventHandler(this._taskPage)\<close> and \<open>register\<close>\<close>
  "register a = a\<lparr>ap_handlers := ap_handlers a @ [new_mouse_handler]\<rparr>"

definition ask :: "app_fetch \<Rightarrow> app \<Rightarrow> app" where
  "ask q a = a\<lparr>ap_fetches := ap_fetches a @ [q]\<rparr>"

definition on_page :: "(task_page \<Rightarrow> task_page) \<Rightarrow> app \<Rightarrow> app" where
  "on_page f a = a\<lparr>ap_page := f (ap_page a)\<rparr>"

definition showTaskPage :: "app_env \<Rightarrow> app \<Rightarrow> app js_result option" where
  "showTaskPage E a =
     and_then (switchLayout E TaskPageView a) (\<lambda>a1.
       let a2 = register a1
       in Some (Inr (case map_get (ap_params a2) ''id'' of
            None \<Rightarrow> ask SimulationForTask a2
          | Some taskID \<Rightarrow> ask (TaskFor taskID (ap_params a2)) a2)))"

definition simulation_for_task :: "ref list \<Rightarrow> app \<Rightarrow> app js_result" where
  \<comment> \<open>the response to \<open>SimulationForTask\<close>\<close>
  "simulation_for_task rsp a =
     (case rsp of
        [] \<Rightarrow> Inl TypeError
      | t # _ \<Rightarrow>
          let i = task_id (tp_store (ap_page a) t)
          in Inr (on_page (showTask (Some i)) (a\<lparr>ap_path := ''/task'', ap_params := [(''id'', i)]\<rparr>)))"

definition task_for :: "app_env \<Rightarrow> params \<Rightarrow> ref list \<Rightarrow> app \<Rightarrow> app \<times> bool" where
  \<comment> \<open>the response to \<open>TaskFor\<close>; the flag is the \<open>keepView\<close> of the \<open>showTask\<close> that goes on\<close>
  "task_for E params rsp a =
     (let task = (case rsp of [] \<Rightarrow> None | t # _ \<Rightarrow> Some (task_id (tp_store (ap_page a) t)))
      in case (map_get params ''starttime'', map_get params ''endtime'') of
           (Some s, Some e) \<Rightarrow>
             (on_page (\<lambda>p. showTask task
                (setTimeRange (env_libs E) (env_parseFloat E s) (env_parseFloat E e) False p)) a, True)
         | _ \<Rightarrow> (on_page (showTask task) a, False))"

definition showComponentPage :: "app_env \<Rightarrow> app \<Rightarrow> app js_result option" where
  \<comment> \<open>up to the first \<open>await\<close>; a missing name is sent as the text \<open>null\<close>\<close>
  "showComponentPage E a =
     and_then (switchLayout E TaskPageView a) (\<lambda>a1.
       let a2 = register a1;
           name = (case map_get (ap_params a2) ''name'' of None \<Rightarrow> ''null'' | Some n \<Rightarrow> n)
       in Some (Inr (case (map_get (ap_params a2) ''starttime'', map_get (ap_params a2) ''endtime'') of
            (Some s, Some e) \<Rightarrow>
              on_page (\<lambda>p. showComponent name
                (setTimeRange (env_libs E) (env_parseFloat E s) (env_parseFloat E e) False p)) a2
          | _ \<Rightarrow> ask (SimulationForComponent name (ap_params a2)) a2)))"

definition simulation_for_component :: "app_env \<Rightarrow> string \<Rightarrow> params \<Rightarrow> ref list \<Rightarrow> app \<Rightarrow> app js_result" where
  \<comment> \<open>the response to \<open>SimulationForComponent\<close>; the second parameter is written with a capital letter\<close>
  "simulation_for_component E name params rsp a =
     (case rsp of
        [] \<Rightarrow> Inl TypeError
      | t # _ \<Rightarrow>
          let s = start_time (tp_store (ap_page a) t);
              e = end_time (tp_store (ap_page a) t);
              params' = map_set ''endTime'' (env_toString E e) (map_set ''starttime'' (env_toString E s) params)
          in Inr (on_page (\<lambda>p. showComponent name (setTimeRange (env_libs E) s e False p))
               (a\<lparr>ap_path := ''/component'', ap_params := params'\<rparr>)))"

definition route :: "app_env \<Rightarrow> app \<Rightarrow> app js_result option" where
  "route E a =
     (let path = ap_path a
      in if path = ''/'' \<or> path = ''/dashboard''
         then and_then (switchLayout E DashboardView a) (\<lambda>a1.
                Some (Inr (a1\<lparr>ap_dashboardRenders := ap_dashboardRenders a1 + 1\<rparr>)))
         else and_then (if path = ''/task'' then showTaskPage E a else Some (Inr a)) (\<lambda>a1.
                if path = ''/component'' then showComponentPage E a1 else Some (Inr a1)))"

definition visit :: "app_env \<Rightarrow> string \<times> params \<Rightarrow> app \<Rightarrow> app js_result option" where
  \<comment> \<open>the user goes back or forward in the history: the event \<open>popstate\<close>\<close>
  "visit E l a = route E (a\<lparr>ap_path := fst l, ap_params := snd l\<rparr>)"

fun visits :: "app_env \<Rightarrow> (string \<times> params) list \<Rightarrow> app \<Rightarrow> app js_result option" where
  "visits E [] a = Some (Inr a)"
| "visits E (l # ls) a = and_then (visit E l a) (visits E ls)"

subsection \<open>Events of the page\<close>

fun dispatch_each ::
    "libs \<Rightarrow> mouse_event \<Rightarrow> mouse_handler list \<Rightarrow> task_page \<Rightarrow> (mouse_handler list \<times> task_page)" where
  \<comment> \<open>all listeners of the element run; an exception ends only the listener that raises it\<close>
  "dispatch_each L e [] p = ([], p)"
| "dispatch_each L e (m # ms) p =
     (let (m', p') = (case dispatch (page_zoom L) e (m, p) of Inl _ \<Rightarrow> (m, p) | Inr s \<Rightarrow> s);
          (ms', p'') = dispatch_each L e ms p'
      in (m' # ms', p''))"

definition page_event :: "app_env \<Rightarrow> mouse_event \<Rightarrow> app \<Rightarrow> app" where
  "page_event E e a =
     (let (ms, p) = dispatch_each (env_libs E) e (ap_handlers a) (ap_page a)
      in a\<lparr>ap_handlers := ms, ap_page := p\<rparr>)"

definition app_reload :: "app_env \<Rightarrow> nat \<Rightarrow> nat \<Rightarrow> app \<Rightarrow> app js_result" where
  \<comment> \<open>a pending time-out of handler \<open>i\<close> fires; \<open>setTimeRange\<close> writes the range into the address\<close>
  "app_reload E i t a =
     bind_result (dispatch (page_zoom (env_libs E)) (TimerFires t) (ap_handlers a ! i, ap_page a)) (\<lambda>(m, p).
       Inr (a\<lparr>ap_handlers := (ap_handlers a)[i := m], ap_page := p,
         ap_params := map_set ''endtime'' (env_toString E (tp_endTime p))
           (map_set ''starttime'' (env_toString E (tp_startTime p)) (ap_params a))\<rparr>))"

subsection \<open>Handlers\<close>

definition shows_page :: "string \<times> params \<Rightarrow> bool" where
  "shows_page l \<longleftrightarrow> fst l = ''/task'' \<or> fst l = ''/component''"

lemma switchLayout_handlers: "switchLayout E view a = Some (Inr b) \<Longrightarrow> ap_handlers b = ap_handlers a"
  by (auto simp: switchLayout_def Let_def and_then_Inr split: if_splits app_view.splits)

lemma register_handlers: "ap_handlers (register a) = ap_handlers a @ [new_mouse_handler]"
  by (simp add: register_def)

lemma effect_handlers [simp]: "ap_handlers (ask q a) = ap_handlers a" "ap_handlers (on_page f a) = ap_handlers a"
  by (simp_all add: ask_def on_page_def)

lemma page_handlers:
  "showTaskPage E a = Some (Inr b) \<Longrightarrow> ap_handlers b = ap_handlers a @ [new_mouse_handler]"
  "showComponentPage E a = Some (Inr b) \<Longrightarrow> ap_handlers b = ap_handlers a @ [new_mouse_handler]"
proof -
  show "ap_handlers b = ap_handlers a @ [new_mouse_handler]" if "showTaskPage E a = Some (Inr b)"
    using that by (auto simp: showTaskPage_def and_then_Inr Let_def register_handlers dest!: switchLayout_handlers
        split: option.splits)
  assume "showComponentPage E a = Some (Inr b)"
  then obtain a1 where "switchLayout E TaskPageView a = Some (Inr a1)" "ap_handlers b = ap_handlers (register a1)"
    by (cases "map_get (ap_params (register (projr (the (switchLayout E TaskPageView a))))) ''starttime''";
        cases "map_get (ap_params (register (projr (the (switchLayout E TaskPageView a))))) ''endtime''")
      (auto simp: showComponentPage_def and_then_Inr Let_def)
  then show "ap_handlers b = ap_handlers a @ [new_mouse_handler]"
    by (auto simp: register_handlers dest!: switchLayout_handlers)
qed

lemma visit_handlers:
  "visit E l a = Some (Inr b) \<Longrightarrow>
   ap_handlers b = ap_handlers a @ (if shows_page l then [new_mouse_handler] else [])"
  by (auto simp: visit_def route_def shows_page_def and_then_Inr Let_def
      dest!: switchLayout_handlers page_handlers split: if_splits)

lemma visits_handlers:
  "visits E ls a = Some (Inr b) \<Longrightarrow>
   ap_handlers b = ap_handlers a @ replicate (length (filter shows_page ls)) new_mouse_handler"
proof (induction ls arbitrary: a)
  case (Cons l ls)
  then show ?case by (auto simp: and_then_Inr dest!: visit_handlers)
qed simp

lemma wheel_each:
  assumes "shows_at (page_zoom L) page_inv p s e 0 w" "0 < w" "d \<noteq> 0"
  shows "\<exists>ms' p' s' e'. dispatch_each L (Wheel 0 d x) ms p = (ms', p') \<and>
    shows_at (page_zoom L) page_inv p' s' e' 0 w \<and> e' - s' = (e - s) * zoom_factor d ^ length ms \<and>
    time_at s' e' 0 w x = time_at s e 0 w x"
  using assms(1)
proof (induction ms arbitrary: p s e)
  case (Cons m ms)
  obtain p1 s1 e1 where one: "dispatch (page_zoom L) (Wheel 0 d x) (m, p) = Inr (continueScrolling m, p1)"
    "shows_at (page_zoom L) page_inv p1 s1 e1 0 w" "e1 - s1 = (e - s) * zoom_factor d"
    "time_at s1 e1 0 w x = time_at s e 0 w x"
    using tp.wheel_at [OF Cons.prems assms(2,3), of x m] by metis
  from Cons.IH [OF one(2)] obtain ms' p' s' e' where rest: "dispatch_each L (Wheel 0 d x) ms p1 = (ms', p')"
    "shows_at (page_zoom L) page_inv p' s' e' 0 w" "e' - s' = (e1 - s1) * zoom_factor d ^ length ms"
    "time_at s' e' 0 w x = time_at s1 e1 0 w x" by blast
  have "dispatch_each L (Wheel 0 d x) (m # ms) p = (continueScrolling m # ms', p')"
    using one(1) rest(1) by (simp del: dispatch.simps)
  moreover have "e' - s' = (e - s) * zoom_factor d ^ length (m # ms)" using rest(3) one(3) by (simp add: mult.assoc)
  ultimately show ?case using rest(2,4) one(4) by metis
qed (use assms in auto)

subsection \<open>The first visit\<close>

lemma layout_new_page:
  "\<exists>p. page_layout L W sz (new_task_page h url) = Some (Inr p) \<and> tp_requests p = [] \<and>
     tp_leftColumnWidth p = W - 350 - 1"
  by (simp add: page_layout_def new_task_page_def new_task_view_def new_component_view_def tv_setCanvas_def
      tv_doRender_def tv_updateLayout_def tv_updateTimeScale_def cv_setCanvas_def renderData_def cv_updateLayout_def
      cv_updateTimeScale_def column_sizes_def Let_def)

lemma component_with_range:
  assumes "map_get params ''name'' = Some n" "map_get params ''starttime'' = Some s" "map_get params ''endtime'' = Some e"
  shows "\<exists>b. route E (new_app ''/component'' params (new_task_page h url)) = Some (Inr b) \<and> ap_fetches b = [] \<and>
    page_inv (ap_page b) \<and> tp_startTime (ap_page b) = env_parseFloat E s \<and> tp_endTime (ap_page b) = env_parseFloat E e \<and>
    tp_leftColumnWidth (ap_page b) = env_width E - 350 - 1 \<and> ap_handlers b = [new_mouse_handler] \<and>
    ap_currentView b = Some TaskPageView \<and>
    tp_requests (ap_page b) = [TraceAt n (env_parseFloat E s) (env_parseFloat E e)]"
proof -
  obtain p where p: "page_layout (env_libs E) (env_width E) (env_sizes E) (new_task_page h url) = Some (Inr p)"
    "tp_requests p = []" "tp_leftColumnWidth p = env_width E - 350 - 1"
    using layout_new_page by blast
  let ?p = "setTimeRange (env_libs E) (env_parseFloat E s) (env_parseFloat E e) False p"
  have "page_inv ?p" by (rule setTimeRange_inv)
  moreover have "tp_requests ?p = []" "tp_leftColumnWidth ?p = env_width E - 350 - 1"
    "tp_startTime ?p = env_parseFloat E s" "tp_endTime ?p = env_parseFloat E e"
    using p by (simp_all add: setTimeRange_def set_views_def Let_def)
  ultimately show ?thesis using assms p
    by (simp add: route_def new_app_def showComponentPage_def switchLayout_def register_def on_page_def Let_def)
      (simp add: showComponent_def send_def switchToComponentOnlyMode_def Let_def)
qed

subsection \<open>Properties\<close>

text \<open>
  (C29) The wheel zooms once for every visit: each route to the task page or to a component adds a
  mouse handler to the same element, so after \<open>n\<close> of them one turn of the wheel scales the time
  range by the \<open>n\<close>-th power of the zoom factor.  The time under the mouse still stays where it is.
\<close>

theorem app_wheel_compounds:
  assumes "visits E ls (new_app path params p0) = Some (Inr a)"
    and "page_inv (ap_page a)" "tp_startTime (ap_page a) = Num s" "tp_endTime (ap_page a) = Num e"
    and "tp_leftColumnWidth (ap_page a) = Num w" "0 < w" "d \<noteq> 0"
  shows "\<exists>s' e'. tp_startTime (ap_page (page_event E (Wheel 0 d x) a)) = Num s' \<and>
    tp_endTime (ap_page (page_event E (Wheel 0 d x) a)) = Num e' \<and>
    e' - s' = (e - s) * zoom_factor d ^ length (filter shows_page ls) \<and>
    time_at s' e' 0 w x = time_at s e 0 w x"
proof -
  have n: "length (ap_handlers a) = length (filter shows_page ls)"
    using visits_handlers [OF assms(1)] by (simp add: new_app_def)
  have "shows_at (page_zoom (env_libs E)) page_inv (ap_page a) s e 0 w" using assms by (simp add: page_shows_at)
  from wheel_each [OF this assms(6,7), of x "ap_handlers a"] show ?thesis
    by (auto simp: page_event_def page_shows_at n)
qed

definition sample_env :: app_env where
  "sample_env = \<lparr>env_libs = sample_libs, env_parseFloat = (\<lambda>t. if t = ''0'' then 0 else 10), env_toString = (\<lambda>x. if x = 0 then ''0'' else ''10''),
     env_width = Num 1151, env_sizes = \<lparr>task_canvas_w = 800, task_canvas_h = 200, component_canvas_w = 800, component_canvas_h = 400\<rparr>\<rparr>"

definition sample_params :: params where
  "sample_params = [(''name'', ''GPU''), (''starttime'', ''0''), (''endtime'', ''10'')]"

theorem app_wheel_compounds_witness:
  "\<exists>a s' e'. visits sample_env [(''/component'', sample_params), (''/component'', sample_params)]
      (new_app ''/'' [] (new_task_page (\<lambda>_. new_task) [])) = Some (Inr a) \<and>
    tp_startTime (ap_page (page_event sample_env (Wheel 0 1 400) a)) = Num s' \<and>
    tp_endTime (ap_page (page_event sample_env (Wheel 0 1 400) a)) = Num e' \<and>
    e' - s' = 10 * zoom_factor 1 ^ 2"
proof -
  let ?l = "(''/component'', sample_params)"
  have get: "map_get sample_params ''name'' = Some ''GPU''" "map_get sample_params ''starttime'' = Some ''0''"
    "map_get sample_params ''endtime'' = Some ''10''" by (simp_all add: sample_params_def)
  obtain b where b: "visit sample_env ?l (new_app ''/'' [] (new_task_page (\<lambda>_. new_task) [])) = Some (Inr b)"
    "ap_currentView b = Some TaskPageView" "tp_leftColumnWidth (ap_page b) = Num 800"
    using component_with_range [OF get, of sample_env "\<lambda>_. new_task" "[]"]
    by (auto simp: visit_def new_app_def sample_env_def js_num_simps)
  let ?p = "showComponent ''GPU'' (setTimeRange sample_libs 0 10 False (ap_page b))"
  obtain a where a: "visit sample_env ?l b = Some (Inr a)" "ap_page a = ?p"
    using b(2) get
    by (simp add: visit_def route_def showComponentPage_def switchLayout_def register_def on_page_def Let_def)
      (simp add: sample_env_def)
  have axis: "page_getAxisStatus ?p = (0, 10, 0, Num 800)" using b(3) by (simp add: setTimeRange_axis)
  have "page_inv (ap_page a)" using a(2) setTimeRange_inv by simp
  moreover have "tp_startTime (ap_page a) = Num 0" "tp_endTime (ap_page a) = Num 10" "tp_leftColumnWidth (ap_page a) = Num 800"
    using axis a(2) by (simp_all add: page_getAxisStatus_def js_num_simps)
  moreover have run: "visits sample_env [?l, ?l] (new_app ''/'' [] (new_task_page (\<lambda>_. new_task) [])) = Some (Inr a)"
    using b(1) a(1) by simp
  ultimately show ?thesis
    using app_wheel_compounds [OF run, of 0 10 800 1 400] by (auto simp: shows_page_def numeral_2_eq_2)
qed

text \<open>
  (C30) The address of a component keeps the view: when the pending reload has fired, opening the
  address in a new window asks the server for the same component and the same range without a
  further question, provided that the two numbers are read back as they were printed.
\<close>

theorem app_address_roundtrip:
  assumes "t \<in> set (timers (ap_handlers a ! i))" "tp_componentOnlyMode (ap_page a)" "ap_path a = ''/component''"
    and "map_get (ap_params a) ''name'' = Some (tp_componentName (ap_page a))"
    and "env_parseFloat E (env_toString E (tp_startTime (ap_page a))) = tp_startTime (ap_page a)"
    and "env_parseFloat E (env_toString E (tp_endTime (ap_page a))) = tp_endTime (ap_page a)"
  shows "\<exists>a' b. app_reload E i t a = Inr a' \<and>
    route E (new_app (ap_path a') (ap_params a') (new_task_page h [])) = Some (Inr b) \<and> ap_fetches b = [] \<and>
    tp_startTime (ap_page b) = tp_startTime (ap_page a) \<and> tp_endTime (ap_page b) = tp_endTime (ap_page a) \<and>
    tp_requests (ap_page a') = tp_requests (ap_page a) @ tp_requests (ap_page b)"
proof -
  let ?p = "ap_page a"
  let ?q = "setTimeRange (env_libs E) (tp_startTime ?p) (tp_endTime ?p) True ?p"
  let ?params = "map_set ''endtime'' (env_toString E (tp_endTime ?p)) (map_set ''starttime'' (env_toString E (tp_startTime ?p)) (ap_params a))"
  have q: "tp_startTime ?q = tp_startTime ?p" "tp_endTime ?q = tp_endTime ?p"
    "tp_requests ?q = tp_requests ?p @ [TraceAt (tp_componentName ?p) (tp_startTime ?p) (tp_endTime ?p)]"
    using assms(2) by (simp_all add: setTimeRange_def set_views_def showComponent_def send_def switchToComponentOnlyMode_def Let_def)
  obtain a' where a': "app_reload E i t a = Inr a'" "ap_params a' = ?params" "ap_path a' = ap_path a" "ap_page a' = ?q"
    using assms(1) q
    by (simp add: app_reload_def triggerReload_def page_zoom_def page_getAxisStatus_def page_permanentTimeShift_def)
  have "map_get ?params ''name'' = Some (tp_componentName ?p)"
    "map_get ?params ''starttime'' = Some (env_toString E (tp_startTime ?p))"
    "map_get ?params ''endtime'' = Some (env_toString E (tp_endTime ?p))"
    using assms(4) by (simp_all add: jm.get_put)
  from component_with_range [OF this, of E h "[]"] show ?thesis
    using a' q(3) assms(3,5,6) by auto
qed

definition sample_app :: app where
  \<comment> \<open>a component from 0 to 10 with a pending reload\<close>
  "sample_app = (new_app ''/component'' sample_params
     (sample_page\<lparr>tp_componentOnlyMode := True, tp_componentName := ''GPU''\<rparr>))\<lparr>ap_handlers := [continueScrolling new_mouse_handler]\<rparr>"

theorem app_address_roundtrip_witness:
  "\<exists>a' b. app_reload sample_env 0 1 sample_app = Inr a' \<and>
     route sample_env (new_app (ap_path a') (ap_params a') (new_task_page (\<lambda>_. new_task) [])) = Some (Inr b) \<and>
     tp_startTime (ap_page b) = 0 \<and> tp_endTime (ap_page b) = 10"
proof -
  have "1 \<in> set (timers (ap_handlers sample_app ! 0))" "tp_componentOnlyMode (ap_page sample_app)"
    "ap_path sample_app = ''/component''"
    "map_get (ap_params sample_app) ''name'' = Some (tp_componentName (ap_page sample_app))"
    by (simp_all add: sample_app_def new_app_def sample_params_def continueScrolling_def new_mouse_handler_def)
  moreover have "tp_startTime (ap_page sample_app) = 0" "tp_endTime (ap_page sample_app) = 10"
    using sample_page_simps by (simp_all add: sample_app_def new_app_def js_num_simps)
  ultimately show ?thesis
    using app_address_roundtrip [of 1 sample_app 0 sample_env "\<lambda>_. new_task"] by (simp add: sample_env_def js_num_simps) blast
qed

text \<open>
  An address without a time range stays incomplete: after the server has told the range of
  the simulation, the address has a \<open>starttime\<close> but no \<open>endtime\<close>, because the name is written
  with a capital letter, and opening it asks the server for the range once more.
\<close>

theorem app_address_incomplete:
  assumes "map_get params ''endtime'' = None" "simulation_for_component E name params rsp a = Inr a'"
  shows "map_get (ap_params a') ''starttime'' \<noteq> None \<and> map_get (ap_params a') ''endtime'' = None \<and>
    (\<exists>b n. route E (new_app (ap_path a') (ap_params a') (new_task_page h [])) = Some (Inr b) \<and>
      ap_fetches b = [SimulationForComponent n (ap_params a')])"
proof -
  have path: "ap_path a' = ''/component''" and st: "map_get (ap_params a') ''starttime'' \<noteq> None"
    and en: "map_get (ap_params a') ''endtime'' = None"
    using assms by (auto simp: simulation_for_component_def Let_def on_page_def jm.get_put split: list.splits)
  obtain p where p: "page_layout (env_libs E) (env_width E) (env_sizes E) (new_task_page h []) = Some (Inr p)"
    using layout_new_page by blast
  have "\<exists>b n. route E (new_app ''/component'' (ap_params a') (new_task_page h [])) = Some (Inr b) \<and>
      ap_fetches b = [SimulationForComponent n (ap_params a')]"
    using st en p
    by (auto simp: route_def new_app_def showComponentPage_def switchLayout_def register_def ask_def Let_def)
  then show ?thesis using path st en by simp
qed

theorem app_address_incomplete_witness:
  "\<exists>a'. simulation_for_component sample_env ''GPU'' [(''name'', ''GPU'')] [0] sample_app = Inr a' \<and>
     map_get (ap_params a') ''endtime'' = None"
proof -
  obtain a' where a': "simulation_for_component sample_env ''GPU'' [(''name'', ''GPU'')] [0] sample_app = Inr a'"
    by (simp add: simulation_for_component_def Let_def)
  from app_address_incomplete [OF _ a'] a' show ?thesis by auto
qed

end
