(* ===== verification/Runs.thy ===== *)
theory Runs
  imports Main
begin

text \<open>
  Runs of a component: the states that a sequence of allowed events leads to.  A component gives
  the events that can happen in a state and the state after an event.  The locale
  \<open>kept_invariant\<close> states that a property is kept by every allowed event, and its lemmas carry the
  property along runs.
\<close>

inductive run :: "('e \<Rightarrow> 's \<Rightarrow> bool) \<Rightarrow> ('e \<Rightarrow> 's \<Rightarrow> 's) \<Rightarrow> 's \<Rightarrow> 's \<Rightarrow> bool"
  for allowed :: "'e \<Rightarrow> 's \<Rightarrow> bool" and step :: "'e \<Rightarrow> 's \<Rightarrow> 's" where
  run_none: "run allowed step s s"
| run_one: "run allowed step s t \<Longrightarrow> allowed e t \<Longrightarrow> run allowed step s (step e t)"

lemma run_trans: "run allowed step t u \<Longrightarrow> run allowed step s t \<Longrightarrow> run allowed step s u"
  by (induction rule: run.induct) (auto intro: run.intros)

lemma run_step: "allowed e s \<Longrightarrow> run allowed step s (step e s)"
  by (auto intro: run.intros)

locale kept_invariant =
  fixes allowed :: "'e \<Rightarrow> 's \<Rightarrow> bool"
    and step :: "'e \<Rightarrow> 's \<Rightarrow> 's"
    and inv :: "'s \<Rightarrow> bool"
  assumes step_keeps: "inv s \<Longrightarrow> allowed e s \<Longrightarrow> inv (step e s)"
begin

lemma run_keeps: "run allowed step s t \<Longrightarrow> inv s \<Longrightarrow> inv t"
  by (induction rule: run.induct) (auto intro: step_keeps)

lemma iterate_keeps: "(\<And>s. allowed e s) \<Longrightarrow> inv s \<Longrightarrow> inv ((step e ^^ n) s)"
  by (induction n) (auto intro: step_keeps)

end

end
