(* ===== verification/Daisen_App.thy ===== *)
theory Daisen_App
  imports Page_Layout App_Routing Runs
begin

text \<open>
  The whole of Daisen: the application (\<open>daisen/static/src/app.ts\<close>) with its two pages in one window.
  \<open>App_Routing\<close> has the routes with the sizes of the canvases as arguments and \<open>Page_Layout\<close> has the
  elements of the pages; here the pages are laid out in the window, when the application switches to
  them and when the window is resized, and the canvases have the sizes of these elements.

  The window has a width and a height that change; how the browser turns the style of an element
  into its size is an argument.
\<close>

subsection \<open>State\<close>

record daisen =
  da_app :: app
  da_dashboard :: dashboard_page
  da_columns :: page_columns \<comment> \<open>the elements of the task page\<close>
  da_window :: page_env
  da_height :: js_num \<comment> \<open>the height of \<open>inner-container\<close>, in which both pages put their elements\<close>

definition canvas_sizes :: "page_env \<Rightarrow> page_columns \<Rightarrow> sizes" where
  \<comment> \<open>\<open>offsetWidth\<close> and \<open>offsetHeight\<close> of the two canvases of the task page\<close>
  "canvas_sizes W c =
     (let (tw, th) = the (pc_taskViewCanvas c); (cw, ch) = the (pc_componentViewCanvas c)
      in \<lparr> task_canvas_w = pe_offset W tw, task_canvas_h = pe_offset W th,
           component_canvas_w = pe_offset W cw, component_canvas_h = pe_offset W ch \<rparr>)"

definition new_daisen :: "page_env \<Rightarrow> string \<Rightarrow> params \<Rightarrow> store \<Rightarrow> dashboard \<Rightarrow> daisen" where
  \<comment> \<open>\<open>new App()\<close> in a window at the address\<close>
  "new_daisen W path params st d =
     \<lparr> da_app = new_app path params (new_task_page st []), da_dashboard = new_dashboard_page d, da_columns = no_columns,
       da_window = W, da_height = Undef \<rparr>"

subsection \<open>Layout and routing\<close>

definition layout_view :: "app_env \<Rightarrow> app_view \<Rightarrow> daisen \<Rightarrow> daisen js_result option" where
  \<comment> \<open>\<open>layout()\<close> of a page\<close>
  "layout_view E view D =
     (case view of
        DashboardView \<Rightarrow>
          Some (bind_result (dg_layout (da_window D) (lib_scale (env_libs E)) (da_dashboard D)) (\<lambda>p.
            Inr (D\<lparr>da_dashboard := p, da_height := dg_containerHeight p\<rparr>)))
      | TaskPageView \<Rightarrow>
          let c = layout_columns (da_window D) (da_columns D)
          in and_then (page_layout (env_libs E) (pe_containerWidth (da_window D)) (canvas_sizes (da_window D) c) (ap_page (da_app D)))
               (\<lambda>p. Some (Inr (D\<lparr>da_columns := c, da_height := pc_containerHeight c, da_app := (da_app D)\<lparr>ap_page := p\<rparr>\<rparr>))))"

definition da_switchLayout :: "app_env \<Rightarrow> app_view \<Rightarrow> daisen \<Rightarrow> daisen js_result option" where
  "da_switchLayout E view D =
     (if ap_currentView (da_app D) = Some view then Some (Inr D)
      else layout_view E view (D\<lparr>da_app := (da_app D)\<lparr>ap_currentView := Some view\<rparr>\<rparr>))"

definition view_of :: "string \<Rightarrow> app_view option" where
  "view_of path =
     (if path = ''/'' \<or> path = ''/dashboard'' then Some DashboardView
      else if path = ''/task'' \<or> path = ''/component'' then Some TaskPageView else None)"

definition da_route :: "app_env \<Rightarrow> daisen \<Rightarrow> daisen js_result option" where
  \<comment> \<open>every route to a page starts with \<open>switchLayout\<close>; the one in \<open>route\<close> then finds the page current\<close>
  "da_route E D =
     and_then (case view_of (ap_path (da_app D)) of None \<Rightarrow> Some (Inr D) | Some view \<Rightarrow> da_switchLayout E view D) (\<lambda>D1.
       and_then (route E (da_app D1)) (\<lambda>a. Some (Inr (D1\<lparr>da_app := a\<rparr>))))"

definition da_resize :: "app_env \<Rightarrow> daisen \<Rightarrow> daisen js_result option" where
  \<comment> \<open>the listener of \<open>resize\<close>; before the first page is shown the current view is \<open>null\<close>\<close>
  "da_resize E D =
     (case ap_currentView (da_app D) of None \<Rightarrow> Some (Inl TypeError) | Some view \<Rightarrow> layout_view E view D)"

subsection \<open>Events\<close>

datatype daisen_event =
    History string params \<comment> \<open>\<open>popstate\<close>\<close>
  | WindowSize js_num js_num js_num \<comment> \<open>the width of the container, the heights of the window and of the navigation bar\<close>
  | PageMouse mouse_event
  | PageTimer nat nat \<comment> \<open>a time-out of one of the mouse handlers\<close>
  | SimulationTask "ref list" | TaskArrives params "ref list" | SimulationComponent string params "ref list"
  | TaskLoaded bool "ref list" | ParentLoaded ref | TaskFinish ref "ref list" parent_object "ref list"
  | ComponentFinish "ref list"
  | FilterTyped string | FilterFires nat | PrimaryChosen string | SecondaryChosen string
  | DashboardArrives "(js_num \<times> js_num) option" "string list"

definition with_app :: "daisen \<Rightarrow> app js_result \<Rightarrow> daisen js_result option" where
  "with_app D r = Some (bind_result r (\<lambda>a. Inr (D\<lparr>da_app := a\<rparr>)))"

definition with_page :: "daisen \<Rightarrow> task_page js_result option \<Rightarrow> daisen js_result option" where
  "with_page D r = and_then r (\<lambda>p. Some (Inr (D\<lparr>da_app := (da_app D)\<lparr>ap_page := p\<rparr>\<rparr>)))"

definition with_dashboard :: "daisen \<Rightarrow> dashboard_page js_result \<Rightarrow> daisen js_result option" where
  "with_dashboard D r = Some (bind_result r (\<lambda>p. Inr (D\<lparr>da_dashboard := p\<rparr>)))"

fun daisen_step ::
    "app_env \<Rightarrow> (string \<Rightarrow> (string \<Rightarrow> bool) option) \<Rightarrow> daisen_event \<Rightarrow> daisen \<Rightarrow> daisen js_result option" where
  "daisen_step E R (History path params) D = da_route E (D\<lparr>da_app := (da_app D)\<lparr>ap_path := path, ap_params := params\<rparr>\<rparr>)"
| "daisen_step E R (WindowSize w h n) D =
     da_resize E (D\<lparr>da_window := (da_window D)\<lparr>pe_containerWidth := w, pe_windowHeight := h, pe_navHeight := n\<rparr>\<rparr>)"
| "daisen_step E R (PageMouse e) D = with_app D (Inr (page_event E e (da_app D)))"
| "daisen_step E R (PageTimer i t) D = with_app D (app_reload E i t (da_app D))"
| "daisen_step E R (SimulationTask rsp) D = with_app D (simulation_for_task rsp (da_app D))"
| "daisen_step E R (TaskArrives params rsp) D = with_app D (Inr (fst (task_for E params rsp (da_app D))))"
| "daisen_step E R (SimulationComponent name params rsp) D = with_app D (simulation_for_component E name params rsp (da_app D))"
| "daisen_step E R (TaskLoaded keepView rsp) D =
     with_page D (Some (showTask_loaded (canvas_sizes (da_window D) (da_columns D)) keepView rsp (ap_page (da_app D))))"
| "daisen_step E R (ParentLoaded t) D = with_page D (Some (Inr (showTask_parent t (ap_page (da_app D)))))"
| "daisen_step E R (TaskFinish t subs par same) D = with_page D (showTask_finish (env_libs E) t subs par same (ap_page (da_app D)))"
| "daisen_step E R (ComponentFinish same) D = with_page D (showComponent_finish (env_libs E) same (ap_page (da_app D)))"
| "daisen_step E R (FilterTyped v) D = with_dashboard D (Inr (filterInputChage v (da_dashboard D)))"
| "daisen_step E R (FilterFires h) D = with_dashboard D (filter_timeout R h (da_dashboard D))"
| "daisen_step E R (PrimaryChosen v) D = with_dashboard D (Inr (select_primary v (da_dashboard D)))"
| "daisen_step E R (SecondaryChosen v) D = with_dashboard D (Inr (select_secondary v (da_dashboard D)))"
| "daisen_step E R (DashboardArrives simulation names) D =
     with_dashboard D (dg_render (lib_scale (env_libs E)) (env_parseFloat E) (env_toString E) R simulation names (da_dashboard D))"

subsection \<open>The sizes of the task page\<close>

definition page_sizes :: "task_page \<Rightarrow> js_num \<times> sizes" where
  \<comment> \<open>what the page and its views have read from their elements\<close>
  "page_sizes p = (tp_leftColumnWidth p,
     \<lparr> task_canvas_w = tv_canvasWidth (tp_taskView p), task_canvas_h = tv_canvasHeight (tp_taskView p),
       component_canvas_w = cv_canvasWidth (tp_componentView p), component_canvas_h = cv_canvasHeight (tp_componentView p) \<rparr>)"

definition times_of :: "js_num \<Rightarrow> js_num \<Rightarrow> task_page \<Rightarrow> bool" where
  \<comment> \<open>the component view has the time range of the page, or none as long as the page has not set one\<close>
  "times_of s e p \<longleftrightarrow> s = tp_startTime p \<and> e = tp_endTime p \<or>
     s = Undef \<and> e = Undef \<and> tp_startTime p = 0 \<and> tp_endTime p = 0"

lemma times_of_fields [simp]:
  "times_of s e (p\<lparr>tp_taskView := v\<rparr>) = times_of s e p" "times_of s e (p\<lparr>tp_componentView := w\<rparr>) = times_of s e p"
  "times_of s e (p\<lparr>tp_store := h\<rparr>) = times_of s e p" "times_of s e (p\<lparr>tp_legend := l\<rparr>) = times_of s e p"
  "times_of s e (p\<lparr>tp_colorMap := m\<rparr>) = times_of s e p" "times_of s e (p\<lparr>tp_leftColumnWidth := x\<rparr>) = times_of s e p"
  by (simp_all add: times_of_def)

definition times_agree :: "task_page \<Rightarrow> bool" where
  "times_agree p \<longleftrightarrow> tp_rightColumnWidth p = 350 \<and>
     tv_startTime (tp_taskView p) = tp_startTime p \<and> tv_endTime (tp_taskView p) = tp_endTime p \<and>
     times_of (cv_startTime (tp_componentView p)) (cv_endTime (tp_componentView p)) p"

definition tv_frame :: "task_view \<Rightarrow> js_num \<times> js_num \<times> js_num \<times> js_num \<times> lin_scale" where
  "tv_frame v = (tv_canvasWidth v, tv_canvasHeight v, tv_startTime v, tv_endTime v, tr_xScale (tv_renderer v))"

definition cv_frame :: "component_view \<Rightarrow> js_num \<times> js_num \<times> js_num \<times> js_num \<times> lin_scale" where
  "cv_frame v = (cv_canvasWidth v, cv_canvasHeight v, cv_startTime v, cv_endTime v, tr_xScale (cv_renderer v))"

definition page_fits :: "js_num \<times> sizes \<Rightarrow> task_page \<Rightarrow> bool" where
  \<comment> \<open>the views draw over the time range with scales as wide as their canvases, in the given sizes\<close>
  "page_fits k p \<longleftrightarrow> tp_rightColumnWidth p = 350 \<and> tp_leftColumnWidth p = fst k \<and>
     tv_frame (tp_taskView p) = (task_canvas_w (snd k), task_canvas_h (snd k), tp_startTime p, tp_endTime p,
       time_scale (tp_startTime p) (tp_endTime p) (task_canvas_w (snd k))) \<and>
     (\<exists>s e. times_of s e p \<and> cv_frame (tp_componentView p) =
         (component_canvas_w (snd k), component_canvas_h (snd k), s, e, time_scale s e (component_canvas_w (snd k))))"

lemma page_fits_agree: "page_fits k p \<Longrightarrow> times_agree p"
  by (auto simp: page_fits_def times_agree_def tv_frame_def cv_frame_def)

lemma page_fits_sizes: "page_fits k p \<Longrightarrow> page_sizes p = k"
  by (cases k) (auto simp: page_fits_def page_sizes_def tv_frame_def cv_frame_def)

lemma page_inv_fits: "page_inv p \<Longrightarrow> tp_rightColumnWidth p = 350 \<Longrightarrow> page_sizes p = k \<Longrightarrow> page_fits k p"
  by (auto simp: page_fits_def page_inv_def page_sizes_def tv_frame_def cv_frame_def times_of_def)

lemma page_fits_inv:
  assumes "page_fits k p" "cv_startTime (tp_componentView p) \<noteq> Undef"
  shows "page_inv p"
  using assms by (auto simp: page_fits_def page_inv_def tv_frame_def cv_frame_def times_of_def)

lemma view_sizes [simp]:
  "tv_canvasHeight (tv_setTimeAxis s e v) = tv_canvasHeight v" "cv_canvasHeight (cv_setTimeAxis s e w) = cv_canvasHeight w"
  "tv_canvasHeight (tv_updateXAxis sc h v) = tv_canvasHeight v" "cv_canvasHeight (cv_updateXAxis sc h w) = cv_canvasHeight w"
  by (simp_all add: tv_setTimeAxis_def tv_updateTimeScale_def cv_setTimeAxis_def cv_updateTimeScale_def Let_def
      tv_updateXAxis_def cv_updateXAxis_def)

lemma show_fits [simp]:
  "page_fits k (showTask i p) = page_fits k p" "page_fits k (showComponent n p) = page_fits k p"
  "page_fits k (send rs p) = page_fits k p" "times_agree (showTask i p) = times_agree p" "times_agree (showComponent n p) = times_agree p"
  by (auto simp: page_fits_def times_agree_def times_of_def showTask_def showComponent_def send_def
      switchToTaskMode_def switchToComponentOnlyMode_def Let_def split: option.splits)

lemma setTimeRange_fits: "page_fits k p \<Longrightarrow> page_fits k (setTimeRange L s e reload p)"
proof -
  have "tp_rightColumnWidth (setTimeRange L s e reload p) = tp_rightColumnWidth p" "page_sizes (setTimeRange L s e reload p) = page_sizes p"
    by (auto simp: setTimeRange_def set_views_def page_sizes_def showTask_def showComponent_def send_def
        switchToTaskMode_def switchToComponentOnlyMode_def Let_def split: option.splits)
  then show "page_fits k p \<Longrightarrow> page_fits k (setTimeRange L s e reload p)"
    using page_fits_sizes [of k p] by (intro page_inv_fits setTimeRange_inv) (simp_all add: page_fits_def)
qed

interpretation ts: zoom_view "page_zoom L" "page_fits k" for L k
proof unfold_locales
  fix v s0 e0 l r s e
  assume fits: "page_fits k v" and axis: "getAxisStatus (page_zoom L) v = (s0, e0, l, r)"
  have at: "getAxisStatus (page_zoom L) (setTimeRange L s e reload v) = (s, e, l, r)" for reload
    using axis setTimeRange_axis [of L s e reload v] by (auto simp: page_zoom_def) (simp_all add: page_getAxisStatus_def)
  show "\<exists>v'. temporaryTimeShift (page_zoom L) s e v = Inr v' \<and> page_fits k v' \<and> getAxisStatus (page_zoom L) v' = (s, e, l, r)"
    using setTimeRange_fits [OF fits] at by (simp add: page_zoom_def page_temporaryTimeShift_def)
next
  fix v s e l r
  assume fits: "page_fits k v" and axis: "getAxisStatus (page_zoom L) v = (s, e, l, r)"
  have "getAxisStatus (page_zoom L) (setTimeRange L s e True v) = (s, e, l, r)"
    using axis setTimeRange_axis [of L s e True v] by (auto simp: page_zoom_def) (simp_all add: page_getAxisStatus_def)
  then show "\<exists>v'. permanentTimeShift (page_zoom L) s e v = Inr v' \<and> page_fits k v' \<and> getAxisStatus (page_zoom L) v' = (s, e, l, r)"
    using setTimeRange_fits [OF fits] by (simp add: page_zoom_def page_permanentTimeShift_def)
qed

text \<open>The views keep their sizes and their time scale when they draw.\<close>

lemma tv_doRender_frame: "tv_doRender join scale lk h v = Inr v' \<Longrightarrow> tv_frame v' = tv_frame v"
  by (auto simp: tv_frame_def tv_doRender_def Let_def bind_result_Inr_iff renderWithY_def renderWithHeight_def split: option.splits)

lemma renderData_frame: "renderData asg join scale lk h v = Some (Inr (v', h')) \<Longrightarrow> cv_frame v' = cv_frame v"
  by (auto simp: cv_frame_def renderData_def Let_def bind_result_Inr_iff renderWithY_def renderWithHeight_def renderWithX_def
      renderWithWidth_def split: option.splits sum.splits)

lemma tv_render_frame: "tv_render asg join scale lk t subs par h v = Inr (v', h') \<Longrightarrow> tv_frame v' = tv_frame v"
  by (auto simp: tv_render_def Let_def bind_result_Inr_iff dest!: tv_doRender_frame) (simp add: tv_frame_def)

lemma cv_render_frame: "cv_render asg join scale lk ts h v = Some (Inr (v', h')) \<Longrightarrow> cv_frame v' = cv_frame v"
proof -
  assume "cv_render asg join scale lk ts h v = Some (Inr (v', h'))"
  then obtain w where w: "renderData asg join scale lk h (v\<lparr>cv_tasks := Some ts\<rparr>) = Some (Inr (w, h'))"
    "v' = cv_label h' (the (cv_tasks w)) w"
    by (auto simp: cv_render_def split: option.splits sum.splits)
  have "cv_frame v' = cv_frame w" unfolding w(2) by (simp add: cv_frame_def cv_label_def split: list.split option.split)
  then show ?thesis using renderData_frame [OF w(1)] by (simp add: cv_frame_def)
qed

lemma draw_task_fits:
  assumes "draw_task L t subs par same p = Some (Inr q)" "page_fits k p"
  shows "page_fits k q"
  using assms by (auto simp: draw_task_def page_fits_def dest!: tv_render_frame cv_render_frame split: sum.splits option.splits)

lemma page_fits_fields [simp]:
  "page_fits k (p\<lparr>tp_currTask := a\<rparr>) = page_fits k p" "page_fits k (p\<lparr>tp_currParentTask := b\<rparr>) = page_fits k p"
  "page_fits k (p\<lparr>tp_currSubTasks := c\<rparr>) = page_fits k p" "page_fits k (p\<lparr>tp_currSameLocationTasks := d\<rparr>) = page_fits k p"
  "page_fits k (p\<lparr>tp_store := h\<rparr>) = page_fits k p" "page_fits k (p\<lparr>tp_colorMap := m\<rparr>) = page_fits k p"
  "page_fits k (p\<lparr>tp_legend := l\<rparr>) = page_fits k p"
  by (simp_all add: page_fits_def times_of_def)

lemma finish_fits:
  "showTask_finish L t subs par same p = Some (Inr q) \<Longrightarrow> page_fits k p \<Longrightarrow> page_fits k q"
  "showComponent_finish L same p = Some (Inr q) \<Longrightarrow> page_fits k p \<Longrightarrow> page_fits k q"
proof -
  show "page_fits k q" if "showTask_finish L t subs par same p = Some (Inr q)" "page_fits k p"
    using that by (auto simp: showTask_finish_def Let_def split: parent_object.splits elim!: draw_task_fits)
  show "page_fits k q" if "showComponent_finish L same p = Some (Inr q)" "page_fits k p"
    using that by (auto simp: showComponent_finish_def Let_def page_fits_def dest!: cv_render_frame split: option.splits sum.splits)
qed

lemma update_fits:
  assumes "tp_rightColumnWidth p = 350" "tp_leftColumnWidth p = fst k" "times_agree p"
  shows "page_fits k (set_views (tv_updateLayout (task_canvas_w (snd k)) (task_canvas_h (snd k)))
      (cv_updateLayout (component_canvas_w (snd k)) (component_canvas_h (snd k))) p)"
  using assms by (simp add: page_fits_def set_views_def tv_frame_def cv_frame_def tv_updateLayout_def cv_updateLayout_def
      tv_updateTimeScale_def cv_updateTimeScale_def times_agree_def setXScale_def Let_def)

lemma loaded_fits:
  assumes "showTask_loaded (snd k) keep rsp p = Inr q" "page_fits k p"
  shows "page_fits k q"
proof -
  have "page_fits k (set_views (tv_updateLayout (task_canvas_w (snd k)) (task_canvas_h (snd k)))
      (cv_updateLayout (component_canvas_w (snd k)) (component_canvas_h (snd k))) (updateTimeAxisAccordingToTask t p))" for t
    using assms(2) by (intro update_fits)
      (simp_all add: updateTimeAxisAccordingToTask_def set_views_def times_agree_def page_fits_def times_of_def Let_def)
  then show ?thesis using assms by (auto simp: showTask_loaded_def Let_def split: list.splits if_splits)
qed

text \<open>Laying out the page gives its views the sizes of the canvases.\<close>

lemma page_layout_fits:
  assumes "page_layout L w sz p = Some (Inr q)" "times_agree p"
  shows "page_fits (w - 350 - 1, sz) q"
proof -
  let ?p = "set_views (tv_updateLayout (task_canvas_w sz) (task_canvas_h sz))
    (cv_updateLayout (component_canvas_w sz) (component_canvas_h sz)) (p\<lparr>tp_leftColumnWidth := w - 350 - 1\<rparr>)"
  have fits: "page_fits (w - 350 - 1, sz) ?p"
    using update_fits [of "p\<lparr>tp_leftColumnWidth := w - 350 - 1\<rparr>" "(w - 350 - 1, sz)"] assms(2) by (simp add: times_agree_def)
  then show ?thesis using assms
    by (auto simp: page_layout_def column_sizes_def times_agree_def Let_def tv_setCanvas_def cv_setCanvas_def page_fits_def set_views_def
        dest!: tv_doRender_frame renderData_frame split: option.splits sum.splits)
qed

subsection \<open>The invariant\<close>

definition dashboard_fits :: "page_env \<Rightarrow> dashboard_page \<Rightarrow> bool" where
  \<comment> \<open>the elements of the dashboard have the sizes of the window, and the grid is made for them\<close>
  "dashboard_fits W p \<longleftrightarrow>
     (let (w, h) = containerDim W
      in dg_containerHeight p = h - 60 \<and> map_get (dg_elements p) ''dashboard'' = Some (w, h) \<and>
         map_get (dg_elements p) ''page-container'' = Some (pe_offset W w, pe_offset W h - 78) \<and>
         db_offsetWidth (dg_dashboard p) = pe_offset W (pe_offset W w) \<and>
         db_offsetHeight (dg_dashboard p) = pe_offset W (pe_offset W h - 78))"

definition view_fits :: "daisen \<Rightarrow> bool" where
  \<comment> \<open>the page that is shown has been laid out for the window as it is now\<close>
  "view_fits D \<longleftrightarrow>
     (case ap_currentView (da_app D) of
        None \<Rightarrow> True
      | Some DashboardView \<Rightarrow> dashboard_fits (da_window D) (da_dashboard D) \<and> da_height D = dg_containerHeight (da_dashboard D)
      | Some TaskPageView \<Rightarrow> da_columns D = laid_columns (da_window D) \<and> da_height D = pc_containerHeight (da_columns D))"

definition laid_sizes :: "daisen \<Rightarrow> js_num \<times> sizes" where
  "laid_sizes D = (pc_leftColumnWidth (da_columns D), canvas_sizes (da_window D) (da_columns D))"

definition columns_ok :: "daisen \<Rightarrow> bool" where
  "columns_ok D \<longleftrightarrow> da_columns D = no_columns \<or> (\<exists>F. da_columns D = laid_columns F)"

definition daisen_inv :: "daisen \<Rightarrow> bool" where
  "daisen_inv D \<longleftrightarrow> columns_ok D \<and> times_agree (ap_page (da_app D)) \<and>
     (da_columns D \<noteq> no_columns \<longrightarrow> page_fits (laid_sizes D) (ap_page (da_app D))) \<and>
     (\<forall>m \<in> set (ap_handlers (da_app D)). handler_inv m) \<and>
     (ap_handlers (da_app D) \<noteq> [] \<longrightarrow> da_columns D \<noteq> no_columns) \<and> view_fits D"

lemma laid_not_none [simp]: "laid_columns W \<noteq> no_columns" "no_columns \<noteq> laid_columns W"
  by (simp_all add: laid_columns_def no_columns_def Let_def)

definition db_size :: "dashboard \<Rightarrow> js_num \<times> js_num" where
  "db_size d = (db_offsetWidth d, db_offsetHeight d)"

lemma resetNumRowCol_size [simp]: "db_size (resetNumRowCol d) = db_size d"
  by (simp add: db_size_def resetNumRowCol_def)

lemma db_resize_size: "db_resize scale d = Inr d' \<Longrightarrow> db_size d' = db_size d"
  by (auto simp: db_resize_def Let_def bind_result_Inr_iff db_size_def resetNumRowCol_def)

lemma columns_layout: "columns_ok D \<Longrightarrow> layout_columns W (da_columns D) = laid_columns W"
  by (auto simp: columns_ok_def layout_laid)

lemma layout_view_inv:
  assumes "layout_view E view D = Some (Inr D')" "columns_ok D" "times_agree (ap_page (da_app D))"
    and "da_columns D \<noteq> no_columns \<longrightarrow> page_fits (laid_sizes D) (ap_page (da_app D))"
    and "\<forall>m \<in> set (ap_handlers (da_app D)). handler_inv m" "ap_handlers (da_app D) \<noteq> [] \<longrightarrow> da_columns D \<noteq> no_columns"
    and "ap_currentView (da_app D) = Some view"
  shows "daisen_inv D' \<and> ap_currentView (da_app D') = Some view \<and> da_window D' = da_window D \<and>
    ap_path (da_app D') = ap_path (da_app D) \<and> (view = TaskPageView \<longrightarrow> da_columns D' \<noteq> no_columns)"
proof (cases view)
  case DashboardView
  then obtain p where p: "dg_layout (da_window D) (lib_scale (env_libs E)) (da_dashboard D) = Inr p"
    "D' = D\<lparr>da_dashboard := p, da_height := dg_containerHeight p\<rparr>"
    using assms(1) by (auto simp: layout_view_def bind_result_Inr_iff)
  obtain w h where dim: "(w, h) = containerDim (da_window D)" by (cases "containerDim (da_window D)") auto
  note r = layout_result [OF p(1) dim]
  have "db_size (dg_dashboard p) = (pe_offset (da_window D) (pe_offset (da_window D) w), pe_offset (da_window D) (pe_offset (da_window D) h - 78))"
    using r(8) by (auto simp: db_size_def dest!: db_resize_size)
  then have "dashboard_fits (da_window D) p" using r(2,6,7) unfolding dashboard_fits_def dim [symmetric] by (simp add: db_size_def)
  then show ?thesis using assms(2-7) DashboardView
    by (simp add: p(2) daisen_inv_def view_fits_def columns_ok_def laid_sizes_def)
next
  case TaskPageView
  let ?c = "laid_columns (da_window D)"
  obtain q where q: "page_layout (env_libs E) (pe_containerWidth (da_window D)) (canvas_sizes (da_window D) ?c) (ap_page (da_app D)) = Some (Inr q)"
    "D' = D\<lparr>da_columns := ?c, da_height := pc_containerHeight ?c, da_app := (da_app D)\<lparr>ap_page := q\<rparr>\<rparr>"
    using assms(1) TaskPageView by (auto simp: layout_view_def columns_layout [OF assms(2)] and_then_Inr Let_def)
  have "pe_containerWidth (da_window D) - 350 - 1 = pc_leftColumnWidth ?c" by (simp add: laid_columns_def rightColumnWidth_def Let_def)
  then have "page_fits (pc_leftColumnWidth ?c, canvas_sizes (da_window D) ?c) q" using page_layout_fits [OF q(1) assms(3)] by simp
  then show ?thesis using assms(5,7) TaskPageView page_fits_agree
    by (auto simp: q(2) daisen_inv_def view_fits_def columns_ok_def laid_sizes_def)
qed

lemma view_fits_app: "ap_currentView a = ap_currentView (da_app D) \<Longrightarrow> view_fits (D\<lparr>da_app := a\<rparr>) = view_fits D"
  by (simp add: view_fits_def split: option.split app_view.split)

lemma app_page_inv:
  assumes "daisen_inv D" "da_columns D \<noteq> no_columns" "page_fits (laid_sizes D) (ap_page a)"
    and "ap_currentView a = ap_currentView (da_app D)" "\<forall>m \<in> set (ap_handlers a). handler_inv m"
  shows "daisen_inv (D\<lparr>da_app := a\<rparr>)"
  using assms page_fits_agree [OF assms(3)] by (simp add: daisen_inv_def columns_ok_def view_fits_app laid_sizes_def)

text \<open>What a route does once the page is current.\<close>

lemma route_current:
  assumes "route E a = Some (Inr b)" "\<forall>view. view_of (ap_path a) = Some view \<longrightarrow> ap_currentView a = Some view"
  shows "ap_currentView b = ap_currentView a \<and> (page_fits k (ap_page a) \<longrightarrow> page_fits k (ap_page b)) \<and>
    set (ap_handlers b) \<subseteq> insert new_mouse_handler (set (ap_handlers a)) \<and>
    (view_of (ap_path a) \<noteq> Some TaskPageView \<longrightarrow> ap_page b = ap_page a \<and> ap_handlers b = ap_handlers a)"
proof -
  have current: "switchLayout E view a = Some (Inr a)" if "view_of (ap_path a) = Some view" for view
    using assms(2) that by (simp add: switchLayout_def)
  consider "view_of (ap_path a) = Some DashboardView" "ap_path a = ''/'' \<or> ap_path a = ''/dashboard''"
    | "view_of (ap_path a) = Some TaskPageView" "ap_path a = ''/task''"
    | "view_of (ap_path a) = Some TaskPageView" "ap_path a = ''/component''"
    | "view_of (ap_path a) = None" "ap_path a \<noteq> ''/''" "ap_path a \<noteq> ''/dashboard''" "ap_path a \<noteq> ''/task''" "ap_path a \<noteq> ''/component''"
    by (auto simp: view_of_def split: if_splits)
  then show ?thesis
  proof cases
    case 1
    then show ?thesis using assms(1) current by (auto simp: route_def)
  next
    case 2
    then show ?thesis using assms(1) current [OF 2(1)]
      by (auto simp: route_def showTaskPage_def register_def ask_def Let_def split: option.splits)
  next
    case 3
    then show ?thesis using assms(1) current [OF 3(1)]
      by (auto simp: route_def showComponentPage_def register_def ask_def on_page_def Let_def setTimeRange_fits split: option.splits)
  next
    case 4
    then show ?thesis using assms(1) by (auto simp: route_def)
  qed
qed

lemma route_inv:
  assumes "da_route E D = Some (Inr D')" "daisen_inv D"
  shows "daisen_inv D' \<and> da_window D' = da_window D"
proof -
  obtain D1 where D1: "(case view_of (ap_path (da_app D)) of None \<Rightarrow> Some (Inr D) | Some view \<Rightarrow> da_switchLayout E view D) = Some (Inr D1)"
    and b: "\<exists>b. route E (da_app D1) = Some (Inr b) \<and> D' = D1\<lparr>da_app := b\<rparr>"
    using assms(1) by (auto simp: da_route_def and_then_Inr)
  have shown: "daisen_inv D1 \<and> da_window D1 = da_window D \<and> ap_path (da_app D1) = ap_path (da_app D) \<and>
      (\<forall>view. view_of (ap_path (da_app D)) = Some view \<longrightarrow> ap_currentView (da_app D1) = Some view \<and>
        (view = TaskPageView \<longrightarrow> da_columns D1 \<noteq> no_columns))"
  proof (cases "view_of (ap_path (da_app D))")
    case (Some view)
    let ?D = "D\<lparr>da_app := (da_app D)\<lparr>ap_currentView := Some view\<rparr>\<rparr>"
    show ?thesis
    proof (cases "ap_currentView (da_app D) = Some view")
      case True
      then have "D1 = D" using D1 Some by (simp add: da_switchLayout_def)
      then show ?thesis using True Some assms(2) by (auto simp: daisen_inv_def view_fits_def)
    next
      case False
      then have "layout_view E view ?D = Some (Inr D1)" using D1 Some by (simp add: da_switchLayout_def)
      from layout_view_inv [OF this] Some assms(2) show ?thesis by (auto simp: daisen_inv_def columns_ok_def laid_sizes_def)
    qed
  qed (use D1 assms(2) in auto)
  obtain b where b: "route E (da_app D1) = Some (Inr b)" "D' = D1\<lparr>da_app := b\<rparr>" using b by blast
  have r: "ap_currentView b = ap_currentView (da_app D1)" "page_fits (laid_sizes D1) (ap_page (da_app D1)) \<longrightarrow> page_fits (laid_sizes D1) (ap_page b)"
    "set (ap_handlers b) \<subseteq> insert new_mouse_handler (set (ap_handlers (da_app D1)))"
    "view_of (ap_path (da_app D1)) \<noteq> Some TaskPageView \<longrightarrow> ap_page b = ap_page (da_app D1) \<and> ap_handlers b = ap_handlers (da_app D1)"
    using route_current [OF b(1), of "laid_sizes D1"] shown by auto
  have inv: "daisen_inv D1" using shown by blast
  have "daisen_inv (D1\<lparr>da_app := b\<rparr>)"
  proof (cases "da_columns D1 = no_columns")
    case True
    then have "ap_page b = ap_page (da_app D1)" "ap_handlers b = ap_handlers (da_app D1)" using r(4) shown by metis+
    then show ?thesis using inv r(1) by (simp add: daisen_inv_def columns_ok_def view_fits_app laid_sizes_def)
  next
    case False
    have "\<forall>m \<in> set (ap_handlers b). handler_inv m" using r(3) inv handler_inv_new unfolding daisen_inv_def by blast
    then show ?thesis using app_page_inv [OF inv False _ r(1)] r(2) inv False by (simp add: daisen_inv_def)
  qed
  then show ?thesis using shown b(2) by simp
qed

text \<open>The events of the task page.\<close>

lemma dispatch_each_fits:
  assumes "page_fits k p" "\<forall>m \<in> set ms. handler_inv m \<and> enabled m e" "dispatch_each L e ms p = (ms', p')"
  shows "page_fits k p' \<and> (\<forall>m \<in> set ms'. handler_inv m) \<and> length ms' = length ms"
  using assms
proof (induction ms arbitrary: p ms')
  case (Cons m ms)
  obtain m1 p1 where one: "dispatch (page_zoom L) e (m, p) = Inr (m1, p1)" "page_fits k p1"
    using ts.dispatch_ok [OF Cons.prems(1), of m e L] Cons.prems(2) by auto
  obtain ms1 where rest: "dispatch_each L e ms p1 = (ms1, p')" "ms' = m1 # ms1"
    using Cons.prems(3) one(1) by (auto simp del: dispatch.simps split: prod.splits)
  have "handler_inv m1" using handler_inv_dispatch [OF one(1)] Cons.prems(2) by simp
  then show ?case using Cons.IH [OF one(2) _ rest(1)] Cons.prems(2) rest(2) by simp
qed simp

lemma page_event_inv:
  assumes "daisen_inv D" "\<forall>m \<in> set (ap_handlers (da_app D)). enabled m e"
  shows "daisen_inv (D\<lparr>da_app := page_event E e (da_app D)\<rparr>)"
proof (cases "ap_handlers (da_app D) = []")
  case True
  then have "page_event E e (da_app D) = da_app D" by (simp add: page_event_def)
  then show ?thesis using assms(1) by simp
next
  case False
  then have fits: "page_fits (laid_sizes D) (ap_page (da_app D))" "da_columns D \<noteq> no_columns" using assms(1) by (auto simp: daisen_inv_def)
  obtain ms p where run: "dispatch_each (env_libs E) e (ap_handlers (da_app D)) (ap_page (da_app D)) = (ms, p)" by fastforce
  have "page_fits (laid_sizes D) p \<and> (\<forall>m \<in> set ms. handler_inv m) \<and> length ms = length (ap_handlers (da_app D))"
    using dispatch_each_fits [OF fits(1) _ run] assms by (auto simp: daisen_inv_def)
  then show ?thesis using run by (intro app_page_inv [OF assms(1) fits(2)]) (simp_all add: page_event_def)
qed

lemma app_reload_inv:
  assumes "daisen_inv D" "i < length (ap_handlers (da_app D))" "app_reload E i t (da_app D) = Inr a"
  shows "daisen_inv (D\<lparr>da_app := a\<rparr>)"
proof -
  have fits: "page_fits (laid_sizes D) (ap_page (da_app D))" "da_columns D \<noteq> no_columns" "handler_inv (ap_handlers (da_app D) ! i)"
    using assms(1,2) by (auto simp: daisen_inv_def)
  obtain m p where m: "dispatch (page_zoom (env_libs E)) (TimerFires t) (ap_handlers (da_app D) ! i, ap_page (da_app D)) = Inr (m, p)"
    "page_fits (laid_sizes D) p" using ts.dispatch_ok [OF fits(1,3), of "TimerFires t" "env_libs E"] by auto
  have "handler_inv m" using handler_inv_dispatch [OF m(1) fits(3)] .
  then show ?thesis using assms m fits(2)
    by (intro app_page_inv) (auto simp: app_reload_def daisen_inv_def dest!: set_update_subset_insert [THEN subsetD] simp del: dispatch.simps)
qed

text \<open>The events of the dashboard.\<close>

definition dashboard_frame :: "dashboard_page \<Rightarrow> js_num \<times> (string, js_num \<times> js_num) js_map \<times> js_num \<times> js_num" where
  "dashboard_frame p = (dg_containerHeight p, dg_elements p, db_size (dg_dashboard p))"

lemma switch_axis_size [simp]: "db_size (switch_axis param f name d) = db_size d"
  by (simp add: switch_axis_def db_size_def Let_def)

lemma renderPage_size [simp]: "db_size (renderPage d) = db_size d"
  by (simp add: renderPage_def db_size_def resetNumRowCol_def Let_def)

lemma db_filter_size: "db_filter R d = Inr d' \<Longrightarrow> db_size d' = db_size d"
  by (auto simp: db_filter_def Let_def split: option.splits) (simp_all add: addPaginationControl_def db_size_def resetNumRowCol_def)

lemma with_dashboard_inv:
  assumes "daisen_inv D" "dashboard_frame p = dashboard_frame (da_dashboard D)"
  shows "daisen_inv (D\<lparr>da_dashboard := p\<rparr>)"
  using assms by (simp add: daisen_inv_def columns_ok_def laid_sizes_def view_fits_def dashboard_fits_def dashboard_frame_def db_size_def
      split: option.splits app_view.splits)

lemma db_setTimeRange_size: "db_setTimeRange scale s e d = Inr d' \<Longrightarrow> db_size d' = db_size d"
  by (auto simp: db_setTimeRange_def Let_def bind_result_Inr_iff db_size_def)

lemma db_render_size:
  assumes "db_render scale parse toString R simulation names d = Inr d'"
  shows "db_size d' = db_size d"
proof -
  let ?d = "d\<lparr>db_componentNames := sort names, db_filteredNames := sort names\<rparr>"
  obtain d1 where d1: "getParamsFromURL scale parse toString simulation ?d = Inr d1" "db_filter R d1 = Inr d'"
    using assms by (auto simp: db_render_def Let_def bind_result_Inr_iff)
  have "db_size d1 = db_size ?d"
    using d1(1) by (auto simp: getParamsFromURL_def Let_def bind_result_Inr_iff resetZoom_def split: option.splits
        dest!: db_setTimeRange_size) (simp_all add: db_size_def)
  then show ?thesis using db_filter_size [OF d1(2)] by (simp add: db_size_def)
qed

lemma dashboard_events_frame:
  "dashboard_frame (filterInputChage v p) = dashboard_frame p"
  "dashboard_frame (select_primary v p) = dashboard_frame p" "dashboard_frame (select_secondary v p) = dashboard_frame p"
  "filter_timeout R h p = Inr q \<Longrightarrow> dashboard_frame q = dashboard_frame p"
  "dg_render scale parse toString R simulation names p = Inr q \<Longrightarrow> dashboard_frame q = dashboard_frame p"
proof -
  show "dashboard_frame (filterInputChage v p) = dashboard_frame p"
    by (simp add: filterInputChage_def on_tools_def dashboard_frame_def split_def Let_def)
  show "dashboard_frame (select_primary v p) = dashboard_frame p" "dashboard_frame (select_secondary v p) = dashboard_frame p"
    by (simp_all add: select_primary_def select_secondary_def on_tools_def dashboard_frame_def switchPrimaryAxis_def
        switchSecondaryAxis_def Let_def) (simp_all add: db_size_def)
  show "dashboard_frame q = dashboard_frame p" if "filter_timeout R h p = Inr q"
    using that by (auto simp: filter_timeout_def filter_input_def Let_def bind_result_Inr_iff dashboard_frame_def
        split: option.splits dest!: db_filter_size) (simp add: db_size_def)
  show "dashboard_frame q = dashboard_frame p" if "dg_render scale parse toString R simulation names p = Inr q"
    using that by (auto simp: dg_render_def bind_result_Inr_iff dashboard_frame_def on_tools_def dest!: db_render_size)
qed

lemma with_dashboard_step:
  "with_dashboard D r = Some (Inr D') \<longleftrightarrow> (\<exists>p. r = Inr p \<and> D' = D\<lparr>da_dashboard := p\<rparr>)"
  by (auto simp: with_dashboard_def bind_result_Inr_iff)

lemma with_page_step:
  "with_page D r = Some (Inr D') \<longleftrightarrow> (\<exists>p. r = Some (Inr p) \<and> D' = D\<lparr>da_app := (da_app D)\<lparr>ap_page := p\<rparr>\<rparr>)"
  by (auto simp: with_page_def and_then_Inr)

lemma with_app_step: "with_app D r = Some (Inr D') \<longleftrightarrow> (\<exists>a. r = Inr a \<and> D' = D\<lparr>da_app := a\<rparr>)"
  by (auto simp: with_app_def bind_result_Inr_iff)

fun awaited :: "daisen_event \<Rightarrow> daisen \<Rightarrow> bool" where
  \<comment> \<open>events that the browser can deliver: touches that the handlers have seen begin, time-outs of a
     handler, and responses to a page that has been opened\<close>
  "awaited (PageMouse e) D = ((\<forall>m \<in> set (ap_handlers (da_app D)). enabled m e) \<and> (\<forall>t. e \<noteq> TimerFires t))"
| "awaited (PageTimer i t) D = (i < length (ap_handlers (da_app D)))"
| "awaited (History path params) D = True"
| "awaited (WindowSize w h n) D = True"
| "awaited (FilterTyped v) D = True"
| "awaited (FilterFires h) D = True"
| "awaited (PrimaryChosen v) D = True"
| "awaited (SecondaryChosen v) D = True"
| "awaited (DashboardArrives s names) D = True"
| "awaited _ D = (da_columns D \<noteq> no_columns)"

definition daisen_allowed :: "app_env \<Rightarrow> (string \<Rightarrow> (string \<Rightarrow> bool) option) \<Rightarrow> daisen_event \<Rightarrow> daisen \<Rightarrow> bool" where
  \<comment> \<open>the event can happen and its handler neither raises nor fails to end\<close>
  "daisen_allowed E R e D \<longleftrightarrow> awaited e D \<and> (case daisen_step E R e D of Some (Inr _) \<Rightarrow> True | _ \<Rightarrow> False)"

definition daisen_next :: "app_env \<Rightarrow> (string \<Rightarrow> (string \<Rightarrow> bool) option) \<Rightarrow> daisen_event \<Rightarrow> daisen \<Rightarrow> daisen" where
  "daisen_next E R e D = (case daisen_step E R e D of Some (Inr D') \<Rightarrow> D' | _ \<Rightarrow> D)"

lemma page_response_inv:
  assumes "daisen_inv D" "da_columns D \<noteq> no_columns" "page_fits (laid_sizes D) (ap_page (da_app D)) \<Longrightarrow> page_fits (laid_sizes D) p"
  shows "daisen_inv (D\<lparr>da_app := (da_app D)\<lparr>ap_page := p\<rparr>\<rparr>)"
  using assms by (intro app_page_inv) (simp_all add: daisen_inv_def)

lemma app_response_inv:
  assumes "daisen_inv D" "da_columns D \<noteq> no_columns"
  shows "simulation_for_task rsp (da_app D) = Inr a \<Longrightarrow> daisen_inv (D\<lparr>da_app := a\<rparr>)"
    and "daisen_inv (D\<lparr>da_app := fst (task_for E params rsp (da_app D))\<rparr>)"
    and "simulation_for_component E name params rsp (da_app D) = Inr a \<Longrightarrow> daisen_inv (D\<lparr>da_app := a\<rparr>)"
proof -
  have fits: "page_fits (laid_sizes D) (ap_page (da_app D))" "\<forall>m \<in> set (ap_handlers (da_app D)). handler_inv m"
    using assms by (auto simp: daisen_inv_def)
  show "daisen_inv (D\<lparr>da_app := a\<rparr>)" if "simulation_for_task rsp (da_app D) = Inr a"
    using that fits by (intro app_page_inv [OF assms]) (auto simp: simulation_for_task_def on_page_def Let_def split: list.splits)
  show "daisen_inv (D\<lparr>da_app := fst (task_for E params rsp (da_app D))\<rparr>)"
    using fits by (intro app_page_inv [OF assms]) (auto simp: task_for_def on_page_def setTimeRange_fits Let_def split: option.split)
  show "daisen_inv (D\<lparr>da_app := a\<rparr>)" if "simulation_for_component E name params rsp (da_app D) = Inr a"
    using that fits by (intro app_page_inv [OF assms])
      (auto simp: simulation_for_component_def on_page_def setTimeRange_fits Let_def split: list.splits)
qed

lemma resize_inv:
  assumes "da_resize E (D\<lparr>da_window := W\<rparr>) = Some (Inr D')" "pe_offset W = pe_offset (da_window D)" "daisen_inv D"
  shows "daisen_inv D'"
proof -
  let ?D = "D\<lparr>da_window := W\<rparr>"
  obtain view where view: "ap_currentView (da_app D) = Some view" "layout_view E view ?D = Some (Inr D')"
    using assms(1) by (auto simp: da_resize_def split: option.splits)
  have "laid_sizes ?D = laid_sizes D" using assms(2) by (simp add: laid_sizes_def canvas_sizes_def)
  then show ?thesis using layout_view_inv [OF view(2)] view(1) assms(3) by (simp add: daisen_inv_def columns_ok_def)
qed

lemma daisen_step_inv:
  assumes "daisen_step E R e D = Some (Inr D')" "awaited e D" "daisen_inv D"
  shows "daisen_inv D'"
proof (cases e)
  case (History path params)
  have "daisen_inv (D\<lparr>da_app := (da_app D)\<lparr>ap_path := path, ap_params := params\<rparr>\<rparr>)"
    using assms(3) by (simp add: daisen_inv_def columns_ok_def laid_sizes_def view_fits_app)
  then show ?thesis using route_inv [of E _ D'] assms(1) History by simp
next
  case (WindowSize w h n)
  then show ?thesis using resize_inv [of E _ D D'] assms(1,3) by simp
next
  case (PageMouse m)
  then show ?thesis using page_event_inv [OF assms(3)] assms(1,2) by (auto simp: with_app_step)
next
  case (PageTimer i t)
  then show ?thesis using app_reload_inv [OF assms(3)] assms(1,2) by (auto simp: with_app_step)
next
  case (TaskLoaded keep rsp)
  have "page_fits (laid_sizes D) q" if "showTask_loaded (canvas_sizes (da_window D) (da_columns D)) keep rsp (ap_page (da_app D)) = Inr q"
    "page_fits (laid_sizes D) (ap_page (da_app D))" for q
    using loaded_fits [of "laid_sizes D"] that by (simp add: laid_sizes_def)
  then show ?thesis using TaskLoaded assms page_response_inv [OF assms(3)] by (auto simp: with_page_step)
next
  case (ParentLoaded t)
  then show ?thesis using assms page_response_inv [OF assms(3)] by (auto simp: with_page_step showTask_parent_def)
next
  case (TaskFinish t subs par same)
  then obtain q where "showTask_finish (env_libs E) t subs par same (ap_page (da_app D)) = Some (Inr q)"
    "D' = D\<lparr>da_app := (da_app D)\<lparr>ap_page := q\<rparr>\<rparr>" using assms(1) by (auto simp: with_page_step)
  then show ?thesis using page_response_inv [OF assms(3)] finish_fits(1) TaskFinish assms(2) by simp
next
  case (ComponentFinish same)
  then obtain q where "showComponent_finish (env_libs E) same (ap_page (da_app D)) = Some (Inr q)"
    "D' = D\<lparr>da_app := (da_app D)\<lparr>ap_page := q\<rparr>\<rparr>" using assms(1) by (auto simp: with_page_step)
  then show ?thesis using page_response_inv [OF assms(3)] finish_fits(2) ComponentFinish assms(2) by simp
qed (use assms app_response_inv [OF assms(3)] with_dashboard_inv [OF assms(3)] dashboard_events_frame in
    \<open>auto simp: with_app_step with_dashboard_step\<close>)

interpretation da: kept_invariant "daisen_allowed E R" "daisen_next E R" daisen_inv for E R
  by unfold_locales (auto simp: daisen_allowed_def daisen_next_def daisen_step_inv split: option.splits sum.splits)

lemma new_daisen_inv: "daisen_inv (new_daisen W path params st d)"
  by (simp add: daisen_inv_def new_daisen_def new_app_def columns_ok_def view_fits_def times_agree_def new_task_page_def
      new_task_view_def new_component_view_def Let_def) (simp add: times_of_def)

subsection \<open>Properties\<close>


definition sample_daisen :: daisen where
  "sample_daisen = new_daisen sample_page_env ''/component'' sample_params (\<lambda>_. new_task) (new_dashboard 0 0 [])"

lemma layout_empty:
  assumes "tv_allTasks (tp_taskView p) = None" "cv_tasks (tp_componentView p) = None"
  shows "\<exists>q. page_layout L w sz p = Some (Inr q) \<and> tv_allTasks (tp_taskView q) = None \<and> cv_tasks (tp_componentView q) = None"
  using assms by (simp add: page_layout_def tv_setCanvas_def tv_doRender_def tv_updateLayout_def tv_updateTimeScale_def cv_setCanvas_def
      renderData_def cv_updateLayout_def cv_updateTimeScale_def Let_def)

lemma setTimeRange_tasks:
  "tv_allTasks (tp_taskView (setTimeRange L s e False p)) = tv_allTasks (tp_taskView p)"
  "cv_tasks (tp_componentView (setTimeRange L s e False p)) = cv_tasks (tp_componentView p)"
  by (simp_all add: setTimeRange_def set_views_def tv_setTimeAxis_def tv_updateTimeScale_def cv_setTimeAxis_def cv_updateTimeScale_def
      tv_updateXAxis_def cv_updateXAxis_def Let_def)

lemma new_page_empty:
  "tv_allTasks (tp_taskView (new_task_page h url)) = None" "cv_tasks (tp_componentView (new_task_page h url)) = None"
  by (simp_all add: new_task_page_def new_task_view_def new_component_view_def Let_def)

lemma sample_route:
  "\<exists>D0. da_route sample_env sample_daisen = Some (Inr D0) \<and> tv_allTasks (tp_taskView (ap_page (da_app D0))) = None \<and>
     cv_tasks (tp_componentView (ap_page (da_app D0))) = None \<and> ap_currentView (da_app D0) = Some TaskPageView"
proof -
  let ?D = "sample_daisen\<lparr>da_app := (da_app sample_daisen)\<lparr>ap_currentView := Some TaskPageView\<rparr>\<rparr>"
  let ?W = "sample_page_env" and ?c = "laid_columns sample_page_env"
  obtain q where q: "page_layout sample_libs (pe_containerWidth ?W) (canvas_sizes ?W ?c) (new_task_page (\<lambda>_. new_task) []) = Some (Inr q)"
    "tv_allTasks (tp_taskView q) = None" "cv_tasks (tp_componentView q) = None"
    using layout_empty [OF new_page_empty] by blast
  let ?D1 = "?D\<lparr>da_columns := ?c, da_height := pc_containerHeight ?c, da_app := (da_app ?D)\<lparr>ap_page := q\<rparr>\<rparr>"
  have "layout_view sample_env TaskPageView ?D = Some (Inr ?D1)"
    using q(1) by (simp add: layout_view_def layout_laid sample_daisen_def new_daisen_def new_app_def sample_env_def Let_def)
  moreover have "\<exists>b. route sample_env (da_app ?D1) = Some (Inr b) \<and> tv_allTasks (tp_taskView (ap_page b)) = None \<and>
      cv_tasks (tp_componentView (ap_page b)) = None \<and> ap_currentView b = Some TaskPageView"
  proof -
    have get: "map_get sample_params ''name'' = Some ''GPU''" "map_get sample_params ''starttime'' = Some ''0''"
      "map_get sample_params ''endtime'' = Some ''10''" by (simp_all add: sample_params_def)
    show ?thesis using q(2,3)
      by (simp add: sample_daisen_def new_daisen_def new_app_def route_def showComponentPage_def switchLayout_def register_def
          on_page_def get showComponent_def switchToComponentOnlyMode_def send_def setTimeRange_tasks Let_def)
  qed
  ultimately show ?thesis
    by (auto simp: da_route_def da_switchLayout_def view_of_def sample_daisen_def new_daisen_def new_app_def)
qed


text \<open>
  Resizing the window before the data of a widget has arrived raises: a widget redraws its curves
  from data that is not there, so the layout of the dashboard ends with an error, and so does the
  listener.  This is the state of every widget between the rendering of a page of the dashboard and
  the response to its request.
\<close>

lemma renderDataCurve_error: "renderDataCurve scale dat ys sec w = Inl e \<Longrightarrow> e = TypeError"
  by (auto simp: renderDataCurve_def Let_def split: option.splits if_splits)

lemma resize_error: "resize scale width height w = Inl e \<Longrightarrow> e = TypeError"
  by (auto simp: resize_def redraw_curves_def bind_result_def split: sum.splits if_splits dest: renderDataCurve_error)

lemma resize_no_data:
  assumes "wg_primaryAxisData w = None" "\<not> isPrimaryAxisSkipped w"
  shows "resize scale width height w = Inl TypeError"
  using assms by (simp add: resize_def redraw_curves_def setWidgetHeight_def setWidgetWidth_def renderXAxis_def renderDataCurve_def
      isPrimaryAxisSkipped_def isSecondaryAxisSkipped_def Let_def split: option.split)

lemma each_widget_error:
  assumes "w \<in> set ws" "f w = Inl TypeError" "\<And>w e. f w = Inl e \<Longrightarrow> e = TypeError"
  shows "each_widget f ws = Inl TypeError"
  using assms(1)
proof (induction ws)
  case (Cons v ws)
  then show ?case using assms(2,3) by (cases "f v") auto
qed simp

theorem resize_before_data_fails:
  assumes "ap_currentView (da_app D) = Some DashboardView" "w \<in> set (db_widgets (dg_dashboard (da_dashboard D)))"
    and "wg_primaryAxisData w = None" "\<not> isPrimaryAxisSkipped w"
  shows "daisen_step E R (WindowSize x y z) D = Some (Inl TypeError)"
proof -
  have "each_widget (resize sc width height) (db_widgets (dg_dashboard (da_dashboard D))) = Inl TypeError" for sc width height
    by (rule each_widget_error [OF assms(2)]) (use resize_no_data [OF assms(3,4)] resize_error in auto)
  then have "dg_layout W sc (da_dashboard D) = Inl TypeError" for W sc
    by (simp add: dg_layout_def setCanvas_def db_resize_def element_ops toolbar_ops resetNumRowCol_def split_def Let_def split: option.split)
  then show ?thesis by (simp add: da_resize_def assms(1) layout_view_def)
qed

theorem resize_before_data_fails_witness:
  "daisen_step sample_env (\<lambda>_. None) (WindowSize 1000 700 56)
     (sample_daisen\<lparr>da_app := (da_app sample_daisen)\<lparr>ap_currentView := Some DashboardView\<rparr>,
        da_dashboard := new_dashboard_page ((new_dashboard 0 0 [])\<lparr>db_widgets := [new_widget ''GPU'']\<rparr>)\<rparr>) = Some (Inl TypeError)"
  by (rule resize_before_data_fails [of _ "new_widget ''GPU''"]) (simp_all add: new_dashboard_page_def new_widget_def isPrimaryAxisSkipped_def)

text \<open>
  The composition refines the routes of the application: what the composed application does to the
  state of \<open>App_Routing\<close> is a route there, in an environment whose sizes are those of the columns as
  they are laid out in the window.
\<close>

definition sized_env :: "app_env \<Rightarrow> daisen \<Rightarrow> app_env" where
  "sized_env E D = E\<lparr>env_width := pe_containerWidth (da_window D),
     env_sizes := canvas_sizes (da_window D) (layout_columns (da_window D) (da_columns D))\<rparr>"

lemma sized_env_simps [simp]:
  "env_libs (sized_env E D) = env_libs E" "env_parseFloat (sized_env E D) = env_parseFloat E" "env_toString (sized_env E D) = env_toString E"
  "env_width (sized_env E D) = pe_containerWidth (da_window D)"
  "env_sizes (sized_env E D) = canvas_sizes (da_window D) (layout_columns (da_window D) (da_columns D))"
  by (simp_all add: sized_env_def)

lemma route_first_switch:
  assumes "view_of (ap_path a) = Some view" "switchLayout E' view a = Some (Inr a1)"
    and "env_libs E' = env_libs E" "env_parseFloat E' = env_parseFloat E"
  shows "route E' a = route E a1"
proof -
  have a1: "ap_path a1 = ap_path a" "switchLayout E view a1 = Some (Inr a1)"
    using assms(2) by (auto simp: switchLayout_def Let_def and_then_Inr split: if_splits app_view.splits)
  consider "view = DashboardView" "ap_path a = ''/'' \<or> ap_path a = ''/dashboard''" | "view = TaskPageView" "ap_path a = ''/task''"
    | "view = TaskPageView" "ap_path a = ''/component''"
    using assms(1) by (auto simp: view_of_def split: if_splits)
  then show ?thesis
    by cases (use assms(2-4) a1 in \<open>auto simp: route_def showTaskPage_def showComponentPage_def Let_def split: option.split\<close>)
qed

theorem daisen_refines_routes:
  assumes "da_route E D = Some (Inr D')"
  shows "route (sized_env E D) (da_app D) = Some (Inr (da_app D'))"
proof (cases "view_of (ap_path (da_app D))")
  case None
  then show ?thesis using assms by (auto simp: da_route_def and_then_Inr route_def view_of_def split: if_splits)
next
  case (Some view)
  then obtain D1 b where D1: "da_switchLayout E view D = Some (Inr D1)" "route E (da_app D1) = Some (Inr b)" "D' = D1\<lparr>da_app := b\<rparr>"
    using assms by (auto simp: da_route_def and_then_Inr)
  have "switchLayout (sized_env E D) view (da_app D) = Some (Inr (da_app D1))"
    using D1(1) by (cases view) (auto simp: da_switchLayout_def switchLayout_def layout_view_def and_then_Inr bind_result_Inr_iff Let_def split: if_splits)
  from route_first_switch [OF Some this, of E] show ?thesis by (simp add: D1(2,3))
qed

theorem daisen_refines_routes_witness:
  "\<exists>D0. da_route sample_env sample_daisen = Some (Inr D0) \<and> route (sized_env sample_env sample_daisen) (da_app sample_daisen) = Some (Inr (da_app D0))"
  using daisen_refines_routes [of sample_env sample_daisen] sample_route by blast

end
