(* ===== verification/Widget_Link.thy ===== *)
theory Widget_Link
  imports App_Routing Dashboard
begin

text \<open>
  From the dashboard to a component: the title of a widget (\<open>daisen/static/src/widget.ts\<close>) opens an
  address that names its component and its time range, and the application that starts there
  (\<open>app.ts\<close>) reads it with \<open>URLSearchParams\<close>.  A text is a list of characters below 128 without
  control characters; for these the browser writes a character of an address so that decoding gives
  it back.
\<close>

subsection \<open>Addresses\<close>

definition title_href :: "(js_num \<Rightarrow> string) \<Rightarrow> widget \<Rightarrow> string" where
  \<comment> \<open>what \<open>title.onclick\<close> assigns to \<open>window.location.href\<close>\<close>
  "title_href toString w =
     ''/component?name='' @ wg_componentName w @ ''&starttime='' @ toString (wg_startTime w) @ ''&endtime='' @ toString (wg_endTime w)"

definition href_path :: "string \<Rightarrow> string" where
  \<comment> \<open>\<open>window.location.pathname\<close>\<close>
  "href_path url = takeWhile (\<lambda>c. c \<noteq> CHR ''?'' \<and> c \<noteq> CHR ''#'') url"

definition href_search :: "string \<Rightarrow> string" where
  \<comment> \<open>\<open>window.location.search\<close> without the question mark\<close>
  "href_search url = tl (dropWhile (\<lambda>c. c \<noteq> CHR ''?'') (takeWhile (\<lambda>c. c \<noteq> CHR ''#'') url))"

fun hex_digit :: "char \<Rightarrow> nat option" where
  "hex_digit c =
     (let n = of_char c :: nat
      in if 48 \<le> n \<and> n \<le> 57 then Some (n - 48)
         else if 65 \<le> n \<and> n \<le> 70 then Some (n - 55)
         else if 97 \<le> n \<and> n \<le> 102 then Some (n - 87) else None)"

fun url_decode :: "string \<Rightarrow> string" where
  \<comment> \<open>the parser of \<open>application/x-www-form-urlencoded\<close>\<close>
  "url_decode [] = []"
| "url_decode (c # a # b # cs) =
     (if c = CHR ''+'' then CHR '' '' # url_decode (a # b # cs)
      else if c = CHR ''%'' then
        (case (hex_digit a, hex_digit b) of
           (Some x, Some y) \<Rightarrow> char_of (16 * x + y) # url_decode cs
         | _ \<Rightarrow> c # url_decode (a # b # cs))
      else c # url_decode (a # b # cs))"
| "url_decode (c # cs) = (if c = CHR ''+'' then CHR '' '' else c) # url_decode cs"

definition parse_pair :: "string \<Rightarrow> string \<times> string" where
  "parse_pair t = (url_decode (takeWhile (\<lambda>c. c \<noteq> CHR ''='') t), url_decode (tl (dropWhile (\<lambda>c. c \<noteq> CHR ''='') t)))"

definition url_search_params :: "string \<Rightarrow> params" where
  \<comment> \<open>\<open>new URLSearchParams(search)\<close>; \<open>get\<close> finds the first pair\<close>
  "url_search_params search = map parse_pair (filter (\<lambda>t. t \<noteq> []) (split_on (CHR ''&'') search))"

definition open_href :: "app_env \<Rightarrow> string \<Rightarrow> (ref \<Rightarrow> task) \<Rightarrow> app js_result option" where
  \<comment> \<open>the browser loads the address, and \<open>App.start\<close> routes\<close>
  "open_href E url st = route E (new_app (href_path url) (url_search_params (href_search url)) (new_task_page st []))"

subsection \<open>Plain texts\<close>

definition url_plain :: "string \<Rightarrow> bool" where
  \<comment> \<open>no character has a meaning in a query\<close>
  "url_plain t \<longleftrightarrow> set t \<inter> {CHR ''&'', CHR ''#'', CHR ''+'', CHR ''%''} = {}"

lemma decode_plain: "url_plain t \<Longrightarrow> url_decode t = t"
  by (induction t rule: url_decode.induct) (auto simp: url_plain_def)

lemma takeWhile_no: "c \<notin> set k \<Longrightarrow> takeWhile (\<lambda>x. x \<noteq> c) (k @ c # v) = k" "c \<notin> set k \<Longrightarrow> dropWhile (\<lambda>x. x \<noteq> c) (k @ c # v) = c # v"
  by (induction k) auto

lemma parse_pair_plain: "url_plain k \<Longrightarrow> url_plain v \<Longrightarrow> CHR ''='' \<notin> set k \<Longrightarrow> parse_pair (k @ CHR ''='' # v) = (k, v)"
  by (simp add: parse_pair_def takeWhile_no decode_plain)

lemma title_address:
  assumes "url_plain n" "url_plain s" "url_plain e"
    and "url = ''/component?name='' @ n @ ''&starttime='' @ s @ ''&endtime='' @ e"
  shows "href_path url = ''/component''" "url_search_params (href_search url) = [(''name'', n), (''starttime'', s), (''endtime'', e)]"
proof -
  show "href_path url = ''/component''" by (simp add: href_path_def assms(4))
  let ?n = "''name='' @ n" and ?s = "''starttime='' @ s" and ?e = "''endtime='' @ e"
  have hash: "CHR ''#'' \<notin> set url" using assms by (auto simp: url_plain_def)
  then have "takeWhile (\<lambda>c. c \<noteq> CHR ''#'') url = url" by (auto simp: takeWhile_eq_all_conv)
  then have search: "href_search url = ?n @ CHR ''&'' # ?s @ CHR ''&'' # ?e"
    by (simp add: href_search_def assms(4))
  have amp: "CHR ''&'' \<notin> set ?n" "CHR ''&'' \<notin> set ?s" "CHR ''&'' \<notin> set ?e" using assms by (auto simp: url_plain_def)
  have "split_on (CHR ''&'') (href_search url) = [?n, ?s, ?e]"
    unfolding search split_on_append [OF amp(1)] split_on_append [OF amp(2)] split_on_atom [OF amp(3)] by (rule refl)
  moreover have "parse_pair ?n = (''name'', n)" "parse_pair ?s = (''starttime'', s)" "parse_pair ?e = (''endtime'', e)"
    using parse_pair_plain [of "''name''" n] parse_pair_plain [of "''starttime''" s] parse_pair_plain [of "''endtime''" e] assms
    by (simp_all add: url_plain_def)
  ultimately show "url_search_params (href_search url) = [(''name'', n), (''starttime'', s), (''endtime'', e)]"
    by (simp add: url_search_params_def)
qed

subsection \<open>Properties\<close>

text \<open>
  (C32) The title of a widget leads to its component: opening the address behind the title shows the
  component page with the same component and the time range of the widget, without a further
  question to the server, when the name and the printed numbers have none of the characters with a
  meaning in a query and the numbers are read back as they were printed.  A name with an ampersand
  is cut there.
\<close>

theorem widget_title_opens_component:
  assumes "url = title_href (env_toString E) w"
    and "url_plain (env_toString E (wg_startTime w))" "url_plain (env_toString E (wg_endTime w))"
    and "env_parseFloat E (env_toString E (wg_startTime w)) = wg_startTime w"
    and "env_parseFloat E (env_toString E (wg_endTime w)) = wg_endTime w"
    and "url_plain n"
  shows "(wg_componentName w = n \<longrightarrow> (\<exists>a. open_href E url st = Some (Inr a) \<and> ap_fetches a = [] \<and>
      ap_currentView a = Some TaskPageView \<and> tp_startTime (ap_page a) = wg_startTime w \<and> tp_endTime (ap_page a) = wg_endTime w \<and>
      tp_requests (ap_page a) = [TraceAt (wg_componentName w) (wg_startTime w) (wg_endTime w)])) \<and>
    (wg_componentName w = n @ ''&'' @ rest \<and> url_plain rest \<longrightarrow> map_get (url_search_params (href_search url)) ''name'' = Some n)"
proof (intro conjI impI)
  let ?s = "env_toString E (wg_startTime w)" and ?e = "env_toString E (wg_endTime w)"
  assume "wg_componentName w = n"
  then have url: "url = ''/component?name='' @ n @ ''&starttime='' @ ?s @ ''&endtime='' @ ?e" by (simp add: assms(1) title_href_def)
  note a = title_address [OF assms(6,2,3) url]
  show "\<exists>a. open_href E url st = Some (Inr a) \<and> ap_fetches a = [] \<and>
      ap_currentView a = Some TaskPageView \<and> tp_startTime (ap_page a) = wg_startTime w \<and> tp_endTime (ap_page a) = wg_endTime w \<and>
      tp_requests (ap_page a) = [TraceAt (wg_componentName w) (wg_startTime w) (wg_endTime w)]"
    using component_with_range [of "url_search_params (href_search url)" n ?s ?e E st "[]"] a assms(4,5) \<open>wg_componentName w = n\<close>
    by (simp add: open_href_def) blast
next
  let ?s = "env_toString E (wg_startTime w)" and ?e = "env_toString E (wg_endTime w)"
  assume n: "wg_componentName w = n @ ''&'' @ rest \<and> url_plain rest"
  then have url: "url = ''/component?name='' @ n @ CHR ''&'' # rest @ ''&starttime='' @ ?s @ ''&endtime='' @ ?e"
    by (simp add: assms(1) title_href_def)
  have "CHR ''#'' \<notin> set url" using assms(2,3,6) n by (auto simp: url url_plain_def)
  then have "takeWhile (\<lambda>c. c \<noteq> CHR ''#'') url = url" by (auto simp: takeWhile_eq_all_conv)
  then have search: "href_search url = (''name='' @ n) @ CHR ''&'' # (rest @ ''&starttime='' @ ?s @ ''&endtime='' @ ?e)"
    by (simp add: href_search_def url)
  have amp: "CHR ''&'' \<notin> set (''name='' @ n)" using assms(6) by (auto simp: url_plain_def)
  have "parse_pair (''name='' @ n) = (''name'', n)"
    using parse_pair_plain [of "''name''" n] assms(6) by (simp add: url_plain_def)
  then show "map_get (url_search_params (href_search url)) ''name'' = Some n"
    unfolding url_search_params_def search split_on_append [OF amp] by simp
qed

theorem widget_title_opens_component_witness:
  "\<exists>a. open_href sample_env (title_href (env_toString sample_env) ((new_widget ''GPU[0].CU'')\<lparr>wg_startTime := 0, wg_endTime := 10\<rparr>)) (\<lambda>_. new_task) =
     Some (Inr a) \<and> tp_requests (ap_page a) = [TraceAt ''GPU[0].CU'' 0 10]"
proof -
  let ?w = "(new_widget ''GPU[0].CU'')\<lparr>wg_startTime := 0, wg_endTime := 10\<rparr>"
  have "url_plain (env_toString sample_env (wg_startTime ?w))" "url_plain (env_toString sample_env (wg_endTime ?w))"
    "env_parseFloat sample_env (env_toString sample_env (wg_startTime ?w)) = wg_startTime ?w"
    "env_parseFloat sample_env (env_toString sample_env (wg_endTime ?w)) = wg_endTime ?w" "url_plain ''GPU[0].CU''"
    by (simp_all add: sample_env_def url_plain_def new_widget_def js_num_simps)
  from widget_title_opens_component [OF refl this, of "\<lambda>_. new_task" "[]"] show ?thesis by (auto simp: new_widget_def)
qed

end
