(* ===== verification/Widget_Save.thy ===== *)
theory Widget_Save
  imports Widget
begin

text \<open>
  The button of a widget that saves its drawing (\<open>daisen/static/src/widget.ts\<close>): a click serialises
  the \<open>svg\<close> element, makes a blob of it and opens the address of the blob through a link that is in
  the page only while it is clicked.  The serialisation of the browser is an argument: the text of
  an element with these attributes.
\<close>

subsection \<open>State\<close>

type_synonym attributes = "(string, string) js_map"

record page_document =
  pd_links :: "nat list" \<comment> \<open>the links in the body, by the blob they refer to\<close>
  pd_blobs :: "(string list \<times> string) list" \<comment> \<open>the blobs that have an address: their parts and their type\<close>
  pd_opened :: "nat list" \<comment> \<open>the blobs whose link was clicked\<close>

definition createSVG :: "(js_num \<Rightarrow> string) \<Rightarrow> widget \<Rightarrow> attributes" where
  \<comment> \<open>the element that \<open>_createSVG\<close> makes, in order of its attributes\<close>
  "createSVG toString w = map_set ''height'' (toString (wg_widgetHeight w)) (map_set ''width'' ''100%'' [])"

definition xml_preface :: string where
  "xml_preface = ''<?xml version='' @ [CHR 0x22] @ ''1.0'' @ [CHR 0x22] @ '' standalone='' @ [CHR 0x22] @ ''no'' @ [CHR 0x22] @ ''?>'' @
     [CHR 0x0D, CHR 0x0A]"

subsection \<open>The click\<close>

definition createObjectURL :: "string list \<Rightarrow> string \<Rightarrow> page_document \<Rightarrow> nat \<times> page_document" where
  \<comment> \<open>\<open>new Blob(parts, {type})\<close> and its address, which lives as long as the page\<close>
  "createObjectURL parts typ d = (length (pd_blobs d), d\<lparr>pd_blobs := pd_blobs d @ [(parts, typ)]\<rparr>)"

definition click_link :: "nat \<Rightarrow> page_document \<Rightarrow> page_document" where
  "click_link url d = (if url \<in> set (pd_links d) then d\<lparr>pd_opened := pd_opened d @ [url]\<rparr> else d)"

definition save_click :: "(attributes \<Rightarrow> string) \<Rightarrow> attributes \<times> page_document \<Rightarrow> attributes \<times> page_document" where
  \<comment> \<open>\<open>btn.onclick\<close>; the address is not released\<close>
  "save_click outerHTML = (\<lambda>(svg, d).
     let svg' = map_set ''xmlns'' ''http://www.w3.org/2000/svg'' svg;
         (svgUrl, d1) = createObjectURL [xml_preface, outerHTML svg'] ''image/svg+xml;charset=utf-8'' d;
         d2 = d1\<lparr>pd_links := pd_links d1 @ [svgUrl]\<rparr>;
         d3 = click_link svgUrl d2
     in (svg', d3\<lparr>pd_links := remove1 svgUrl (pd_links d3)\<rparr>))"

subsection \<open>Property\<close>

definition links_known :: "page_document \<Rightarrow> bool" where
  \<comment> \<open>links refer to blobs that exist\<close>
  "links_known d \<longleftrightarrow> (\<forall>u \<in> set (pd_links d). u < length (pd_blobs d))"

definition saved_svg :: "(js_num \<Rightarrow> string) \<Rightarrow> widget \<Rightarrow> attributes" where
  "saved_svg toString w = createSVG toString w @ [(''xmlns'', ''http://www.w3.org/2000/svg'')]"

lemma xmlns_set:
  "map_set ''xmlns'' ''http://www.w3.org/2000/svg'' (createSVG toString w) = saved_svg toString w"
  "map_set ''xmlns'' ''http://www.w3.org/2000/svg'' (saved_svg toString w) = saved_svg toString w"
  by (simp_all add: createSVG_def saved_svg_def)

lemma save_click_step:
  assumes "links_known d"
  shows "save_click outerHTML (svg, d) = (map_set ''xmlns'' ''http://www.w3.org/2000/svg'' svg,
    d\<lparr>pd_blobs := pd_blobs d @ [([xml_preface, outerHTML (map_set ''xmlns'' ''http://www.w3.org/2000/svg'' svg)], ''image/svg+xml;charset=utf-8'')],
      pd_opened := pd_opened d @ [length (pd_blobs d)]\<rparr>)"
proof -
  have "length (pd_blobs d) \<notin> set (pd_links d)" using assms by (auto simp: links_known_def)
  then show ?thesis by (simp add: save_click_def createObjectURL_def click_link_def remove1_append Let_def)
qed

text \<open>
  Every click on the button opens a document of its own: after \<open>n\<close> clicks on a new drawing the links
  of the page are what they were, \<open>n\<close> new blobs have been opened in order, each with the XML preface
  and the drawing with its name space, which is added once; and all \<open>n\<close> blobs are still kept.
\<close>

theorem save_clicks:
  assumes "links_known d" "0 < n"
  shows "(save_click outerHTML ^^ n) (createSVG toString w, d) = (saved_svg toString w,
    d\<lparr>pd_blobs := pd_blobs d @ replicate n ([xml_preface, outerHTML (saved_svg toString w)], ''image/svg+xml;charset=utf-8''),
      pd_opened := pd_opened d @ [length (pd_blobs d)..<length (pd_blobs d) + n]\<rparr>)"
  using assms(2)
proof (induction n rule: nat_induct_non_zero)
  case 1
  show ?case by (simp add: save_click_step [OF assms(1)] xmlns_set)
next
  case (Suc n)
  let ?d = "d\<lparr>pd_blobs := pd_blobs d @ replicate n ([xml_preface, outerHTML (saved_svg toString w)], ''image/svg+xml;charset=utf-8''),
      pd_opened := pd_opened d @ [length (pd_blobs d)..<length (pd_blobs d) + n]\<rparr>"
  have "links_known ?d" using assms(1) by (auto simp: links_known_def)
  from save_click_step [OF this, of outerHTML "saved_svg toString w"] Suc.IH show ?case
    by (simp add: xmlns_set replicate_append_same [symmetric])
qed

theorem save_clicks_witness:
  "pd_opened (snd ((save_click (\<lambda>_. ''<svg/>'') ^^ 2) (createSVG (\<lambda>_. ''100'') (new_widget ''GPU''),
     \<lparr>pd_links = [], pd_blobs = [], pd_opened = []\<rparr>))) = [0, 1]"
proof -
  have "links_known \<lparr>pd_links = [], pd_blobs = [], pd_opened = []\<rparr>" by (simp add: links_known_def)
  from save_clicks [OF this, of 2 "\<lambda>_. ''<svg/>''" "\<lambda>_. ''100''" "new_widget ''GPU''"] show ?thesis
    by (simp add: upt_rec)
qed

end
