(* ===== verification/Ui_Manager.thy ===== *)
theory Ui_Manager
  imports Complex_Main Runs
begin

text \<open>
  \<open>monitoring/web/src/ui_manager.ts\<close>: the panes of the monitor.  The left, central and
  right pane share the width of the window with two dividers; the navigation bar, the panes, a
  divider, the group of monitor widgets and the progress bars share its height.  The dividers can
  be dragged.  Pixels are rational numbers: the code only adds, subtracts and halves them, and
  divides by the number of widgets when there is one.
\<close>

subsection \<open>State\<close>

record window =
  innerWidth :: rat
  innerHeight :: rat
  progressHeight :: rat \<comment> \<open>\<open>progressBarGroupContainer.offsetHeight\<close>\<close>

record pane_style = \<comment> \<open>what the last \<open>resize\<close> wrote\<close>
  mainHeight :: rat
  mainWidth :: rat
  leftWidth :: rat
  centralWidth :: rat
  rightWidth :: rat
  dividerWidth :: rat
  groupHeight :: rat
  widgetStyles :: "(rat \<times> rat \<times> rat) list" \<comment> \<open>width, height and chart height of each widget\<close>

record ui =
  isLeftVerticalBarDragging :: bool
  isRightVerticalBarDragging :: bool
  isMonitorGroupDividerDragging :: bool
  mainContainerHeight :: rat
  monitorGroupHeight :: rat
  leftPaneWidth :: rat
  rightPaneWidth :: rat
  ui_window :: window
  ui_titles :: "rat list" \<comment> \<open>the title heights of the widgets in the group container\<close>
  ui_style :: pane_style

definition verticalDividerWidth :: rat where
  "verticalDividerWidth = 8"

definition horizontalDividerHeight :: rat where
  "horizontalDividerHeight = 6"

definition navBarHeight :: rat where
  "navBarHeight = 56"

lemmas ui_constants = verticalDividerWidth_def horizontalDividerHeight_def navBarHeight_def

subsection \<open>Operations\<close>

definition resizeMonitorGroup :: "ui \<Rightarrow> (rat \<times> rat \<times> rat) list" where
  "resizeMonitorGroup u =
     (let widgetMargin = 10;
          n = of_nat (length (ui_titles u));
          widgetWidth = (innerWidth (ui_window u) - widgetMargin * (n + 1)) / n
      in map (\<lambda>title. (widgetWidth, monitorGroupHeight u - 10, monitorGroupHeight u - 18 - title)) (ui_titles u))"

definition ui_resize :: "ui \<Rightarrow> ui" where
  "ui_resize u =
     (let detailContainerWidth = innerWidth (ui_window u) - leftPaneWidth u - rightPaneWidth u - verticalDividerWidth * 2
      in u\<lparr>ui_style := \<lparr> mainHeight = mainContainerHeight u, mainWidth = innerWidth (ui_window u),
             leftWidth = leftPaneWidth u, centralWidth = detailContainerWidth, rightWidth = rightPaneWidth u,
             dividerWidth = verticalDividerWidth, groupHeight = monitorGroupHeight u,
             widgetStyles = resizeMonitorGroup u \<rparr>\<rparr>)"

definition new_ui :: "window \<Rightarrow> ui" where
  \<comment> \<open>the field initialisers and the constructor\<close>
  "new_ui w =
     \<lparr> isLeftVerticalBarDragging = False, isRightVerticalBarDragging = False, isMonitorGroupDividerDragging = False,
       mainContainerHeight = 0, monitorGroupHeight = 0, leftPaneWidth = 200, rightPaneWidth = 700, ui_window = w,
       ui_titles = [], ui_style = \<lparr> mainHeight = 0, mainWidth = 0, leftWidth = 0, centralWidth = 0, rightWidth = 0,
         dividerWidth = 0, groupHeight = 0, widgetStyles = [] \<rparr> \<rparr>"

definition freeHeight :: "ui \<Rightarrow> rat" where
  \<comment> \<open>the height for the panes and the monitor group together\<close>
  "freeHeight u =
     innerHeight (ui_window u) - navBarHeight - horizontalDividerHeight - progressHeight (ui_window u)"

definition assignElements :: "ui \<Rightarrow> ui" where
  \<comment> \<open>the lookup of the elements and the registration of the handlers are left out\<close>
  "assignElements u = ui_resize (u\<lparr>mainContainerHeight := freeHeight u\<rparr>)"

definition leftVerticalDividerMouseDownHandler :: "ui \<Rightarrow> ui" where
  "leftVerticalDividerMouseDownHandler u = u\<lparr>isLeftVerticalBarDragging := True\<rparr>"

definition rightVerticalDividerMouseDownHandler :: "ui \<Rightarrow> ui" where
  "rightVerticalDividerMouseDownHandler u = u\<lparr>isRightVerticalBarDragging := True\<rparr>"

definition monitorGroupDividerMouseDownHandler :: "ui \<Rightarrow> ui" where
  "monitorGroupDividerMouseDownHandler u = u\<lparr>isMonitorGroupDividerDragging := True\<rparr>"

definition verticalDividerMouseMoveHandler :: "rat \<Rightarrow> ui \<Rightarrow> ui" where
  "verticalDividerMouseMoveHandler clientX u =
     (let u1 = (if isLeftVerticalBarDragging u
                then ui_resize (u\<lparr>leftPaneWidth := clientX - verticalDividerWidth / 2\<rparr>) else u)
      in if isRightVerticalBarDragging u1
         then ui_resize (u1\<lparr>rightPaneWidth := innerWidth (ui_window u1) - clientX - verticalDividerWidth / 2\<rparr>)
         else u1)"

definition horizontalDividerMouseMoveHandler :: "rat \<Rightarrow> ui \<Rightarrow> ui" where
  "horizontalDividerMouseMoveHandler clientY u =
     (if isMonitorGroupDividerDragging u then
        let main = clientY - navBarHeight - horizontalDividerHeight / 2;
            group = innerHeight (ui_window u) - main - navBarHeight - horizontalDividerHeight -
              progressHeight (ui_window u);
            maxMain = freeHeight u
        in ui_resize (u\<lparr>mainContainerHeight := (if main > maxMain then maxMain else main), monitorGroupHeight := group\<rparr>)
      else u)"

definition verticalDividerMouseUpHandler :: "ui \<Rightarrow> ui" where
  "verticalDividerMouseUpHandler u = u\<lparr>isLeftVerticalBarDragging := False, isRightVerticalBarDragging := False\<rparr>"

definition horizontalDividerMouseUpHandler :: "ui \<Rightarrow> ui" where
  "horizontalDividerMouseUpHandler u = u\<lparr>isMonitorGroupDividerDragging := False\<rparr>"

definition adjustProgressBarGroupHeight :: "ui \<Rightarrow> ui" where
  "adjustProgressBarGroupHeight u = ui_resize (u\<lparr>mainContainerHeight := freeHeight u - monitorGroupHeight u\<rparr>)"

definition popUpMonitorGroup :: "ui \<Rightarrow> ui" where
  "popUpMonitorGroup u = ui_resize (u\<lparr>monitorGroupHeight := 200, mainContainerHeight := freeHeight u - 200\<rparr>)"

definition collapseMonitorGroup :: "ui \<Rightarrow> ui" where
  "collapseMonitorGroup u = ui_resize (u\<lparr>monitorGroupHeight := 0, mainContainerHeight := freeHeight u\<rparr>)"

lemmas ui_ops = assignElements_def leftVerticalDividerMouseDownHandler_def rightVerticalDividerMouseDownHandler_def
  monitorGroupDividerMouseDownHandler_def verticalDividerMouseMoveHandler_def
  horizontalDividerMouseMoveHandler_def verticalDividerMouseUpHandler_def horizontalDividerMouseUpHandler_def
  adjustProgressBarGroupHeight_def popUpMonitorGroup_def collapseMonitorGroup_def

subsection \<open>Events\<close>

datatype ui_event =
    LeftDown | RightDown | GroupDown | MouseMove rat rat | MouseUp
  | PopUp | Collapse | Adjust
  | WindowResize rat rat \<comment> \<open>the window has a new size; the listener in \<open>index.ts\<close> only calls \<open>resize\<close>\<close>
  | ProgressResize rat \<comment> \<open>the progress bars have a new height\<close>

fun ui_step :: "ui_event \<Rightarrow> ui \<Rightarrow> ui" where
  "ui_step LeftDown u = leftVerticalDividerMouseDownHandler u"
| "ui_step RightDown u = rightVerticalDividerMouseDownHandler u"
| "ui_step GroupDown u = monitorGroupDividerMouseDownHandler u"
| "ui_step (MouseMove x y) u = horizontalDividerMouseMoveHandler y (verticalDividerMouseMoveHandler x u)"
| "ui_step MouseUp u = horizontalDividerMouseUpHandler (verticalDividerMouseUpHandler u)"
| "ui_step PopUp u = popUpMonitorGroup u"
| "ui_step Collapse u = collapseMonitorGroup u"
| "ui_step Adjust u = adjustProgressBarGroupHeight u"
| "ui_step (WindowResize w h) u = ui_resize (u\<lparr>ui_window := (ui_window u)\<lparr>innerWidth := w, innerHeight := h\<rparr>\<rparr>)"
| "ui_step (ProgressResize h) u = u\<lparr>ui_window := (ui_window u)\<lparr>progressHeight := h\<rparr>\<rparr>"

abbreviation ui_run :: "(ui_event \<Rightarrow> ui \<Rightarrow> bool) \<Rightarrow> ui \<Rightarrow> ui \<Rightarrow> bool" where
  "ui_run allowed \<equiv> run allowed ui_step"

subsection \<open>What is on the screen\<close>

definition style_current :: "ui \<Rightarrow> bool" where
  \<comment> \<open>the styles are those of the state\<close>
  "style_current u \<longleftrightarrow> ui_style (ui_resize u) = ui_style u"

definition fills_width :: "ui \<Rightarrow> bool" where
  "fills_width u \<longleftrightarrow> (let s = ui_style u in
     leftWidth s + dividerWidth s + centralWidth s + dividerWidth s + rightWidth s = innerWidth (ui_window u) \<and>
     mainWidth s = innerWidth (ui_window u))"

definition fills_height :: "ui \<Rightarrow> bool" where
  "fills_height u \<longleftrightarrow> (let s = ui_style u; w = ui_window u in
     navBarHeight + mainHeight s + horizontalDividerHeight + groupHeight s + progressHeight w = innerHeight w)"

definition overshoots :: "ui_event \<Rightarrow> ui \<Rightarrow> bool" where
  \<comment> \<open>the divider is dragged below the place where the group has no height\<close>
  "overshoots e u = (case e of MouseMove x y \<Rightarrow> isMonitorGroupDividerDragging u \<and>
     y - navBarHeight - horizontalDividerHeight / 2 > freeHeight u | _ \<Rightarrow> False)"

fun resizing :: "ui_event \<Rightarrow> bool" where
  "resizing (WindowResize _ _) = True"
| "resizing (ProgressResize _) = True"
| "resizing _ = False"

lemma resize_fields [simp]:
  "ui_window (ui_resize u) = ui_window u" "mainContainerHeight (ui_resize u) = mainContainerHeight u"
  "monitorGroupHeight (ui_resize u) = monitorGroupHeight u" "leftPaneWidth (ui_resize u) = leftPaneWidth u"
  "rightPaneWidth (ui_resize u) = rightPaneWidth u" "ui_titles (ui_resize u) = ui_titles u"
  "isRightVerticalBarDragging (ui_resize u) = isRightVerticalBarDragging u"
  "isLeftVerticalBarDragging (ui_resize u) = isLeftVerticalBarDragging u"
  "isMonitorGroupDividerDragging (ui_resize u) = isMonitorGroupDividerDragging u"
  by (simp_all add: ui_resize_def Let_def)

lemma resize_style [simp]:
  "mainHeight (ui_style (ui_resize u)) = mainContainerHeight u" "mainWidth (ui_style (ui_resize u)) = innerWidth (ui_window u)"
  "leftWidth (ui_style (ui_resize u)) = leftPaneWidth u" "rightWidth (ui_style (ui_resize u)) = rightPaneWidth u"
  "centralWidth (ui_style (ui_resize u)) = innerWidth (ui_window u) - leftPaneWidth u - rightPaneWidth u - verticalDividerWidth * 2"
  "dividerWidth (ui_style (ui_resize u)) = verticalDividerWidth" "groupHeight (ui_style (ui_resize u)) = monitorGroupHeight u"
  by (simp_all add: ui_resize_def Let_def)

lemma resize_fills_width: "fills_width (ui_resize u)"
  by (simp add: fills_width_def Let_def)

lemma fills_width_cong:
  "ui_style v = ui_style u \<Longrightarrow> innerWidth (ui_window v) = innerWidth (ui_window u) \<Longrightarrow> fills_width v = fills_width u"
  by (simp add: fills_width_def)

lemma step_fills_width: "fills_width u \<Longrightarrow> fills_width (ui_step e u)"
  by (cases e) (auto simp: ui_ops Let_def resize_fills_width intro: iffD2 [OF fills_width_cong])

lemma resize_fills_height:
  "fills_height (ui_resize u) \<longleftrightarrow> mainContainerHeight u + monitorGroupHeight u = freeHeight u"
  by (auto simp: fills_height_def freeHeight_def Let_def)

text \<open>The state behind the styles: the heights that the next \<open>resize\<close> writes add up as well.\<close>

definition heights_inv :: "ui \<Rightarrow> bool" where
  "heights_inv u \<longleftrightarrow> fills_height u \<and> mainContainerHeight u + monitorGroupHeight u = freeHeight u"

lemma freeHeight_cong: "ui_window v = ui_window u \<Longrightarrow> freeHeight v = freeHeight u"
  by (simp add: freeHeight_def)

lemma resize_heights_inv: "heights_inv (ui_resize u) \<longleftrightarrow> mainContainerHeight u + monitorGroupHeight u = freeHeight u"
  by (simp add: heights_inv_def resize_fills_height freeHeight_cong [of "ui_resize u"])

lemma heights_sum: "heights_inv u \<Longrightarrow> mainContainerHeight u + monitorGroupHeight u = freeHeight u"
  by (simp add: heights_inv_def)

lemma heights_inv_cong:
  "ui_style v = ui_style u \<Longrightarrow> ui_window v = ui_window u \<Longrightarrow> mainContainerHeight v = mainContainerHeight u \<Longrightarrow>
   monitorGroupHeight v = monitorGroupHeight u \<Longrightarrow> heights_inv v = heights_inv u"
  by (simp add: heights_inv_def fills_height_def freeHeight_def)

lemma vertical_move_heights: "heights_inv u \<Longrightarrow> heights_inv (verticalDividerMouseMoveHandler x u)"
  by (auto simp: verticalDividerMouseMoveHandler_def Let_def resize_heights_inv resize_fills_height heights_inv_def freeHeight_def)

lemma horizontal_move_heights:
  assumes "heights_inv u" "\<not> (isMonitorGroupDividerDragging u \<and> y - navBarHeight - horizontalDividerHeight / 2 > freeHeight u)"
  shows "heights_inv (horizontalDividerMouseMoveHandler y u)"
  using assms by (auto simp: horizontalDividerMouseMoveHandler_def Let_def resize_heights_inv freeHeight_def)

lemma vertical_move_fields:
  "isMonitorGroupDividerDragging (verticalDividerMouseMoveHandler x u) = isMonitorGroupDividerDragging u"
  "ui_window (verticalDividerMouseMoveHandler x u) = ui_window u"
  by (simp_all add: verticalDividerMouseMoveHandler_def Let_def)

lemma step_heights:
  assumes "heights_inv u" "\<not> overshoots e u" "\<not> resizing e"
  shows "heights_inv (ui_step e u)"
proof (cases e)
  case (MouseMove x y)
  then show ?thesis using assms vertical_move_heights [OF assms(1)]
    by (auto intro!: horizontal_move_heights
        simp: vertical_move_fields freeHeight_cong [OF vertical_move_fields(2)] overshoots_def)
qed (use assms in \<open>auto simp: ui_ops resize_heights_inv freeHeight_def intro: iffD2 [OF heights_inv_cong]\<close>)

definition undisturbed :: "ui_event \<Rightarrow> ui \<Rightarrow> bool" where
  "undisturbed e u \<longleftrightarrow> \<not> overshoots e u \<and> \<not> resizing e"

interpretation uw: kept_invariant "\<lambda>_ _. True" ui_step fills_width
  by unfold_locales (rule step_fills_width)

text \<open>The styles are current after every event: each handler that changes the state writes them.\<close>

lemma style_current_resize: "style_current (ui_resize u)"
  by (simp add: style_current_def ui_resize_def resizeMonitorGroup_def Let_def)

lemma style_current_cong:
  "ui_style v = ui_style u \<Longrightarrow> ui_style (ui_resize v) = ui_style (ui_resize u) \<Longrightarrow> style_current v = style_current u"
  by (simp add: style_current_def)

lemma style_current_frame:
  "style_current (u\<lparr>isLeftVerticalBarDragging := b\<rparr>) = style_current u"
  "style_current (u\<lparr>isRightVerticalBarDragging := b\<rparr>) = style_current u"
  "style_current (u\<lparr>isMonitorGroupDividerDragging := b\<rparr>) = style_current u"
  "style_current (u\<lparr>ui_window := (ui_window u)\<lparr>progressHeight := h\<rparr>\<rparr>) = style_current u"
  by (auto intro!: style_current_cong simp: ui_resize_def resizeMonitorGroup_def Let_def)

lemma step_style_current: "style_current u \<Longrightarrow> style_current (ui_step e u)"
  by (cases e) (simp_all add: ui_ops Let_def style_current_resize style_current_frame)

lemma style_current_fills: "style_current u \<Longrightarrow> fills_width u"
  using resize_fills_width [of u] by (simp add: style_current_def fills_width_def)

lemma step_titles: "ui_titles (ui_step e u) = ui_titles u"
  by (cases e) (simp_all add: ui_ops Let_def)

interpretation us: kept_invariant "\<lambda>_ _. True" ui_step "\<lambda>u. style_current u \<and> ui_titles u = ts" for ts
  by unfold_locales (simp add: step_style_current step_titles)

interpretation uh: kept_invariant undisturbed ui_step heights_inv
  by unfold_locales (simp add: step_heights undisturbed_def)

lemma start_heights: "heights_inv (assignElements (new_ui w))"
  by (simp add: assignElements_def resize_heights_inv) (simp add: new_ui_def freeHeight_def)

subsection \<open>Properties\<close>

text \<open>
  The panes fill the width of the window: after any sequence of drags, changes of the window
  and calls of the other components, the three panes and the two dividers are together as wide as
  the window.
\<close>

theorem ui_panes_fill_width:
  assumes "ui_run (\<lambda>_ _. True) u0 u" "u0 = assignElements (new_ui w)"
  shows "fills_width u"
  using uw.run_keeps [OF assms(1)] by (simp add: assms(2) assignElements_def resize_fills_width)

definition sample_window :: window where
  "sample_window = \<lparr>innerWidth = 1400, innerHeight = 800, progressHeight = 40\<rparr>"

theorem ui_panes_fill_width_witness:
  "fills_width (ui_step (MouseMove 300 10) (ui_step LeftDown (assignElements (new_ui sample_window))))"
proof (rule ui_panes_fill_width [OF _ refl])
  show "ui_run (\<lambda>_ _. True) (assignElements (new_ui sample_window))
    (ui_step (MouseMove 300 10) (ui_step LeftDown (assignElements (new_ui sample_window))))"
    by (intro run.intros TrueI)
qed

text \<open>
  The rows fill the height of the window, as long as the window and the progress bars keep
  their sizes and the divider is not dragged below its range: the navigation bar, the panes, the
  divider, the group of widgets and the progress bars are together as high as the window.
\<close>

theorem ui_rows_fill_height:
  assumes "ui_run undisturbed u0 u" "u0 = assignElements (new_ui w)"
  shows "fills_height u"
  using uh.run_keeps [OF assms(1)] start_heights [of w] by (simp add: assms(2) heights_inv_def)

theorem ui_rows_fill_height_witness:
  "fills_height (ui_step (MouseMove 0 500) (ui_step GroupDown (ui_step PopUp (assignElements (new_ui sample_window)))))"
proof (rule ui_rows_fill_height [OF _ refl])
  show "ui_run undisturbed (assignElements (new_ui sample_window))
    (ui_step (MouseMove 0 500) (ui_step GroupDown (ui_step PopUp (assignElements (new_ui sample_window)))))"
    by (intro run.intros)
      (simp_all add: undisturbed_def overshoots_def ui_ops freeHeight_def new_ui_def sample_window_def ui_constants)
qed

text \<open>
  Dragging the divider below its range limits the panes but not the group, whose height
  becomes negative; the next change of the progress bars then makes the panes higher than the
  free height, by the distance of the drag.
\<close>

theorem ui_overshoot_overflows:
  assumes "isMonitorGroupDividerDragging u" "d = y - navBarHeight - horizontalDividerHeight / 2 - freeHeight u" "0 < d"
  shows "monitorGroupHeight (ui_step (MouseMove x y) u) = - d \<and>
    mainHeight (ui_style (ui_step (MouseMove x y) u)) = freeHeight u \<and>
    mainHeight (ui_style (ui_step Adjust (ui_step (MouseMove x y) u))) = freeHeight u + d"
proof -
  let ?v = "verticalDividerMouseMoveHandler x u"
  have v: "isMonitorGroupDividerDragging ?v" "freeHeight ?v = freeHeight u" "ui_window ?v = ui_window u"
    using assms(1) vertical_move_fields [of x u] freeHeight_cong [of ?v u] by blast+
  have "horizontalDividerMouseMoveHandler y ?v =
      ui_resize (?v\<lparr>mainContainerHeight := freeHeight u, monitorGroupHeight := - d\<rparr>)"
  proof -
    have gt: "freeHeight u < y - navBarHeight - horizontalDividerHeight / 2" using assms(2,3) by linarith
    have group: "innerHeight (ui_window u) - (y - navBarHeight - horizontalDividerHeight / 2) - navBarHeight -
        horizontalDividerHeight - progressHeight (ui_window u) = - d"
      unfolding assms(2) freeHeight_def by (simp add: algebra_simps)
    show ?thesis
      unfolding horizontalDividerMouseMoveHandler_def Let_def v(2,3) group using v(1) gt by (simp only: if_True)
  qed
  then show ?thesis by (simp add: adjustProgressBarGroupHeight_def freeHeight_def v)
qed

theorem ui_overshoot_overflows_witness:
  "mainHeight (ui_style (ui_step Adjust (ui_step (MouseMove 0 790) (ui_step GroupDown (assignElements (new_ui sample_window)))))) = 731"
proof -
  let ?u = "ui_step GroupDown (assignElements (new_ui sample_window))"
  have u: "isMonitorGroupDividerDragging ?u" "freeHeight ?u = 698"
    by (simp_all add: ui_ops freeHeight_def new_ui_def sample_window_def ui_constants)
  have d: "33 = 790 - navBarHeight - horizontalDividerHeight / 2 - freeHeight ?u"
    unfolding u(2) by (simp add: ui_constants)
  have "mainHeight (ui_style (ui_step Adjust (ui_step (MouseMove 0 790) ?u))) = freeHeight ?u + 33"
    using ui_overshoot_overflows [OF u(1) d, of 0] by simp
  then show ?thesis unfolding u(2) by simp
qed

end
