(* ===== verification/Component_Details.thy ===== *)
theory Component_Details
  imports Smart_Value
begin

text \<open>
  \<open>monitoring/web/src/gotypes.ts\<close> and the value table of
  \<open>monitoring/web/src/component.ts\<close>: a component of the simulator is sent as a dictionary
  of values, each with its Go kind; \<open>showContent\<close> turns a value into a text or into rows that
  can be expanded, and each row of a countable kind has a flag that adds it to the monitor.
\<close>

subsection \<open>Go kinds\<close>

datatype var_kind =
    KInvalid | KBool | KInt | KInt8 | KInt16 | KInt32 | KInt64 | KUint | KUint8 | KUint16 | KUint32
  | KUint64 | KUintptr | KFloat32 | KFloat64 | KComplex64 | KComplex128 | KArray | KChan | KFunc
  | KInterface | KMap | KPointer | KSlice | KString | KStruct | KUnsafePointer

fun kind_number :: "var_kind \<Rightarrow> nat" where
  "kind_number KInvalid = 0" | "kind_number KBool = 1" | "kind_number KInt = 2"
| "kind_number KInt8 = 3" | "kind_number KInt16 = 4" | "kind_number KInt32 = 5"
| "kind_number KInt64 = 6" | "kind_number KUint = 7" | "kind_number KUint8 = 8"
| "kind_number KUint16 = 9" | "kind_number KUint32 = 10" | "kind_number KUint64 = 11"
| "kind_number KUintptr = 12" | "kind_number KFloat32 = 13" | "kind_number KFloat64 = 14"
| "kind_number KComplex64 = 15" | "kind_number KComplex128 = 16" | "kind_number KArray = 17"
| "kind_number KChan = 18" | "kind_number KFunc = 19" | "kind_number KInterface = 20"
| "kind_number KMap = 21" | "kind_number KPointer = 22" | "kind_number KSlice = 23"
| "kind_number KString = 24" | "kind_number KStruct = 25" | "kind_number KUnsafePointer = 26"

definition isContainerKind :: "nat \<Rightarrow> bool" where
  "isContainerKind kind = (kind \<in> set [17, 18, 21, 23])"

definition isDirectKind :: "nat \<Rightarrow> bool" where
  "isDirectKind kind = (kind \<in> set [0, 1, 2, 3, 4, 5, 6, 7, 8, 8, 10, 11, 13, 14, 15, 24])"

definition isMonitorableKind :: "nat \<Rightarrow> bool" where
  "isMonitorableKind kind =
     (kind \<in> set (map kind_number [KInt, KInt8, KInt16, KInt32, KInt64, KUint, KUint8, KUint16, KUint32,
        KUint64, KFloat32, KFloat64, KChan, KMap, KSlice]))"

subsection \<open>Values and rows\<close>

datatype go_content =
    Scalar string \<comment> \<open>the text of a direct value\<close>
  | Fields "(string \<times> string) list" \<comment> \<open>the keys of an object or array and their entries in the dictionary\<close>
  | Missing \<comment> \<open>the value has no \<open>v\<close>\<close>

fun value_text :: "go_content \<Rightarrow> string" where
  \<comment> \<open>a value in a template or as inner text\<close>
  "value_text (Scalar s) = s"
| "value_text (Fields _) = ''[object Object]''"
| "value_text Missing = ''undefined''"

fun value_entries :: "go_content \<Rightarrow> (string \<times> string) list js_result" where
  \<comment> \<open>\<open>Object.keys\<close> and \<open>length\<close> raise on an undefined value; the keys of a text are the indices of
     its characters\<close>
  "value_entries (Fields es) = Inr es"
| "value_entries (Scalar t) = Inr (map (\<lambda>(i, c). (digits i, [c])) (enumerate 0 t))"
| "value_entries Missing = Inl TypeError"

record go_value =
  gv_kind :: nat
  gv_type :: string
  gv_content :: go_content
  gv_length :: nat

type_synonym dict = "(string, go_value) js_map"

record row =
  row_key :: string
  row_type :: string
  row_keyChain :: string
  row_field :: string \<comment> \<open>the field that an expansion fetches\<close>
  row_expandable :: bool
  row_text :: "string option"
  row_length :: "nat option"
  row_flag :: bool \<comment> \<open>the row has a flag button\<close>

definition showValue :: "dict \<Rightarrow> string \<times> string \<Rightarrow> string \<Rightarrow> string \<Rightarrow> row js_result" where
  \<comment> \<open>\<open>showValue\<close> with \<open>showValueTitle\<close> and \<open>shouldValueSubContent\<close>\<close>
  "showValue dict entry keyChain fieldPrefix =
     (case map_get dict (snd entry) of
        None \<Rightarrow> Inl TypeError
      | Some v \<Rightarrow> Inr
          \<lparr> row_key = fst entry, row_type = gv_type v, row_keyChain = keyChain @ ''.'' @ fst entry,
            row_field = fieldPrefix @ fst entry,
            row_expandable = (\<not> isDirectKind (gv_kind v)),
            row_text = (if isDirectKind (gv_kind v) then Some (value_text (gv_content v)) else None),
            row_length = (if isContainerKind (gv_kind v) then Some (gv_length v) else None),
            row_flag = isMonitorableKind (gv_kind v) \<rparr>)"

fun show_rows :: "dict \<Rightarrow> (string \<times> string) list \<Rightarrow> string \<Rightarrow> string \<Rightarrow> row list js_result" where
  "show_rows dict [] keyChain fieldPrefix = Inr []"
| "show_rows dict (e # es) keyChain fieldPrefix =
     bind_result (showValue dict e keyChain fieldPrefix) (\<lambda>r.
     bind_result (show_rows dict es keyChain fieldPrefix) (\<lambda>rs. Inr (r # rs)))"

datatype content = Text string | Table "row list" | NotSupported

definition direct_case :: "nat \<Rightarrow> bool" where
  \<comment> \<open>the labels of the first branch of the \<open>switch\<close>\<close>
  "direct_case k = (k \<in> {1..11} \<or> k \<in> {13, 14, 15, 24})"

definition showContent :: "go_value \<Rightarrow> dict \<Rightarrow> string \<Rightarrow> string \<Rightarrow> content js_result" where
  \<comment> \<open>a map is an array, which is shown in the order of its indices; the keys of slices and
     structs are sorted as texts\<close>
  "showContent s dict keyChain fieldPrefix =
     (if direct_case (gv_kind s) then Inr (Text (value_text (gv_content s)))
      else if gv_kind s = kind_number KMap then
        bind_result (value_entries (gv_content s)) (\<lambda>entries.
        bind_result (show_rows dict entries keyChain fieldPrefix) (\<lambda>rs. Inr (Table rs)))
      else if gv_kind s = kind_number KSlice \<or> gv_kind s = kind_number KStruct then
        bind_result (value_entries (gv_content s)) (\<lambda>entries.
        bind_result (show_rows dict (sort_key fst entries) keyChain fieldPrefix) (\<lambda>rs. Inr (Table rs)))
      else Inr NotSupported)"

definition cd_showComponent :: "go_value \<Rightarrow> dict \<Rightarrow> content js_result" where
  "cd_showComponent obj dict = showContent obj dict [] []"

definition showField :: "row \<Rightarrow> go_value \<Rightarrow> dict \<Rightarrow> content js_result" where
  \<comment> \<open>the response to the field request of an expanded row\<close>
  "showField r s dict = showContent s dict (row_keyChain r) (row_field r @ ''.'')"

definition monitored_field :: "row \<Rightarrow> string" where
  \<comment> \<open>the \<open>field_name\<close> that the widget of a flagged row asks for: \<open>this.field.substring(1)\<close>\<close>
  "monitored_field r = drop 1 (row_keyChain r)"

lemma join_with_snoc: "ts \<noteq> [] \<Longrightarrow> join_with sep (ts @ [t]) = join_with sep ts @ sep @ t"
proof (induction ts)
  case (Cons x xs)
  then show ?case by (cases xs) simp_all
qed simp

subsection \<open>Properties\<close>

definition sample_dict :: dict where
  "sample_dict =
     [(''1'', \<lparr>gv_kind = 25, gv_type = ''Comp'', gv_content = Fields [(''queue'', ''2'')], gv_length = 0\<rparr>),
      (''2'', \<lparr>gv_kind = 25, gv_type = ''Queue'', gv_content = Fields [(''size'', ''3'')], gv_length = 0\<rparr>),
      (''3'', \<lparr>gv_kind = 2, gv_type = ''int'', gv_content = Scalar ''7'', gv_length = 0\<rparr>)]"

text \<open>
  Where the two lists of direct kinds agree: a row is expandable exactly when an expansion
  shows more than a text, except for the kind \<open>Uint16\<close>, whose rows are expandable and show a
  text, and for invalid values, which are not expandable and show nothing.  Every kind that the
  monitor can count is a number or a container whose length is shown.
\<close>

theorem row_kinds:
  "(isDirectKind (kind_number k) = direct_case (kind_number k)) = (k \<noteq> KUint16 \<and> k \<noteq> KInvalid) \<and>
   \<not> isDirectKind (kind_number KUint16) \<and> direct_case (kind_number KUint16) \<and>
   isDirectKind (kind_number KInvalid) \<and> \<not> direct_case (kind_number KInvalid) \<and>
   (isMonitorableKind (kind_number k) \<longrightarrow> isContainerKind (kind_number k) \<or> direct_case (kind_number k))"
  by (cases k) (simp_all add: isDirectKind_def direct_case_def isMonitorableKind_def isContainerKind_def)

theorem row_kinds_witness:
  "isMonitorableKind (kind_number KSlice) \<and> (isContainerKind (kind_number KSlice) \<or> direct_case (kind_number KSlice))"
  using row_kinds [of KSlice] by (simp add: isMonitorableKind_def isContainerKind_def)

end
