(* ===== verification/Monitor_Widgets.thy ===== *)
theory Monitor_Widgets
  imports Ui_Manager Intervals Component_Details Task_Renderer
begin

text \<open>
  \<open>monitoring/web/src/monitor.ts\<close>: the widgets that plot a field of a component over time.
  Each widget polls its field once a second and keeps the last 300 samples; the group of widgets
  pops up with the first of them and collapses with the last.

  The identity of a widget object is that of its DOM element, a number.
\<close>

subsection \<open>State\<close>

record data_point =
  dp_time :: js_num
  dp_value :: js_num

record monitor_widget =
  mw_component :: string
  mw_field :: string
  mw_dom :: nat
  mw_data :: "data_point list"
  mw_interval :: nat

record monitor =
  mo_widgets :: "monitor_widget list"
  mo_container :: "nat list" \<comment> \<open>the elements of the group container\<close>
  mo_next :: nat
  mo_ui :: ui
  mo_intervals :: intervals

definition new_monitor :: "ui \<Rightarrow> monitor" where
  "new_monitor u = \<lparr> mo_widgets = [], mo_container = [], mo_next = 0, mo_ui = u, mo_intervals = no_intervals \<rparr>"

subsection \<open>Operations\<close>

definition group_resize :: "rat \<Rightarrow> monitor \<Rightarrow> monitor" where
  \<comment> \<open>\<open>uiManager.resize()\<close>, which finds the widgets in the container; a title has the given height\<close>
  "group_resize title m = m\<lparr>mo_ui := ui_resize ((mo_ui m)\<lparr>ui_titles := map (\<lambda>_. title) (mo_container m)\<rparr>)\<rparr>"

definition getWidget :: "string \<Rightarrow> string \<Rightarrow> monitor \<Rightarrow> monitor_widget option" where
  "getWidget c f m = find (\<lambda>w. mw_component w = c \<and> mw_field w = f) (mo_widgets m)"

definition addWidget :: "rat \<Rightarrow> string \<Rightarrow> string \<Rightarrow> monitor \<Rightarrow> monitor" where
  "addWidget title c f m =
     (let (h, iv) = setInterval (mo_intervals m);
          w = \<lparr> mw_component = c, mw_field = f, mw_dom = mo_next m, mw_data = [], mw_interval = h \<rparr>;
          m1 = m\<lparr>mo_container := mo_container m @ [mo_next m], mo_next := mo_next m + 1, mo_intervals := iv\<rparr>;
          m2 = (if mo_widgets m = [] then m1\<lparr>mo_ui := popUpMonitorGroup (mo_ui m1)\<rparr> else m1)
      in group_resize title (m2\<lparr>mo_widgets := mo_widgets m2 @ [w]\<rparr>))"

definition removeWidget :: "rat \<Rightarrow> string \<Rightarrow> string \<Rightarrow> monitor \<Rightarrow> monitor" where
  "removeWidget title c f m =
     (case getWidget c f m of
        None \<Rightarrow> m
      | Some w \<Rightarrow>
          let m1 = m\<lparr>mo_intervals := clearInterval (mw_interval w) (mo_intervals m),
                     mo_container := filter (\<lambda>d. d \<noteq> mw_dom w) (mo_container m),
                     mo_widgets := filter (\<lambda>v. mw_dom v \<noteq> mw_dom w) (mo_widgets m)\<rparr>;
              m2 = (if mo_widgets m1 = [] then m1\<lparr>mo_ui := collapseMonitorGroup (mo_ui m1)\<rparr> else m1)
          in group_resize title m2)"

definition sample_value :: "dict \<Rightarrow> string \<Rightarrow> (go_content \<Rightarrow> js_num) \<Rightarrow> js_num js_result" where
  \<comment> \<open>the number a response stands for: the length of a container, otherwise the value\<close>
  "sample_value dict r num =
     (case map_get dict r of
        None \<Rightarrow> Inl TypeError
      | Some v \<Rightarrow> Inr (if isContainerKind (gv_kind v) then of_nat_num (gv_length v) else num (gv_content v)))"

definition push_sample :: "data_point \<Rightarrow> data_point list \<Rightarrow> data_point list" where
  \<comment> \<open>\<open>push\<close> and, above 300 samples, \<open>shift\<close>\<close>
  "push_sample dp xs = (let ys = xs @ [dp] in if length ys > 300 then tl ys else ys)"

definition updateChart :: "nat \<Rightarrow> data_point \<Rightarrow> monitor \<Rightarrow> monitor" where
  \<comment> \<open>a sample arrives for the widget with the given element\<close>
  "updateChart elem dp m =
     m\<lparr>mo_widgets := map (\<lambda>w. if mw_dom w = elem then w\<lparr>mw_data := push_sample dp (mw_data w)\<rparr> else w) (mo_widgets m)\<rparr>"

subsection \<open>The chart\<close>

record chart_bar =
  cb_x :: js_num
  cb_y :: js_num
  cb_width :: js_num
  cb_height :: js_num

fun d3_extreme :: "(js_num \<Rightarrow> js_num \<Rightarrow> bool) \<Rightarrow> js_num list \<Rightarrow> js_num" where
  \<comment> \<open>\<open>d3.min\<close> and \<open>d3.max\<close> of comparable numbers; undefined for no data\<close>
  "d3_extreme better [] = Undef"
| "d3_extreme better (x # xs) = fold (\<lambda>y m. if better y m then y else m) xs x"

definition chart_scales :: "js_num \<Rightarrow> js_num \<Rightarrow> data_point list \<Rightarrow> lin_scale \<times> lin_scale" where
  "chart_scales contentWidth contentHeight xs =
     (\<lparr> domain_from = d3_extreme (<) (map dp_time xs), domain_to = d3_extreme (>) (map dp_time xs),
        range_from = 0, range_to = contentWidth \<rparr>,
      \<lparr> domain_from = 0, domain_to = d3_extreme (>) (map dp_value xs), range_from = contentHeight, range_to = 0 \<rparr>)"

definition chart_bars :: "scaling \<Rightarrow> js_num \<Rightarrow> js_num \<Rightarrow> data_point list \<Rightarrow> chart_bar list" where
  \<comment> \<open>\<open>render\<close>: the attributes of the bars at the end of the transition\<close>
  "chart_bars scale canvasWidth canvasHeight xs =
     (let padding = 8; yAxisWidth = 25; xAxisHeight = 14;
          contentWidth = canvasWidth - yAxisWidth - padding * 2;
          contentHeight = canvasHeight - xAxisHeight - padding * 2;
          (xScale, yScale) = chart_scales contentWidth contentHeight xs
      in map (\<lambda>d. \<lparr> cb_x = scale xScale (dp_time d) + padding + yAxisWidth,
                    cb_y = padding + scale yScale (dp_value d),
                    cb_width = contentWidth / of_nat_num (length xs),
                    cb_height = contentHeight - scale yScale (dp_value d) \<rparr>) xs)"

subsection \<open>Invariant\<close>

datatype monitor_event =
    Add string string
  | Remove string string \<comment> \<open>the flag of a row or the close button of the widget\<close>
  | Sample nat data_point

fun monitor_step :: "rat \<Rightarrow> monitor_event \<Rightarrow> monitor \<Rightarrow> monitor" where
  "monitor_step title (Add c f) m = addWidget title c f m"
| "monitor_step title (Remove c f) m = removeWidget title c f m"
| "monitor_step title (Sample elem dp) m = updateChart elem dp m"

definition polling :: "monitor \<Rightarrow> nat multiset" where
  \<comment> \<open>the timers of the widgets\<close>
  "polling m = mset (map mw_interval (mo_widgets m))"

definition monitor_inv :: "nat multiset \<Rightarrow> monitor \<Rightarrow> bool" where
  \<comment> \<open>\<open>R\<close> are the timers of the other parts of the page\<close>
  "monitor_inv R m \<longleftrightarrow>
     map mw_dom (mo_widgets m) = mo_container m \<and> distinct (mo_container m) \<and> (\<forall>d \<in> set (mo_container m). d < mo_next m) \<and>
     mset (iv_live (mo_intervals m)) = polling m + R \<and> iv_ok (mo_intervals m) \<and>
     (\<forall>w \<in> set (mo_widgets m). length (mw_data w) \<le> 300)"

lemma group_resize_fields [simp]:
  "mo_widgets (group_resize t m) = mo_widgets m" "mo_container (group_resize t m) = mo_container m"
  "mo_next (group_resize t m) = mo_next m" "mo_intervals (group_resize t m) = mo_intervals m"
  by (simp_all add: group_resize_def)

lemma addWidget_fields:
  "mo_widgets (addWidget t c f m) = mo_widgets m @
     [\<lparr> mw_component = c, mw_field = f, mw_dom = mo_next m, mw_data = [], mw_interval = fst (setInterval (mo_intervals m)) \<rparr>]"
  "mo_container (addWidget t c f m) = mo_container m @ [mo_next m]" "mo_next (addWidget t c f m) = mo_next m + 1"
  "mo_intervals (addWidget t c f m) = snd (setInterval (mo_intervals m))"
  by (simp_all add: addWidget_def split_def Let_def)

lemma removeWidget_fields:
  assumes "getWidget c f m = Some w"
  shows "mo_widgets (removeWidget t c f m) = filter (\<lambda>v. mw_dom v \<noteq> mw_dom w) (mo_widgets m)"
    "mo_container (removeWidget t c f m) = filter (\<lambda>d. d \<noteq> mw_dom w) (mo_container m)"
    "mo_next (removeWidget t c f m) = mo_next m"
    "mo_intervals (removeWidget t c f m) = clearInterval (mw_interval w) (mo_intervals m)"
  by (simp_all add: removeWidget_def assms Let_def)

lemma filter_one:
  assumes "distinct (map f xs)" "x \<in> set xs"
  shows "mset (map g xs) = add_mset (g x) (mset (map g (filter (\<lambda>v. f v \<noteq> f x) xs)))"
  using assms
proof (induction xs)
  case (Cons y ys)
  show ?case
  proof (cases "x = y")
    case True
    then have "filter (\<lambda>v. f v \<noteq> f x) ys = ys" using Cons.prems by (auto simp: filter_id_conv image_iff)
    then show ?thesis using True by simp
  next
    case False
    then have "f y \<noteq> f x" using Cons.prems by force
    then show ?thesis using Cons False by simp
  qed
qed simp

lemma map_filter_key: "map f (filter (\<lambda>v. f v \<noteq> a) xs) = filter (\<lambda>y. y \<noteq> a) (map f xs)"
  by (induction xs) auto

lemma monitor_inv_add: "monitor_inv R m \<Longrightarrow> monitor_inv R (addWidget t c f m)"
  unfolding monitor_inv_def polling_def addWidget_fields
  by (auto simp: iv_ok_set)

lemma monitor_inv_remove:
  assumes inv: "monitor_inv R m"
  shows "monitor_inv R (removeWidget t c f m)"
proof (cases "getWidget c f m")
  case None
  then show ?thesis using inv by (simp add: removeWidget_def)
next
  case (Some w)
  then have w: "w \<in> set (mo_widgets m)" by (auto simp: getWidget_def find_Some_iff)
  let ?rest = "filter (\<lambda>v. mw_dom v \<noteq> mw_dom w) (mo_widgets m)"
  have "map mw_dom ?rest = filter (\<lambda>d. d \<noteq> mw_dom w) (mo_container m)"
    using inv by (simp add: map_filter_key monitor_inv_def)
  moreover have "mset (iv_live (clearInterval (mw_interval w) (mo_intervals m))) = mset (map mw_interval ?rest) + R"
  proof (rule clear_owned)
    have "distinct (map mw_dom (mo_widgets m))" using inv by (simp add: monitor_inv_def)
    then show "mset (iv_live (mo_intervals m)) = add_mset (mw_interval w) (mset (map mw_interval ?rest) + R)"
      using inv filter_one [OF _ w, of mw_dom mw_interval] unfolding monitor_inv_def polling_def by simp
    show "iv_ok (mo_intervals m)" using inv by (simp add: monitor_inv_def)
  qed
  ultimately show ?thesis using inv
    unfolding monitor_inv_def polling_def removeWidget_fields [OF Some] by (simp add: iv_ok_clear del: live_clear)
qed

lemma push_length: "length xs \<le> 300 \<Longrightarrow> length (push_sample dp xs) \<le> 300"
  by (simp add: push_sample_def Let_def)

lemma monitor_inv_sample: "monitor_inv R m \<Longrightarrow> monitor_inv R (updateChart elem dp m)"
proof -
  let ?g = "\<lambda>w. if mw_dom w = elem then w\<lparr>mw_data := push_sample dp (mw_data w)\<rparr> else w"
  have "map mw_dom (map ?g ws) = map mw_dom ws" "map mw_interval (map ?g ws) = map mw_interval ws"
    for ws :: "monitor_widget list"
    by (induction ws) auto
  then show "monitor_inv R m \<Longrightarrow> monitor_inv R (updateChart elem dp m)"
    by (auto simp: monitor_inv_def polling_def updateChart_def push_length simp del: map_map mset_map)
qed

abbreviation monitor_run :: "rat \<Rightarrow> monitor \<Rightarrow> monitor \<Rightarrow> bool" where
  "monitor_run title \<equiv> run (\<lambda>_ _. True) (monitor_step title)"

interpretation mo: kept_invariant "\<lambda>_ _. True" "monitor_step title" "monitor_inv R" for title R
proof unfold_locales
  show "monitor_inv R (monitor_step title e m)" if "monitor_inv R m" for e m
    using that by (cases e) (simp_all add: monitor_inv_add monitor_inv_remove monitor_inv_sample)
qed

subsection \<open>Properties\<close>

text \<open>
  Widgets, elements and timers correspond: after any sequence of additions, removals and
  samples the group container holds exactly the elements of the widgets, in their order, the live
  timers are exactly theirs, so no timer is left behind, and no widget keeps more than 300 samples.
\<close>

theorem monitor_no_leak:
  assumes "monitor_run title m0 m" "m0 = new_monitor u"
  shows "map mw_dom (mo_widgets m) = mo_container m \<and> distinct (mo_container m) \<and>
    mset (iv_live (mo_intervals m)) = mset (map mw_interval (mo_widgets m)) \<and> distinct (iv_live (mo_intervals m)) \<and>
    (\<forall>w \<in> set (mo_widgets m). length (mw_data w) \<le> 300)"
proof -
  have "monitor_inv {#} (new_monitor u)"
    by (simp add: monitor_inv_def polling_def new_monitor_def iv_ok_none, simp add: no_intervals_def)
  then show ?thesis using mo.run_keeps [OF assms(1)] assms(2) by (auto simp: monitor_inv_def polling_def iv_ok_def)
qed

theorem monitor_no_leak_witness:
  "mset (iv_live (mo_intervals (addWidget 20 ''A'' ''.x'' (new_monitor (new_ui sample_window))))) =
     mset (map mw_interval (mo_widgets (addWidget 20 ''A'' ''.x'' (new_monitor (new_ui sample_window)))))"
proof -
  have "monitor_run 20 (new_monitor (new_ui sample_window))
      (monitor_step 20 (Add ''A'' ''.x'') (new_monitor (new_ui sample_window)))"
    by (intro run.intros TrueI)
  then show ?thesis using monitor_no_leak [OF _ refl] by force
qed

lemma push_sample_window:
  "foldl (\<lambda>xs dp. push_sample dp xs) [] dps = drop (length dps - 300) dps"
proof (induction dps rule: rev_induct)
  case (snoc dp dps)
  show ?case
  proof (cases "length dps < 300")
    case True
    with snoc show ?thesis by (simp add: push_sample_def Let_def)
  next
    case False
    then have "Suc (length dps) - 300 = Suc (length dps - 300)" "length dps - 300 < length dps" by auto
    with snoc False show ?thesis by (simp add: push_sample_def Let_def tl_drop drop_Suc tl_append_if)
  qed
qed simp

text \<open>
  A widget plots the most recent samples: after the samples \<open>dps\<close> arrived for it, its data
  are the last 300 of them, in the order of arrival, and no other widget has changed.
\<close>

theorem widget_keeps_recent:
  assumes "w \<in> set (mo_widgets m)" "mw_data w = []" "m' = foldl (\<lambda>m dp. updateChart (mw_dom w) dp m) m dps"
  shows "w\<lparr>mw_data := drop (length dps - 300) dps\<rparr> \<in> set (mo_widgets m') \<and>
    (\<forall>v \<in> set (mo_widgets m). mw_dom v \<noteq> mw_dom w \<longrightarrow> v \<in> set (mo_widgets m'))"
proof -
  have "mo_widgets (foldl (\<lambda>m dp. updateChart i dp m) m dps) =
      map (\<lambda>v. if mw_dom v = i then v\<lparr>mw_data := foldl (\<lambda>xs dp. push_sample dp xs) (mw_data v) dps\<rparr> else v) (mo_widgets m)"
    for i
  proof (induction dps arbitrary: m)
    case Nil
    show ?case by (simp, rule map_idI [symmetric]) simp
  qed (auto simp: updateChart_def)
  then show ?thesis using assms by (auto simp: push_sample_window image_iff intro!: bexI [of _ w])
qed

theorem widget_keeps_recent_witness:
  "\<exists>w. w \<in> set (mo_widgets (updateChart 0 \<lparr>dp_time = 0, dp_value = 5\<rparr> (addWidget 20 ''A'' ''.x'' (new_monitor (new_ui sample_window))))) \<and>
     mw_data w = [\<lparr>dp_time = 0, dp_value = 5\<rparr>]"
proof -
  let ?m = "addWidget 20 ''A'' ''.x'' (new_monitor (new_ui sample_window))"
  let ?w = "\<lparr>mw_component = ''A'', mw_field = ''.x'', mw_dom = 0, mw_data = [], mw_interval = 1\<rparr> :: monitor_widget"
  let ?dp = "\<lparr>dp_time = 0, dp_value = 5\<rparr>"
  have "?w \<in> set (mo_widgets ?m)"
    by (simp add: addWidget_fields new_monitor_def no_intervals_def setInterval_def)
  from widget_keeps_recent [OF this _ refl, of "[?dp]"]
  show ?thesis by (intro exI [of _ "?w\<lparr>mw_data := [?dp]\<rparr>"]) simp
qed

subsection \<open>The bars of the chart\<close>

lemma fold_max: "fold (\<lambda>y m. if m < y then y else m) (map Num vs) (Num x) = Num (Max (insert x (set vs)))"
proof (induction vs arbitrary: x)
  case (Cons v vs)
  have "Max (insert x (insert v (set vs))) = Max (insert (max x v) (set vs))"
    by (cases "set vs = {}") (simp_all add: max.assoc)
  then show ?case using Cons [of "max x v"] by (cases "x < v") (simp_all add: max_def not_less)
qed simp

lemma fold_min: "fold (\<lambda>y m. if y < m then y else m) (map Num vs) (Num x) = Num (Min (insert x (set vs)))"
proof (induction vs arbitrary: x)
  case (Cons v vs)
  have "Min (insert x (insert v (set vs))) = Min (insert (min x v) (set vs))"
    by (cases "set vs = {}") (simp_all add: min.assoc)
  then show ?case using Cons [of "min x v"] by (cases "v < x") (simp_all add: min_def not_less)
qed simp

lemma d3_max: "vs \<noteq> [] \<Longrightarrow> d3_extreme (>) (map Num vs) = Num (Max (set vs))"
  by (cases vs) (simp_all add: fold_max)

lemma d3_min: "vs \<noteq> [] \<Longrightarrow> d3_extreme (<) (map Num vs) = Num (Min (set vs))"
  by (cases vs) (simp_all add: fold_min)

definition samples :: "(rat \<times> rat) list \<Rightarrow> data_point list" where
  "samples ps = map (\<lambda>(t, v). \<lparr>dp_time = Num t, dp_value = Num v\<rparr>) ps"

lemma samples_scales:
  assumes "ps \<noteq> []"
  shows "chart_scales cw ch (samples ps) =
    (\<lparr> domain_from = Num (Min (fst ` set ps)), domain_to = Num (Max (fst ` set ps)), range_from = 0, range_to = cw \<rparr>,
     \<lparr> domain_from = 0, domain_to = Num (Max (snd ` set ps)), range_from = ch, range_to = 0 \<rparr>)"
proof -
  have "map dp_time (samples ps) = map Num (map fst ps)" "map dp_value (samples ps) = map Num (map snd ps)"
    by (simp_all add: samples_def split_def)
  then show ?thesis using assms by (simp add: chart_scales_def d3_min d3_max del: map_map)
qed

lemma unit_range: "(a :: rat) \<le> t \<Longrightarrow> t \<le> b \<Longrightarrow> a < b \<Longrightarrow> 0 \<le> w \<Longrightarrow> 0 \<le> (t - a) / (b - a) * w \<and> (t - a) / (b - a) * w \<le> w"
proof
  assume a: "a \<le> t" "t \<le> b" "a < b" "0 \<le> w"
  then have q: "0 \<le> (t - a) / (b - a)" "(t - a) / (b - a) \<le> 1" by simp_all
  show "0 \<le> (t - a) / (b - a) * w" using q(1) a(4) by (rule mult_nonneg_nonneg)
  show "(t - a) / (b - a) * w \<le> w" using a(4) q by (rule mult_left_le_one_le)
qed

text \<open>
  The bars of the chart stand on its base line: for samples with different times and
  non-negative values, not all zero, every bar starts inside the frame, ends at the base line and
  is at most as high as the frame, with a height in proportion to its value.
\<close>

theorem monitor_bars_stand:
  assumes "linear_scale scale" "41 \<le> W" "30 \<le> H" "\<forall>(t, v) \<in> set ps. 0 \<le> v" "\<exists>(t, v) \<in> set ps. 0 < v"
    and "(s, a) \<in> set ps" "(r, b) \<in> set ps" "s < r" "i < length ps"
  shows "\<exists>x y h. chart_bars scale (Num W) (Num H) (samples ps) ! i =
      \<lparr>cb_x = Num x, cb_y = Num y, cb_width = Num ((W - 41) / of_nat (length ps)), cb_height = Num h\<rparr> \<and>
    33 \<le> x \<and> x \<le> W - 8 \<and> 8 \<le> y \<and> y + h = H - 22 \<and> h = snd (ps ! i) / Max (snd ` set ps) * (H - 30)"
proof -
  let ?lo = "Min (fst ` set ps)" and ?hi = "Max (fst ` set ps)" and ?top = "Max (snd ` set ps)"
  obtain t v where tv: "ps ! i = (t, v)" by fastforce
  have in_ps: "(t, v) \<in> set ps" using assms(9) tv by (metis nth_mem)
  have fin: "finite (fst ` set ps)" "finite (snd ` set ps)" by simp_all
  have t: "?lo \<le> t" "t \<le> ?hi" using in_ps fin by (force intro: Min_le Max_ge)+
  have lohi: "?lo < ?hi"
  proof -
    have "?lo \<le> s" "r \<le> ?hi" using assms(6,7) fin by (force intro: Min_le Max_ge)+
    then show ?thesis using assms(8) by linarith
  qed
  have v: "0 \<le> v" "v \<le> ?top" using in_ps fin assms(4) by (force intro: Max_ge)+
  have top: "0 < ?top"
  proof -
    obtain t' v' where "(t', v') \<in> set ps" "0 < v'" using assms(5) by auto
    moreover from this have "v' \<le> ?top" using fin by (force intro: Max_ge)
    ultimately show ?thesis by linarith
  qed
  let ?xs = "\<lparr> domain_from = Num ?lo, domain_to = Num ?hi, range_from = Num 0, range_to = Num (W - 41) \<rparr>"
  let ?ys = "\<lparr> domain_from = Num 0, domain_to = Num ?top, range_from = Num (H - 30), range_to = Num 0 \<rparr>"
  have sx: "scale ?xs (Num t) = Num ((t - ?lo) / (?hi - ?lo) * (W - 41))"
    using linear_scaleD [OF assms(1), of ?lo ?hi 0 "W - 41" t] lohi by simp
  have sy: "scale ?ys (Num v) = Num ((H - 30) - v / ?top * (H - 30))"
    using linear_scaleD [OF assms(1), of 0 ?top "H - 30" 0 v] top by (simp add: algebra_simps)
  have len: "length (samples ps) = length ps" by (simp add: samples_def)
  have scales: "chart_scales (Num W - 25 - 8 * 2) (Num H - 14 - 8 * 2) (samples ps) = (?xs, ?ys)"
    using assms(9) by (subst samples_scales) (auto simp: js_num_simps)
  have bar: "chart_bars scale (Num W) (Num H) (samples ps) ! i =
      \<lparr>cb_x = Num ((t - ?lo) / (?hi - ?lo) * (W - 41) + 33), cb_y = Num (8 + ((H - 30) - v / ?top * (H - 30))),
       cb_width = Num ((W - 41) / of_nat (length ps)), cb_height = Num (v / ?top * (H - 30))\<rparr>"
    using assms(9) unfolding chart_bars_def Let_def scales prod.case len
    by (simp add: samples_def tv) (auto simp: sx sy js_num_simps)
  have "0 \<le> v / ?top * (H - 30) \<and> v / ?top * (H - 30) \<le> H - 30"
    using unit_range [OF v top, of "H - 30"] assms(3) by simp
  moreover note unit_range [OF t lohi, of "W - 41"]
  ultimately show ?thesis using assms(2) unfolding bar by (simp add: tv)
qed

theorem monitor_bars_stand_witness:
  "\<exists>x y. chart_bars lerp (Num 141) (Num 130) (samples [(0, 1), (10, 2)]) ! 0 =
      \<lparr>cb_x = Num x, cb_y = Num y, cb_width = Num 50, cb_height = Num 50\<rparr> \<and> 33 \<le> x \<and> x \<le> 133 \<and> y = 58"
  using monitor_bars_stand [OF linear_lerp, of 141 130 "[(0, 1), (10, 2)]" 0 1 10 2 0] by auto

subsection \<open>The flag of a row\<close>

record flag_row =
  fr_component :: string
  fr_keyChain :: string
  fr_solid :: bool \<comment> \<open>the regular flag is hidden and the solid one is shown\<close>

definition toggleFlag :: "flag_row \<Rightarrow> flag_row \<times> bool" where
  "toggleFlag r = (if fr_solid r then (r\<lparr>fr_solid := False\<rparr>, False) else (r\<lparr>fr_solid := True\<rparr>, True))"

definition click_flag :: "rat \<Rightarrow> flag_row \<times> monitor \<Rightarrow> flag_row \<times> monitor" where
  "click_flag title rm =
     (let (r, m) = rm; (r', selected) = toggleFlag r
      in (r', if selected then addWidget title (fr_component r) (fr_keyChain r) m
              else removeWidget title (fr_component r) (fr_keyChain r) m))"

definition widgets_of :: "flag_row \<Rightarrow> monitor \<Rightarrow> monitor_widget list" where
  "widgets_of r m = filter (\<lambda>w. mw_component w = fr_component r \<and> mw_field w = fr_keyChain r) (mo_widgets m)"

lemma getWidget_iff: "getWidget (fr_component r) (fr_keyChain r) m = None \<longleftrightarrow> widgets_of r m = []"
  by (auto simp: getWidget_def widgets_of_def find_None_iff filter_empty_conv)

lemma widgets_of_add: "length (widgets_of r (addWidget t (fr_component r) (fr_keyChain r) m)) = Suc (length (widgets_of r m))"
  by (simp add: widgets_of_def addWidget_fields)

lemma filter_remove_first:
  assumes "distinct (map f xs)" "find P xs = Some w"
  shows "Suc (length (filter P (filter (\<lambda>v. f v \<noteq> f w) xs))) = length (filter P xs)"
  using assms
proof (induction xs)
  case (Cons x xs)
  show ?case
  proof (cases "P x")
    case True
    then have "filter (\<lambda>v. f v \<noteq> f w) xs = xs" using Cons.prems by (auto simp: filter_id_conv image_iff)
    then show ?thesis using Cons.prems True by simp
  next
    case False
    then have "w \<in> set xs" "f x \<noteq> f w" using Cons.prems by (auto simp: find_Some_iff image_iff)
    then show ?thesis using Cons False by simp
  qed
qed simp

lemma widgets_of_remove:
  assumes "monitor_inv R m" "widgets_of r m \<noteq> []"
  shows "Suc (length (widgets_of r (removeWidget t (fr_component r) (fr_keyChain r) m))) = length (widgets_of r m)"
proof -
  obtain w where w: "getWidget (fr_component r) (fr_keyChain r) m = Some w"
    using assms(2) getWidget_iff by fastforce
  have "distinct (map mw_dom (mo_widgets m))" using assms(1) by (simp add: monitor_inv_def)
  note first = filter_remove_first [OF this w [unfolded getWidget_def]]
  have "mo_widgets (removeWidget t (fr_component r) (fr_keyChain r) m) = filter (\<lambda>v. mw_dom v \<noteq> mw_dom w) (mo_widgets m)"
    using w by (simp add: removeWidget_def Let_def)
  then show ?thesis using first by (simp only: widgets_of_def)
qed

lemma remove_nothing: "widgets_of r m = [] \<Longrightarrow> removeWidget t (fr_component r) (fr_keyChain r) m = m"
  using getWidget_iff [of r m] by (simp add: removeWidget_def)

text \<open>
  (C34) The flag of a row and its widget: while the flag is used alone, there is one widget for the
  field when the flag is solid and none when it is not.  Closing the widget with its own button
  leaves the flag solid, and the next click on the flag then only resets the flag and changes no
  widget.
\<close>

theorem row_flag_tracks_widget:
  assumes "monitor_inv R m" "length (widgets_of r m) = (if fr_solid r then 1 else 0)"
  shows "(case click_flag title (r, m) of (r', m') \<Rightarrow>
      monitor_inv R m' \<and> fr_solid r' = (\<not> fr_solid r) \<and> length (widgets_of r' m') = (if fr_solid r' then 1 else 0)) \<and>
    (fr_solid r \<longrightarrow> (let m1 = removeWidget title (fr_component r) (fr_keyChain r) m in
       widgets_of r m1 = [] \<and> click_flag title (r, m1) = (r\<lparr>fr_solid := False\<rparr>, m1)))"
proof -
  have key: "widgets_of (r\<lparr>fr_solid := b\<rparr>) = widgets_of r" for b by (intro ext) (simp add: widgets_of_def)
  have gone: "widgets_of r (removeWidget title (fr_component r) (fr_keyChain r) m) = []" if "fr_solid r"
    using widgets_of_remove [OF assms(1), of r title] assms(2) that by (cases "widgets_of r m") auto
  then show ?thesis using assms widgets_of_add [of r title m]
    by (auto simp: click_flag_def toggleFlag_def key Let_def monitor_inv_add monitor_inv_remove remove_nothing)
qed

theorem row_flag_tracks_widget_witness:
  "let (r, m) = click_flag 20 (\<lparr>fr_component = ''A'', fr_keyChain = ''.x'', fr_solid = False\<rparr>, new_monitor (new_ui sample_window))
   in fr_solid r \<and> length (widgets_of r m) = 1"
proof -
  let ?r = "\<lparr>fr_component = ''A'', fr_keyChain = ''.x'', fr_solid = False\<rparr>" and ?m = "new_monitor (new_ui sample_window)"
  have "monitor_inv {#} ?m" by (simp add: monitor_inv_def polling_def new_monitor_def iv_ok_none) (simp add: no_intervals_def)
  moreover have "length (widgets_of ?r ?m) = (if fr_solid ?r then 1 else 0)" by (simp add: widgets_of_def new_monitor_def)
  ultimately show ?thesis using row_flag_tracks_widget [of "{#}" ?m ?r 20] by (auto simp: split_def)
qed

end
