(* ===== verification/Detail_Table.thy ===== *)
theory Detail_Table
  imports Monitor_Widgets
begin

text \<open>
  The central pane of the monitor (\<open>component.ts\<close>): the table of the fields of a component, whose
  rows a click expands and collapses.  An expanded row asks the server for its field and shows the
  response in a table of its own.  A click that the handler of a row does not stop goes on to the
  rows around it.

  A row on the page is addressed by its position in the table and in the tables around it.
  A response that arrives after its container was replaced changes nothing on the page and is not
  an event of the model.
\<close>

subsection \<open>State\<close>

datatype cell = Cell (cell_row: row) (cell_solid: bool) (cell_expanded: bool) (cell_sub: "cell list")

record detail_table =
  dt_name :: string \<comment> \<open>the component\<close>
  dt_cells :: "cell list"
  dt_pending :: "(nat list \<times> string) list" \<comment> \<open>the rows that wait for a response and the fields they asked for\<close>
  dt_errors :: nat \<comment> \<open>exceptions that nothing caught\<close>

definition new_cell :: "row \<Rightarrow> cell" where
  "new_cell r = Cell r False False []"

fun cell_at :: "nat list \<Rightarrow> cell list \<Rightarrow> cell option" where
  "cell_at [] cs = None"
| "cell_at [i] cs = (if i < length cs then Some (cs ! i) else None)"
| "cell_at (i # j # p) cs = (if i < length cs then cell_at (j # p) (cell_sub (cs ! i)) else None)"

fun update_at :: "nat list \<Rightarrow> (cell \<Rightarrow> cell) \<Rightarrow> cell list \<Rightarrow> cell list" where
  "update_at [] f cs = cs"
| "update_at [i] f cs = (if i < length cs then cs[i := f (cs ! i)] else cs)"
| "update_at (i # j # p) f cs =
     (if i < length cs
      then cs[i := (case cs ! i of Cell r s e sub \<Rightarrow> Cell r s e (update_at (j # p) f sub))] else cs)"

subsection \<open>Rows\<close>

type_synonym response = "string \<times> dict" \<comment> \<open>\<open>r\<close> and \<open>dict\<close>\<close>

fun ok_rows :: "dict \<Rightarrow> (string \<times> string) list \<Rightarrow> string \<Rightarrow> string \<Rightarrow> row list" where
  \<comment> \<open>the rows that are in the table when a row raises or the loop ends\<close>
  "ok_rows dict [] keyChain fieldPrefix = []"
| "ok_rows dict (e # es) keyChain fieldPrefix =
     (case showValue dict e keyChain fieldPrefix of Inl _ \<Rightarrow> [] | Inr r \<Rightarrow> r # ok_rows dict es keyChain fieldPrefix)"

definition rows_shown :: "go_value \<Rightarrow> dict \<Rightarrow> string \<Rightarrow> string \<Rightarrow> row list" where
  \<comment> \<open>the rows that \<open>showContent\<close> leaves in its container\<close>
  "rows_shown s dict keyChain fieldPrefix =
     (if direct_case (gv_kind s) then []
      else if gv_kind s \<in> {kind_number KMap, kind_number KSlice, kind_number KStruct} then
        (case value_entries (gv_content s) of
           Inl _ \<Rightarrow> []
         | Inr es \<Rightarrow> ok_rows dict (if gv_kind s = kind_number KMap then es else sort_key fst es) keyChain fieldPrefix)
      else [])"

definition fill :: "response \<Rightarrow> string \<Rightarrow> string \<Rightarrow> cell list \<times> bool" where
  \<comment> \<open>\<open>showContent(res["dict"][res["r"]], res["dict"], ..)\<close>: the rows and whether it raised\<close>
  "fill res keyChain fieldPrefix =
     (case map_get (snd res) (fst res) of
        None \<Rightarrow> ([], True)
      | Some s \<Rightarrow> (map new_cell (rows_shown s (snd res) keyChain fieldPrefix),
          isl (showContent s (snd res) keyChain fieldPrefix)))"

subsection \<open>Events\<close>

definition show_table :: "string \<Rightarrow> response \<Rightarrow> detail_table" where
  \<comment> \<open>\<open>populate\<close> and \<open>showComponent\<close>: the table of a new view\<close>
  "show_table name res =
     (let (cs, raised) = fill res [] []
      in \<lparr> dt_name = name, dt_cells = cs, dt_pending = [], dt_errors = (if raised then 1 else 0) \<rparr>)"

fun handler_at :: "nat list \<Rightarrow> cell list \<Rightarrow> nat list option" where
  \<comment> \<open>the row whose handler acts on a click: the innermost one that can be expanded\<close>
  "handler_at [] cs = None"
| "handler_at (i # p) cs =
     (if i < length cs then
        (case handler_at p (cell_sub (cs ! i)) of
           Some q \<Rightarrow> Some (i # q)
         | None \<Rightarrow> if row_expandable (cell_row (cs ! i)) then Some [i] else None)
      else None)"

definition click_row :: "nat list \<Rightarrow> detail_table \<Rightarrow> detail_table" where
  "click_row p t =
     (case handler_at p (dt_cells t) of
        None \<Rightarrow> t
      | Some q \<Rightarrow>
          (case cell_at q (dt_cells t) of
             None \<Rightarrow> t
           | Some (Cell r s e sub) \<Rightarrow>
               if \<not> e
               then t\<lparr>dt_pending := dt_pending t @ [(q, row_field r)], dt_cells := update_at q (\<lambda>_. Cell r s True sub) (dt_cells t)\<rparr>
               else t\<lparr>dt_cells := update_at q (\<lambda>_. Cell r s False sub) (dt_cells t)\<rparr>))"

definition nested_in :: "nat list \<Rightarrow> nat list \<Rightarrow> bool" where
  "nested_in q p \<longleftrightarrow> take (length q) p = q \<and> length q < length p"

definition field_response :: "nat list \<Rightarrow> string \<Rightarrow> response \<Rightarrow> detail_table \<Rightarrow> detail_table" where
  \<comment> \<open>the response to the request of the row at \<open>q\<close>\<close>
  "field_response q field res t =
     (case cell_at q (dt_cells t) of
        None \<Rightarrow> t
      | Some (Cell r s e sub) \<Rightarrow>
          let (cs, raised) = fill res (row_keyChain r) (field @ ''.'')
          in t\<lparr>dt_cells := update_at q (\<lambda>_. Cell r s e cs) (dt_cells t),
               dt_pending := filter (\<lambda>(p, _). \<not> nested_in q p) (remove1 (q, field) (dt_pending t)),
               dt_errors := dt_errors t + (if raised then 1 else 0)\<rparr>)"

definition flag_of :: "detail_table \<Rightarrow> cell \<Rightarrow> flag_row" where
  "flag_of t c = \<lparr> fr_component = dt_name t, fr_keyChain = row_keyChain (cell_row c), fr_solid = cell_solid c \<rparr>"

definition click_flag_at :: "rat \<Rightarrow> nat list \<Rightarrow> detail_table \<times> monitor \<Rightarrow> detail_table \<times> monitor" where
  \<comment> \<open>the flag stops the event, so no row is expanded or collapsed\<close>
  "click_flag_at title p tm =
     (let (t, m) = tm
      in case cell_at p (dt_cells t) of
           None \<Rightarrow> (t, m)
         | Some c \<Rightarrow>
             let (r', m') = click_flag title (flag_of t c, m)
             in (t\<lparr>dt_cells := update_at p (\<lambda>c. Cell (cell_row c) (fr_solid r') (cell_expanded c) (cell_sub c)) (dt_cells t)\<rparr>, m'))"

datatype table_event =
    ShowComponent string response
  | ClickRow "nat list"
  | FieldResponse "nat list" string response
  | ToggleFlag "nat list"

fun table_step :: "table_event \<Rightarrow> detail_table \<Rightarrow> detail_table" where
  \<comment> \<open>the table of a flag click is that of \<open>click_flag_at\<close>\<close>
  "table_step (ShowComponent name res) t = (show_table name res)\<lparr>dt_errors := dt_errors t + dt_errors (show_table name res)\<rparr>"
| "table_step (ClickRow p) t = click_row p t"
| "table_step (FieldResponse q f res) t = field_response q f res t"
| "table_step (ToggleFlag p) t =
     t\<lparr>dt_cells := update_at p (\<lambda>c. Cell (cell_row c) (\<not> cell_solid c) (cell_expanded c) (cell_sub c)) (dt_cells t)\<rparr>"

fun table_allowed :: "table_event \<Rightarrow> detail_table \<Rightarrow> bool" where
  "table_allowed (FieldResponse q f res) t = ((q, f) \<in> set (dt_pending t))"
| "table_allowed _ t = True"

definition empty_table :: detail_table where
  "empty_table = \<lparr> dt_name = [], dt_cells = [], dt_pending = [], dt_errors = 0 \<rparr>"

abbreviation table_run :: "detail_table \<Rightarrow> bool" where
  "table_run \<equiv> run table_allowed table_step empty_table"

subsection \<open>Addresses\<close>

fun keys_at :: "nat list \<Rightarrow> cell list \<Rightarrow> string list" where
  \<comment> \<open>the keys that lead to a row\<close>
  "keys_at [] cs = []"
| "keys_at (i # p) cs = (if i < length cs then row_key (cell_row (cs ! i)) # keys_at p (cell_sub (cs ! i)) else [])"

definition row_at :: "nat list \<Rightarrow> cell list \<Rightarrow> row option" where
  "row_at p cs = map_option cell_row (cell_at p cs)"

lemma nested_in_Cons: "nested_in (i # q) (j # p) \<longleftrightarrow> i = j \<and> nested_in q p"
  by (auto simp: nested_in_def)

lemma nested_in_Nil: "\<not> nested_in q []"
  by (simp add: nested_in_def)

lemma cell_at_Cons:
  "cell_at (i # p) cs = (if i < length cs then if p = [] then Some (cs ! i) else cell_at p (cell_sub (cs ! i)) else None)"
  by (cases p) simp_all

lemma update_at_Cons:
  "update_at (i # p) f cs =
     (if i < length cs
      then cs[i := (if p = [] then f (cs ! i) else case cs ! i of Cell r s e sub \<Rightarrow> Cell r s e (update_at p f sub))] else cs)"
  by (cases p) (auto split: cell.split)

lemma length_update_at [simp]: "length (update_at p f cs) = length cs"
  by (cases p) (simp_all add: update_at_Cons)

lemma row_at_Cons:
  "row_at (i # p) cs =
     (if i < length cs then if p = [] then Some (cell_row (cs ! i)) else row_at p (cell_sub (cs ! i)) else None)"
  by (simp add: row_at_def cell_at_Cons)

lemma row_at_update:
  assumes "\<And>c. cell_at p cs = Some c \<Longrightarrow> cell_row (f c) = cell_row c"
    and "\<not> nested_in p q \<or> (\<forall>c. cell_at p cs = Some c \<longrightarrow> cell_sub (f c) = cell_sub c)"
  shows "row_at q (update_at p f cs) = row_at q cs"
  using assms
proof (induction p arbitrary: q cs)
  case (Cons i p)
  show ?case
  proof (cases q)
    case (Cons j q')
    show ?thesis
    proof (cases "i = j \<and> i < length cs")
      case True
      obtain r s e sub where c: "cs ! i = Cell r s e sub" by (cases "cs ! i")
      show ?thesis
      proof (cases "p = []")
        case True
        then show ?thesis using Cons.prems Cons \<open>i = j \<and> i < length cs\<close>
          by (cases q') (auto simp: row_at_Cons update_at_Cons nested_in_def cell_at_Cons)
      next
        case False
        then have "row_at q' (update_at p f sub) = row_at q' sub"
          using Cons.prems Cons True c by (intro Cons.IH) (auto simp: cell_at_Cons nested_in_Cons)
        then show ?thesis using False True Cons c by (simp add: row_at_Cons update_at_Cons)
      qed
    qed (auto simp: Cons row_at_Cons update_at_Cons)
  qed (simp add: row_at_def)
qed simp

subsection \<open>Invariant\<close>

fun named :: "string list \<Rightarrow> cell \<Rightarrow> bool" where
  \<comment> \<open>the field and the key chain of a row are those of its place\<close>
  "named ks (Cell r s e sub) \<longleftrightarrow> row_field r = join_with ''.'' (ks @ [row_key r]) \<and> row_keyChain r = ''.'' @ row_field r \<and>
     (\<forall>c \<in> set sub. named (ks @ [row_key r]) c)"

lemma named_update:
  assumes "\<forall>c \<in> set cs. named ks c" "\<And>c ks'. cell_at p cs = Some c \<Longrightarrow> named ks' c \<Longrightarrow> named ks' (f c)"
  shows "\<forall>c \<in> set (update_at p f cs). named ks c"
  using assms
proof (induction p arbitrary: ks cs)
  case (Cons i p)
  show ?case
  proof (cases "i < length cs")
    case True
    obtain r s e sub where c: "cs ! i = Cell r s e sub" by (cases "cs ! i")
    have i: "named ks (cs ! i)" using Cons.prems(1) True by simp
    have "named ks (if p = [] then f (cs ! i) else Cell r s e (update_at p f sub))"
      using i Cons.prems(2) True Cons.IH [of sub "ks @ [row_key r]"] c by (auto simp: cell_at_Cons)
    then show ?thesis using True c Cons.prems(1)
      by (auto simp: update_at_Cons set_conv_nth nth_list_update)
  qed (use Cons in \<open>simp add: update_at_Cons\<close>)
qed simp

lemma named_at:
  assumes "\<forall>c \<in> set cs. named ks c" "cell_at p cs = Some c"
  shows "\<exists>ks'. named ks' c \<and> ks @ keys_at p cs = ks' @ [row_key (cell_row c)]"
  using assms
proof (induction p arbitrary: ks cs)
  case (Cons i p)
  obtain r s e sub where d: "cs ! i = Cell r s e sub" by (cases "cs ! i")
  have i: "i < length cs" "named ks (cs ! i)" using Cons.prems by (auto simp: cell_at_Cons split: if_splits)
  show ?case
  proof (cases "p = []")
    case False
    then show ?thesis using i d Cons.prems Cons.IH [of sub "ks @ [row_key r]"] by (simp add: cell_at_Cons)
  qed (use i Cons.prems in \<open>auto simp: cell_at_Cons\<close>)
qed simp

definition table_inv :: "detail_table \<Rightarrow> bool" where
  "table_inv t \<longleftrightarrow> (\<forall>c \<in> set (dt_cells t). named [] c) \<and>
     (\<forall>(q, f) \<in> set (dt_pending t). \<exists>r. row_at q (dt_cells t) = Some r \<and> row_field r = f)"

lemma ok_rows_in: "r \<in> set (ok_rows dict es kc pre) \<Longrightarrow> \<exists>e. showValue dict e kc pre = Inr r"
proof (induction es)
  case (Cons e es)
  then show ?case by (cases "showValue dict e kc pre"; cases e) auto
qed simp

lemma rows_shown_in:
  assumes "r \<in> set (rows_shown s dict kc pre)"
  obtains es where "r \<in> set (ok_rows dict es kc pre)"
proof (cases "value_entries (gv_content s)")
  case (Inr es)
  then show ?thesis
    using assms that unfolding rows_shown_def Inr sum.case
    by (cases "direct_case (gv_kind s)") (simp, simp only: if_False split: if_split_asm, simp_all)
next
  case (Inl e)
  then have "rows_shown s dict kc pre = []" unfolding rows_shown_def Inl sum.case by simp
  then show ?thesis using assms by simp
qed

lemma fill_in:
  assumes "c \<in> set (fst (fill res kc pre))"
  shows "\<exists>r. c = new_cell r \<and> row_keyChain r = kc @ ''.'' @ row_key r \<and> row_field r = pre @ row_key r"
proof -
  obtain r s where "c = new_cell r" "r \<in> set (rows_shown s (snd res) kc pre)"
    using assms by (auto simp: fill_def split: option.splits)
  moreover from this(2) obtain es where "r \<in> set (ok_rows (snd res) es kc pre)"
    by (rule rows_shown_in)
  then obtain e where "showValue (snd res) e kc pre = Inr r" using ok_rows_in by blast
  ultimately show ?thesis by (auto simp: showValue_def split: option.splits)
qed

lemma fill_named:
  assumes "ks = [] \<and> kc = [] \<and> pre = [] \<or> ks \<noteq> [] \<and> kc = ''.'' @ join_with ''.'' ks \<and> pre = join_with ''.'' ks @ ''.''"
    and "c \<in> set (fst (fill res kc pre))"
  shows "named ks c"
  using fill_in [OF assms(2)] assms(1) by (auto simp: new_cell_def join_with_snoc)

lemma handler_cell: "handler_at p cs = Some q \<Longrightarrow> \<exists>c. cell_at q cs = Some c \<and> row_expandable (cell_row c)"
proof (induction p arbitrary: q cs)
  case (Cons i p)
  show ?case
  proof (cases "handler_at p (cell_sub (cs ! i))")
    case (Some q')
    then have q: "q = i # q'" "i < length cs" using Cons.prems by (auto split: if_splits)
    obtain c where "cell_at q' (cell_sub (cs ! i)) = Some c" "row_expandable (cell_row c)" using Cons.IH [OF Some] by auto
    then show ?thesis using q by (cases q') (auto simp: cell_at_Cons)
  qed (use Cons.prems in \<open>auto split: if_splits\<close>)
qed simp

lemma table_inv_update:
  assumes "table_inv t" "\<And>c. cell_at p (dt_cells t) = Some c \<Longrightarrow> cell_row (f c) = cell_row c \<and> cell_sub (f c) = cell_sub c"
  shows "table_inv (t\<lparr>dt_cells := update_at p f (dt_cells t)\<rparr>)"
proof -
  have "named ks (f c)" if "cell_at p (dt_cells t) = Some c" "named ks c" for ks c
    using assms(2) [OF that(1)] that(2) by (cases c; cases "f c") auto
  then have "\<forall>c \<in> set (update_at p f (dt_cells t)). named [] c"
    using assms(1) by (intro named_update) (auto simp: table_inv_def)
  then show ?thesis using assms by (auto simp: table_inv_def row_at_update)
qed

lemma table_inv_click: "table_inv t \<Longrightarrow> table_inv (click_row p t)"
proof (cases "handler_at p (dt_cells t)")
  case (Some q)
  assume inv: "table_inv t"
  obtain r s e sub where c: "cell_at q (dt_cells t) = Some (Cell r s e sub)"
    using handler_cell [OF Some] by (metis cell.exhaust)
  have row: "row_at q (update_at q (\<lambda>_. Cell r s b sub) (dt_cells t)) = Some r" for b
    using c by (subst row_at_update) (auto simp: row_at_def)
  have "table_inv (t\<lparr>dt_cells := update_at q (\<lambda>_. Cell r s b sub) (dt_cells t)\<rparr>)" for b
    using inv c by (intro table_inv_update) auto
  then show ?thesis using Some c row by (auto simp: click_row_def table_inv_def)
qed (simp add: click_row_def)

lemma table_inv_response:
  assumes inv: "table_inv t" and pending: "(q, f) \<in> set (dt_pending t)"
  shows "table_inv (field_response q f res t)"
proof -
  obtain r where "row_at q (dt_cells t) = Some r" "row_field r = f" using inv pending by (auto simp: table_inv_def)
  then obtain s e sub where c: "cell_at q (dt_cells t) = Some (Cell r s e sub)"
    by (auto simp: row_at_def) (metis cell.exhaust_sel)
  let ?cs = "fst (fill res (row_keyChain r) (f @ ''.''))"
  have "named ks (Cell r s e ?cs)" if n: "named ks (Cell r s e sub)" for ks
  proof -
    have "named (ks @ [row_key r]) d" if "d \<in> set ?cs" for d
      using n \<open>row_field r = f\<close> by (intro fill_named [OF _ that]) auto
    then show ?thesis using n by simp
  qed
  then have "\<forall>d \<in> set (update_at q (\<lambda>_. Cell r s e ?cs) (dt_cells t)). named [] d"
    using inv c by (intro named_update) (auto simp: table_inv_def)
  moreover have "row_at p (update_at q (\<lambda>_. Cell r s e ?cs) (dt_cells t)) = row_at p (dt_cells t)" if "\<not> nested_in q p" for p
    using that c by (intro row_at_update) auto
  moreover have "\<exists>r. row_at p (dt_cells t) = Some r \<and> row_field r = g" if "(p, g) \<in> set (remove1 (q, f) (dt_pending t))" for p g
  proof -
    have "(p, g) \<in> set (dt_pending t)" using that notin_set_remove1 by fast
    then show ?thesis using inv by (auto simp: table_inv_def)
  qed
  ultimately show ?thesis using c
    by (auto simp: field_response_def split_def Let_def table_inv_def)
qed

lemma table_inv_show: "table_inv (show_table name res)"
  using fill_named [of "[]" "[]" "[]" _ res] by (auto simp: table_inv_def show_table_def split_def Let_def)

interpretation dt: kept_invariant table_allowed table_step table_inv
proof unfold_locales
  fix t e
  assume inv: "table_inv t" and allowed: "table_allowed e t"
  show "table_inv (table_step e t)"
  proof (cases e)
    case (ShowComponent name res)
    then show ?thesis using table_inv_show [of name res] by (simp add: table_inv_def)
  qed (use inv allowed in \<open>simp_all add: table_inv_click table_inv_response table_inv_update\<close>)
qed

lemma table_inv_field:
  assumes "table_inv t" "cell_at q (dt_cells t) = Some d"
  shows "row_field (cell_row d) = join_with ''.'' (keys_at q (dt_cells t)) \<and>
    row_keyChain (cell_row d) = ''.'' @ row_field (cell_row d)"
proof -
  obtain ks where ks: "named ks d" "keys_at q (dt_cells t) = ks @ [row_key (cell_row d)]"
    using named_at [of "dt_cells t" "[]", OF _ assms(2)] assms(1) by (auto simp: table_inv_def)
  then show ?thesis by (cases d) (metis cell.sel(1) named.simps)
qed

lemma cell_at_update: "cell_at p cs = Some c \<Longrightarrow> cell_at p (update_at p f cs) = Some (f c)"
proof (induction p arbitrary: cs)
  case (Cons i p)
  then show ?case by (cases "cs ! i") (auto simp: cell_at_Cons update_at_Cons split: if_splits)
qed simp

lemma table_run_inv: "table_run t \<Longrightarrow> table_inv t"
  by (erule dt.run_keeps) (simp add: table_inv_def empty_table_def)

lemma flag_click_table: "fst (click_flag_at title p (t, m)) = table_step (ToggleFlag p) t"
proof (cases "cell_at p (dt_cells t)")
  case None
  have "cell_at p cs = None \<Longrightarrow> update_at p f cs = cs" for f cs
    by (induction p cs rule: cell_at.induct) (auto split: cell.splits if_splits intro: list_update_same_conv [THEN iffD2])
  with None show ?thesis by (simp add: click_flag_at_def)
next
  case (Some c)
  have same: "update_at p f cs = update_at p g cs" if "\<And>c. cell_at p cs = Some c \<Longrightarrow> f c = g c" for f g cs
    using that by (induction p arbitrary: cs) (auto simp: update_at_Cons cell_at_Cons split: cell.split)
  show ?thesis using Some by (auto simp: click_flag_at_def click_flag_def toggleFlag_def flag_of_def Let_def
        intro!: arg_cong [of _ _ "\<lambda>x. t\<lparr>dt_cells := x\<rparr>"] same)
qed

subsection \<open>Well-typed responses\<close>

definition typed_value :: "dict \<Rightarrow> go_value \<Rightarrow> bool" where
  \<comment> \<open>a value that is shown as a table has entries, and each of them is in the dictionary\<close>
  "typed_value dict v \<longleftrightarrow>
     gv_kind v \<in> {kind_number KMap, kind_number KSlice, kind_number KStruct} \<longrightarrow>
     (case gv_content v of Missing \<Rightarrow> False | Scalar t \<Rightarrow> \<forall>c \<in> set t. map_get dict [c] \<noteq> None | Fields es \<Rightarrow> \<forall>(k, x) \<in> set es. map_get dict x \<noteq> None)"

definition typed_response :: "response \<Rightarrow> bool" where
  "typed_response res \<longleftrightarrow> (case map_get (snd res) (fst res) of None \<Rightarrow> False | Some v \<Rightarrow> typed_value (snd res) v)"

fun typed_event :: "table_event \<Rightarrow> bool" where
  "typed_event (ShowComponent name res) = typed_response res"
| "typed_event (FieldResponse q f res) = typed_response res"
| "typed_event _ = True"

lemma show_rows_raises: "isl (show_rows dict es kc pre) \<longleftrightarrow> (\<exists>e \<in> set es. map_get dict (snd e) = None)"
proof (induction es)
  case (Cons e es)
  obtain k x where e: "e = (k, x)" by fastforce
  show ?case
  proof (cases "map_get dict x")
    case None
    then show ?thesis by (simp add: e showValue_def bind_result_def)
  next
    case (Some v)
    then show ?thesis using Cons
      by (cases "show_rows dict es kc pre") (auto simp: e showValue_def bind_result_def)
  qed
qed simp

lemma text_entries: "(\<exists>e \<in> set (map (\<lambda>(i, c). (digits i, [c])) (enumerate n t)). P (snd e)) \<longleftrightarrow> (\<exists>c \<in> set t. P [c])"
  by (induction t arbitrary: n) auto

lemma isl_bind: "isl (bind_result x f) \<longleftrightarrow> isl x \<or> isl (f (projr x))"
  by (cases x) (auto simp: bind_result_def)

lemma showContent_raises: "isl (showContent s dict kc pre) \<longleftrightarrow> \<not> typed_value dict s"
proof -
  have kinds: "\<not> direct_case 21" "\<not> direct_case 23" "\<not> direct_case 25" by (simp_all add: direct_case_def)
  have tables: "isl (showContent s dict kc pre) \<longleftrightarrow> gv_kind s \<in> {21, 23, 25} \<and>
      (isl (value_entries (gv_content s)) \<or> (\<exists>e \<in> set (projr (value_entries (gv_content s))). map_get dict (snd e) = None))"
    by (auto simp: showContent_def isl_bind show_rows_raises kinds)
  show ?thesis unfolding tables
  proof (cases "gv_content s")
    case (Scalar t)
    then show "(gv_kind s \<in> {21, 23, 25} \<and>
        (isl (value_entries (gv_content s)) \<or> (\<exists>e \<in> set (projr (value_entries (gv_content s))). map_get dict (snd e) = None))) =
      (\<not> typed_value dict s)"
      using text_entries [of 0 t "\<lambda>x. map_get dict x = None"] by (simp add: typed_value_def) blast
  qed (auto simp: typed_value_def split_def)
qed

lemma fill_raises: "snd (fill res kc pre) \<longleftrightarrow> \<not> typed_response res"
  by (auto simp: fill_def typed_response_def showContent_raises split: option.splits)

lemma step_errors:
  assumes "table_inv t" "table_allowed e t"
  shows "dt_errors (table_step e t) = dt_errors t + (if typed_event e then 0 else 1)"
proof (cases e)
  case (FieldResponse q f res)
  then obtain c where "cell_at q (dt_cells t) = Some c"
    using assms by (auto simp: table_inv_def row_at_def)
  then show ?thesis using FieldResponse by (cases c) (simp add: field_response_def split_def Let_def fill_raises)
qed (simp_all add: show_table_def click_row_def split_def Let_def fill_raises split: option.split cell.split)

interpretation te: kept_invariant "\<lambda>e t. table_allowed e t \<and> typed_event e" table_step "\<lambda>t. table_inv t \<and> dt_errors t = 0"
  by unfold_locales (auto simp: step_errors dt.step_keeps)

subsection \<open>Properties\<close>

text \<open>
  (C20) Well-typed responses never fail: call a response well-typed when its root is in the
  dictionary and, if the root is a map, a slice or a struct, it has a value whose entries are all in
  the dictionary, where the entries of a text are its characters.  As long as the server sends such responses, no sequence of clicks and responses makes
  the table raise, and the first response of another form does.
\<close>

theorem typed_responses_never_fail:
  assumes "run (\<lambda>e t. table_allowed e t \<and> typed_event e) table_step empty_table t"
  shows "dt_errors t = 0 \<and>
    (\<forall>e. table_allowed e t \<longrightarrow> dt_errors (table_step e t) = (if typed_event e then 0 else 1))"
proof -
  have "table_inv t \<and> dt_errors t = 0"
    by (rule te.run_keeps [OF assms]) (simp add: table_inv_def empty_table_def)
  then show ?thesis by (simp add: step_errors)
qed

theorem typed_responses_never_fail_witness:
  "dt_errors (table_step (ShowComponent ''A'' (''1'', sample_dict)) empty_table) = 0 \<and>
   dt_errors (table_step (ShowComponent ''A'' (''9'', sample_dict)) empty_table) = 1"
proof -
  have "run (\<lambda>e t. table_allowed e t \<and> typed_event e) table_step empty_table empty_table" by (rule run_none)
  from typed_responses_never_fail [OF this]
  have "dt_errors (table_step e empty_table) = (if typed_event e then 0 else 1)" if "table_allowed e empty_table" for e
    using that by blast
  from this [of "ShowComponent ''A'' (_, _)"]
  have "dt_errors (table_step (ShowComponent ''A'' (r, d)) empty_table) = (if typed_response (r, d) then 0 else 1)" for r d
    by (simp del: table_step.simps)
  moreover have "typed_response (''1'', sample_dict)" "\<not> typed_response (''9'', sample_dict)" by code_simp+
  ultimately show ?thesis by (simp del: table_step.simps)
qed

text \<open>
  (C21) A row asks for the field it shows: whatever rows were expanded and collapsed, the field that
  the expansion of a row fetches and the field that its monitor widget polls are both the dotted
  chain of the keys that lead to it, and so is the field of every request that is not yet answered.
\<close>

theorem table_fields_agree:
  assumes "table_run t" "cell_at p (dt_cells t) = Some c"
  shows "row_field (cell_row c) = join_with ''.'' (keys_at p (dt_cells t)) \<and>
    monitored_field (cell_row c) = join_with ''.'' (keys_at p (dt_cells t)) \<and>
    (\<forall>(q, f) \<in> set (dt_pending t). f = join_with ''.'' (keys_at q (dt_cells t)))"
proof -
  have inv: "table_inv t" by (rule table_run_inv [OF assms(1)])
  then show ?thesis using inv assms(2) table_inv_field [OF inv] by (fastforce simp: table_inv_def row_at_def monitored_field_def)
qed

theorem table_fields_agree_witness:
  "\<exists>c. cell_at [0, 0] (dt_cells (foldl (\<lambda>t e. table_step e t) empty_table
      [ShowComponent ''A'' (''1'', sample_dict), ClickRow [0], FieldResponse [0] ''queue'' (''2'', sample_dict)])) = Some c \<and>
    monitored_field (cell_row c) = ''queue.size''"
proof -
  let ?t1 = "table_step (ShowComponent ''A'' (''1'', sample_dict)) empty_table"
  let ?t2 = "table_step (ClickRow [0]) ?t1"
  let ?t3 = "table_step (FieldResponse [0] ''queue'' (''2'', sample_dict)) ?t2"
  have "([0], ''queue'') \<in> set (dt_pending ?t2)" by code_simp
  then have "table_allowed (FieldResponse [0] ''queue'' (''2'', sample_dict)) ?t2" by simp
  then have run: "table_run ?t3" by (intro run.intros) simp_all
  have "map_option (\<lambda>_. ()) (cell_at [0, 0] (dt_cells ?t3)) = Some ()" by code_simp
  then obtain c where c: "cell_at [0, 0] (dt_cells ?t3) = Some c" by auto
  have "join_with ''.'' (keys_at [0, 0] (dt_cells ?t3)) = ''queue.size''" by code_simp
  then show ?thesis using table_fields_agree [OF run c] c by simp
qed

lemma handler_leaf:
  assumes "cell_at (p @ [i]) cs = Some c" "\<not> row_expandable (cell_row c)"
  shows "handler_at (p @ [i]) cs = handler_at p cs"
  using assms
proof (induction p arbitrary: cs)
  case (Cons j p)
  then show ?case by (simp add: cell_at_Cons split: if_splits)
qed (simp add: cell_at_Cons split: if_splits)

lemma handler_self:
  assumes "cell_at p cs = Some c" "row_expandable (cell_row c)"
  shows "handler_at p cs = Some p"
  using assms
proof (induction p arbitrary: cs)
  case (Cons i p)
  then show ?case by (cases "p = []") (simp_all add: cell_at_Cons split: if_splits)
qed simp

text \<open>
  A click on a row without content closes the row around it: the handler of such a row does
  not stop the event, so it has the effect of a click on the expanded row.
\<close>

theorem leaf_click_collapses:
  assumes "cell_at p (dt_cells t) = Some (Cell r s True sub)" "row_expandable r"
    and "cell_at (p @ [i]) (dt_cells t) = Some c" "\<not> row_expandable (cell_row c)"
  shows "click_row (p @ [i]) t = click_row p t \<and>
    click_row p t = t\<lparr>dt_cells := update_at p (\<lambda>_. Cell r s False sub) (dt_cells t)\<rparr>"
  using assms handler_self [OF assms(1)] handler_leaf [OF assms(3,4)] by (simp add: click_row_def)

end
