(* ===== verification/Sankey.thy ===== *)
theory Sankey
  imports Js_Collections Smart_Value "HOL-Library.Sublist"
begin

text \<open>
  The traffic diagram of \<open>monitoring/web/src/component.ts\<close>: \<open>groupByLinks\<close> adds up
  the traffic of a response by link, \<open>drawSankey\<close> keeps running totals over the responses,
  chooses the links and the ports to show and moves the boxes that the layout of d3-sankey gives
  them.  That layout is an argument: the boxes come in as a list of nodes.

  The server sends values as decimal texts of whole numbers; a value is the number that
  \<open>parseInt\<close> reads.
\<close>

subsection \<open>Links\<close>

record traffic =
  tf_start :: string
  tf_localPort :: string
  tf_remotePort :: string
  tf_value :: int
  tf_unit :: string

definition link_key :: "traffic \<Rightarrow> string" where
  "link_key e = tf_localPort e @ ''|'' @ tf_remotePort e @ ''|'' @ tf_unit e"

definition add_value :: "string \<Rightarrow> int \<Rightarrow> (string, int) js_map \<Rightarrow> (string, int) js_map" where
  "add_value k v m = (case map_get m k of None \<Rightarrow> map_set k v m | Some w \<Rightarrow> map_set k (w + v) m)"

definition groupByLinks :: "traffic list \<Rightarrow> (string, int) js_map" where
  "groupByLinks array = foldl (\<lambda>m e. add_value (link_key e) (tf_value e) m) [] array"

record link =
  lk_source :: string
  lk_target :: string
  lk_value :: int
  lk_type :: string
  lk_fullName :: string

definition parse_link :: "string \<Rightarrow> int \<Rightarrow> link" where
  \<comment> \<open>a key has at least three parts\<close>
  "parse_link key v =
     (let parsed = split_on (CHR ''|'') key
      in \<lparr> lk_source = parsed ! 0, lk_target = parsed ! 1, lk_value = v, lk_type = parsed ! 2, lk_fullName = key \<rparr>)"

subsection \<open>Accumulation\<close>

record sankey =
  sk_name :: string
  sk_measurementMode :: string
  sk_accumulationMode :: string
  sk_epochs :: "string list" \<comment> \<open>a set in insertion order\<close>
  sk_linkValues :: "(string, int) js_map"

definition new_sankey :: "string \<Rightarrow> sankey" where
  "new_sankey name = \<lparr> sk_name = name, sk_measurementMode = ''Byte'', sk_accumulationMode = ''Last'',
     sk_epochs = [], sk_linkValues = [] \<rparr>"

fun accumulate_links :: "sankey \<Rightarrow> (string \<times> int) list \<Rightarrow> sankey \<times> link list" where
  \<comment> \<open>the loop over the entries of \<open>linksMap\<close>\<close>
  "accumulate_links s [] = (s, [])"
| "accumulate_links s ((k, v) # rest) =
     (let (shown, stored) = (case map_get (sk_linkValues s) k of
            Some w \<Rightarrow> (if sk_accumulationMode s = ''Cumulative'' then w + v else v, w + v)
          | None \<Rightarrow> (v, v));
          (s', links) = accumulate_links (s\<lparr>sk_linkValues := map_set k stored (sk_linkValues s)\<rparr>) rest
      in (s', parse_link k shown # links))"

definition missing_links :: "sankey \<Rightarrow> link list \<Rightarrow> link list" where
  "missing_links s links =
     (if length links < length (sk_linkValues s)
      then links @ map (\<lambda>(k, v). parse_link k v)
        (filter (\<lambda>(k, v). k \<notin> set (map lk_fullName links)) (sk_linkValues s))
      else links)"

definition drawSankey :: "sankey \<Rightarrow> traffic list \<Rightarrow> (sankey \<times> link list) js_result" where
  \<comment> \<open>up to the choice of the links; \<open>find\<close> without a result raises when its start is read\<close>
  "drawSankey s data =
     (case find (\<lambda>e. tf_value e > 0) data of
        None \<Rightarrow> Inl TypeError
      | Some e \<Rightarrow>
          let s1 = s\<lparr>sk_epochs := (if tf_start e \<in> set (sk_epochs s) then sk_epochs s else sk_epochs s @ [tf_start e])\<rparr>;
              (s2, links) = accumulate_links s1 (groupByLinks data)
          in Inr (s2, filter (\<lambda>l. lk_type l = sk_measurementMode s2) (missing_links s2 links)))"

definition poll :: "sankey \<Rightarrow> traffic list \<Rightarrow> sankey" where
  \<comment> \<open>one response of the periodic request; an exception only ends the callback\<close>
  "poll s data = (case drawSankey s data of Inl _ \<Rightarrow> s | Inr (s', _) \<Rightarrow> s')"

definition click_measurement :: "string \<Rightarrow> sankey \<Rightarrow> sankey" where
  \<comment> \<open>the buttons Bytes (\<open>Byte\<close>) and Messages (\<open>Msg\<close>), before the data are fetched again\<close>
  "click_measurement mode s = s\<lparr>sk_measurementMode := mode\<rparr>"

definition click_accumulation :: "string \<Rightarrow> sankey \<Rightarrow> sankey" where
  \<comment> \<open>the buttons Last Epoch (\<open>Last\<close>) and All (\<open>Cumulative\<close>)\<close>
  "click_accumulation mode s = s\<lparr>sk_accumulationMode := mode\<rparr>"

subsection \<open>Ports\<close>

definition clicked_component :: "string \<Rightarrow> string" where
  \<comment> \<open>\<open>d.name.substring(0, d.name.lastIndexOf('.'))\<close>: a click on a box opens this component\<close>
  "clicked_component name = rev (drop 1 (dropWhile (\<lambda>c. c \<noteq> CHR ''.'') (rev name)))"

definition port_label :: "string \<Rightarrow> string" where
  \<comment> \<open>\<open>d.name.slice(d.name.lastIndexOf(".") + 1)\<close>: the text beside a box of the component\<close>
  "port_label name = rev (takeWhile (\<lambda>c. c \<noteq> CHR ''.'') (rev name))"

lemma port_name_parts:
  assumes "CHR ''.'' \<notin> set port"
  shows "clicked_component (c @ ''.'' @ port) = c" "port_label (c @ ''.'' @ port) = port"
  using assms by (simp_all add: clicked_component_def port_label_def dropWhile_append takeWhile_append)

definition js_includes :: "string \<Rightarrow> string \<Rightarrow> bool" where
  "js_includes s part = sublist part s"

definition linksOriginate :: "sankey \<Rightarrow> link list \<Rightarrow> link list" where
  "linksOriginate s links = filter (\<lambda>l. js_includes (lk_source l) (sk_name s)) links"

definition linksTerminate :: "sankey \<Rightarrow> link list \<Rightarrow> link list" where
  "linksTerminate s links = filter (\<lambda>l. js_includes (lk_target l) (sk_name s)) links"

definition portsOriginate :: "sankey \<Rightarrow> link list \<Rightarrow> string list" where
  \<comment> \<open>in descending order\<close>
  "portsOriginate s links =
     rev (sort (remdups (map lk_source (linksOriginate s links) @ map lk_target (linksOriginate s links))))"

definition portsTerminate :: "sankey \<Rightarrow> link list \<Rightarrow> string list" where
  "portsTerminate s links =
     rev (sort (remdups (map lk_source (linksTerminate s links) @ map lk_target (linksTerminate s links) @
       map lk_source (linksOriginate s links))))"

record sankey_node =
  sn_name :: string
  sn_y0 :: js_num
  sn_y1 :: js_num

fun place_nodes :: "string \<Rightarrow> js_num \<Rightarrow> nat \<Rightarrow> nat \<Rightarrow> 'a sankey_node_scheme list \<Rightarrow> 'a sankey_node_scheme list" where
  \<comment> \<open>\<open>n\<close> own ports, \<open>i\<close> of them before the rest of the list\<close>
  "place_nodes name canvasHeight n i [] = []"
| "place_nodes name canvasHeight n i (e # es) =
     (if js_includes (sn_name e) name then
        let h = (canvasHeight / 3 - 4) / of_nat_num n;
            y0 = canvasHeight / 3 + ((canvasHeight / 3) / of_nat_num n) * of_nat_num i
        in e\<lparr>sn_y0 := y0, sn_y1 := y0 + h\<rparr> # place_nodes name canvasHeight n (Suc i) es
      else
        let h = sn_y1 e - sn_y0 e;
            y0 = (canvasHeight / 2) + ((sn_y0 e + (h / 2) - (canvasHeight / 2)) * 3) - h - 10
        in e\<lparr>sn_y0 := y0, sn_y1 := y0 + h\<rparr> # place_nodes name canvasHeight n i es)"

definition own_nodes :: "string \<Rightarrow> 'a sankey_node_scheme list \<Rightarrow> 'a sankey_node_scheme list" where
  "own_nodes name nodes = filter (\<lambda>e. js_includes (sn_name e) name) nodes"

definition placed :: "string \<Rightarrow> js_num \<Rightarrow> 'a sankey_node_scheme list \<Rightarrow> 'a sankey_node_scheme list" where
  "placed name canvasHeight nodes = place_nodes name canvasHeight (length (own_nodes name nodes)) 0 nodes"

definition port_text :: "(js_num \<Rightarrow> string) \<Rightarrow> sankey \<Rightarrow> js_num \<Rightarrow> string" where
  \<comment> \<open>the label of an own port, for the value that the layout computed for the node\<close>
  "port_text toString s v =
     (let output = (if sk_accumulationMode s = ''Cumulative'' then v / of_nat_num (length (sk_epochs s)) else v)
      in if sk_measurementMode s = ''Msg''
         then toString (js_round output) @ '' Msg/'' @ [char_of (206 :: nat), char_of (188 :: nat)] @ ''s''
         else toFixed2 toString (output * 100000 / Num (2 ^ 30)) @ '' GB/s'')"

subsection \<open>Totals\<close>

definition total_of :: "string \<Rightarrow> traffic list \<Rightarrow> int" where
  "total_of k d = sum_list (map tf_value (filter (\<lambda>e. link_key e = k) d))"

definition link_keys :: "traffic list \<Rightarrow> string set" where
  "link_keys d = link_key ` set d"

definition counted :: "traffic list \<Rightarrow> bool" where
  \<comment> \<open>a response with traffic\<close>
  "counted d \<longleftrightarrow> (\<exists>e \<in> set d. tf_value e > 0)"

lemma get_add_value:
  "map_get (add_value k v m) j =
     (if j = k then Some (v + (case map_get m k of None \<Rightarrow> 0 | Some w \<Rightarrow> w)) else map_get m j)"
  by (auto simp: add_value_def update_conv' split: option.splits)

lemma ok_add_value [simp]: "map_ok m \<Longrightarrow> map_ok (add_value k v m)"
  by (auto simp: add_value_def jm.invar_put split: option.splits)

lemma groupByLinks_snoc: "groupByLinks (d @ [e]) = add_value (link_key e) (tf_value e) (groupByLinks d)"
  by (simp add: groupByLinks_def)

lemma groupByLinks_get: "map_get (groupByLinks d) k = (if k \<in> link_keys d then Some (total_of k d) else None)"
proof (induction d rule: rev_induct)
  case Nil
  then show ?case by (simp add: groupByLinks_def link_keys_def)
next
  case (snoc e d)
  have zero: "total_of k d = 0" if "k \<notin> link_keys d"
  proof -
    have "filter (\<lambda>e. link_key e = k) d = []" using that by (auto simp: link_keys_def filter_empty_conv)
    then show ?thesis by (simp add: total_of_def)
  qed
  show ?case using snoc zero
    by (auto simp: groupByLinks_snoc get_add_value link_keys_def total_of_def)
qed

lemma groupByLinks_ok: "map_ok (groupByLinks d)"
  by (induction d rule: rev_induct) (simp_all add: groupByLinks_snoc, simp add: groupByLinks_def)

text \<open>The loop adds the entries to the totals and shows one link for each of them.\<close>

definition merged :: "(string, int) js_map \<Rightarrow> (string \<times> int) list \<Rightarrow> (string, int) js_map" where
  "merged m es = foldl (\<lambda>m (k, v). add_value k v m) m es"

definition shown_value :: "sankey \<Rightarrow> string \<Rightarrow> int \<Rightarrow> int" where
  "shown_value s k v =
     (if sk_accumulationMode s = ''Cumulative''
      then v + (case map_get (sk_linkValues s) k of None \<Rightarrow> 0 | Some w \<Rightarrow> w) else v)"

lemma merged_Cons: "merged m ((k, v) # es) = merged (add_value k v m) es"
  by (simp add: merged_def)

lemma accumulate_links_eq:
  assumes "map_ok es"
  shows "accumulate_links s es =
    (s\<lparr>sk_linkValues := merged (sk_linkValues s) es\<rparr>, map (\<lambda>(k, v). parse_link k (shown_value s k v)) es)"
  using assms
proof (induction es arbitrary: s)
  case Nil
  then show ?case by (simp add: merged_def)
next
  case (Cons e es)
  obtain k v where e: "e = (k, v)" by (cases e)
  let ?s = "s\<lparr>sk_linkValues := add_value k v (sk_linkValues s)\<rparr>"
  have step: "accumulate_links s (e # es) =
      (fst (accumulate_links ?s es), parse_link k (shown_value s k v) # snd (accumulate_links ?s es))"
    by (simp add: e add_value_def shown_value_def split_def Let_def add.commute split: option.splits)
  have "shown_value ?s j w = shown_value s j w" if "(j, w) \<in> set es" for j w
    using that Cons.prems by (force simp: shown_value_def get_add_value e)
  then have "map (\<lambda>(k, v). parse_link k (shown_value ?s k v)) es = map (\<lambda>(k, v). parse_link k (shown_value s k v)) es"
    by auto
  moreover have "accumulate_links ?s es =
      (?s\<lparr>sk_linkValues := merged (add_value k v (sk_linkValues s)) es\<rparr>,
       map (\<lambda>(k, v). parse_link k (shown_value ?s k v)) es)"
    using Cons.IH [of ?s] Cons.prems by (simp add: e)
  ultimately show ?case unfolding step by (simp add: e merged_Cons)
qed

lemma merged_get:
  assumes "map_ok es"
  shows "map_get (merged m es) k =
    (case map_get es k of None \<Rightarrow> map_get m k | Some v \<Rightarrow> Some (v + (case map_get m k of None \<Rightarrow> 0 | Some w \<Rightarrow> w)))"
  using assms
proof (induction es arbitrary: m)
  case Nil
  then show ?case by (simp add: merged_def)
next
  case (Cons e es)
  obtain j v where e: "e = (j, v)" by (cases e)
  have "map_get es j = None" using Cons.prems by (simp add: e map_of_eq_None_iff)
  then show ?case using Cons.IH [of "add_value j v m"] Cons.prems
    by (auto simp: e merged_Cons get_add_value split: option.splits)
qed

lemma merged_ok: "map_ok m \<Longrightarrow> map_ok (merged m es)"
  by (induction es arbitrary: m) (auto simp: merged_def split_def)

definition drawn_links :: "sankey \<Rightarrow> traffic list \<Rightarrow> link list" where
  "drawn_links s d = map (\<lambda>(k, v). parse_link k (shown_value s k v)) (groupByLinks d)"

lemma drawSankey_eq:
  "counted d \<Longrightarrow> \<exists>ep. drawSankey s d =
    (let s' = s\<lparr>sk_epochs := ep, sk_linkValues := merged (sk_linkValues s) (groupByLinks d)\<rparr>
     in Inr (s', filter (\<lambda>l. lk_type l = sk_measurementMode s') (missing_links s' (drawn_links s d))))"
proof -
  assume "counted d"
  then obtain e where e: "find (\<lambda>e. tf_value e > 0) d = Some e"
    by (cases "find (\<lambda>e. tf_value e > 0) d") (auto simp: counted_def find_None_iff)
  have sv: "shown_value (s\<lparr>sk_epochs := ep\<rparr>) = shown_value s" for ep
    by (intro ext) (simp add: shown_value_def)
  have lv: "sk_linkValues (s\<lparr>sk_epochs := ep\<rparr>) = sk_linkValues s" for ep by simp
  let ?ep = "if tf_start e \<in> set (sk_epochs s) then sk_epochs s else sk_epochs s @ [tf_start e]"
  show ?thesis
    by (rule exI [of _ ?ep])
      (simp only: drawSankey_def e option.case Let_def accumulate_links_eq [OF groupByLinks_ok] prod.case sv
        drawn_links_def lv)
qed

lemma drawSankey_error: "drawSankey s d = Inl TypeError \<longleftrightarrow> \<not> counted d"
proof
  show "drawSankey s d = Inl TypeError" if "\<not> counted d"
  proof -
    have "find (\<lambda>e. tf_value e > 0) d = None" using that by (auto simp: counted_def find_None_iff)
    then show ?thesis by (simp add: drawSankey_def)
  qed
next
  show "\<not> counted d" if "drawSankey s d = Inl TypeError"
    using that drawSankey_eq [of d s] by (auto simp: Let_def)
qed

lemma poll_values:
  "sk_linkValues (poll s d) = (if counted d then merged (sk_linkValues s) (groupByLinks d) else sk_linkValues s)"
  using drawSankey_eq [of d s] drawSankey_error [of s d] by (auto simp: poll_def Let_def)

lemma fullName_parse [simp]: "lk_fullName (parse_link k v) = k" "lk_value (parse_link k v) = v"
    "lk_type (parse_link k v) = split_on (CHR ''|'') k ! 2"
  by (simp_all add: parse_link_def Let_def)

lemma drawn_names: "map lk_fullName (drawn_links s d) = map fst (groupByLinks d)"
  by (simp add: drawn_links_def split_def comp_def)

lemma groupByLinks_keys: "set (map fst (groupByLinks d)) = link_keys d"
  unfolding jm.keys_dom by (auto simp: groupByLinks_get dom_def)

lemma merged_keys: "set (map fst (merged m (groupByLinks d))) = set (map fst m) \<union> link_keys d"
  unfolding jm.keys_dom by (auto simp: merged_get [OF groupByLinks_ok] groupByLinks_get dom_def split: option.splits)

text \<open>Whether or not the test on the lengths succeeds, the missing links are those of the other keys.\<close>

lemma missing_links_eq:
  assumes "map_ok (sk_linkValues s)" "set (map lk_fullName links) \<subseteq> set (map fst (sk_linkValues s))"
    and "distinct (map lk_fullName links)"
  shows "missing_links s links =
    links @ map (\<lambda>(k, v). parse_link k v) (filter (\<lambda>(k, v). k \<notin> set (map lk_fullName links)) (sk_linkValues s))"
proof (cases "length links < length (sk_linkValues s)")
  case False
  have "card (set (map fst (sk_linkValues s))) \<le> card (set (map lk_fullName links))"
    using False assms(1,3) by (simp add: distinct_card [of "map _ _", simplified])
  then have "set (map lk_fullName links) = set (map fst (sk_linkValues s))"
    using assms(2) by (intro card_seteq) auto
  then have "filter (\<lambda>(k, v). k \<notin> set (map lk_fullName links)) (sk_linkValues s) = []"
    by (force simp: filter_empty_conv)
  then show ?thesis using False by (simp add: missing_links_def)
qed (simp add: missing_links_def)

subsection \<open>Properties\<close>

text \<open>
  (C24) The totals over the responses: after any sequence of polls the total of a link is the sum
  of its traffic over all responses that had some traffic, and exactly the links of these
  responses have a total.  A response that arrives twice, because its epoch is longer than the
  polling period, is counted twice.
\<close>

theorem sankey_totals:
  "map_get (sk_linkValues (foldl poll (new_sankey name) ds)) k =
     (if \<exists>d \<in> set ds. counted d \<and> k \<in> link_keys d
      then Some (sum_list (map (total_of k) (filter counted ds))) else None)"
proof (induction ds rule: rev_induct)
  case Nil
  then show ?case by (simp add: new_sankey_def)
next
  case (snoc d ds)
  have zero: "total_of k d = 0" if "k \<notin> link_keys d" for d
  proof -
    have "filter (\<lambda>e. link_key e = k) d = []" using that by (auto simp: link_keys_def filter_empty_conv)
    then show ?thesis by (simp add: total_of_def)
  qed
  have none: "sum_list (map (total_of k) (filter counted ds)) = 0" if "\<forall>d \<in> set ds. counted d \<longrightarrow> k \<notin> link_keys d"
    using that zero by (induction ds) auto
  show ?case using snoc none zero [of d]
    by (auto simp: poll_values merged_get [OF groupByLinks_ok] groupByLinks_get split: if_splits)
qed

lemma all_links:
  assumes "counted d" "map_ok (sk_linkValues s)"
  obtains ep where "drawSankey s d =
    (let s' = s\<lparr>sk_epochs := ep, sk_linkValues := merged (sk_linkValues s) (groupByLinks d)\<rparr>
     in Inr (s', filter (\<lambda>l. lk_type l = sk_measurementMode s) (drawn_links s d @
          map (\<lambda>(k, v). parse_link k v) (filter (\<lambda>(k, v). k \<notin> link_keys d) (sk_linkValues s')))))"
proof -
  obtain ep where ep: "drawSankey s d =
    (let s' = s\<lparr>sk_epochs := ep, sk_linkValues := merged (sk_linkValues s) (groupByLinks d)\<rparr>
     in Inr (s', filter (\<lambda>l. lk_type l = sk_measurementMode s') (missing_links s' (drawn_links s d))))"
    using drawSankey_eq [OF assms(1)] by blast
  let ?s = "s\<lparr>sk_epochs := ep, sk_linkValues := merged (sk_linkValues s) (groupByLinks d)\<rparr>"
  have "set (map lk_fullName (drawn_links s d)) = link_keys d" unfolding drawn_names groupByLinks_keys ..
  moreover have "missing_links ?s (drawn_links s d) = drawn_links s d @ map (\<lambda>(k, v). parse_link k v)
      (filter (\<lambda>(k, v). k \<notin> set (map lk_fullName (drawn_links s d))) (sk_linkValues ?s))"
  proof (rule missing_links_eq)
    show "map_ok (sk_linkValues ?s)" using merged_ok [OF assms(2)] by simp
    show "set (map lk_fullName (drawn_links s d)) \<subseteq> set (map fst (sk_linkValues ?s))"
      unfolding drawn_names groupByLinks_keys by (simp add: merged_keys [simplified])
    show "distinct (map lk_fullName (drawn_links s d))" unfolding drawn_names by (rule groupByLinks_ok)
  qed
  ultimately show thesis using that [of ep] by (simp add: ep Let_def)
qed

lemma distinct_map_filter: "distinct (map f xs) \<Longrightarrow> distinct (map f (filter P xs))"
  by (induction xs) auto

lemma set_map_filter: "(\<And>x. x \<in> set xs \<Longrightarrow> P x = Q (f x)) \<Longrightarrow> set (map f (filter P xs)) = {y \<in> set (map f xs). Q y}"
  by (induction xs) auto

text \<open>
  (C25) The diagram shows one link for each total of the chosen unit.  In the cumulative mode its
  value is the total.  In the mode for the last epoch it is the traffic of the last response, but
  for a link that the response does not have it is the total as well.
\<close>

theorem sankey_links:
  assumes "drawSankey s d = Inr (s', ls)" "map_ok (sk_linkValues s)"
  shows "distinct (map lk_fullName ls) \<and>
    set (map lk_fullName ls) =
      {k \<in> dom (map_get (sk_linkValues s')). split_on (CHR ''|'') k ! 2 = sk_measurementMode s} \<and>
    (\<forall>l \<in> set ls. lk_value l =
      (if sk_accumulationMode s = ''Cumulative'' \<or> lk_fullName l \<notin> link_keys d
       then the (map_get (sk_linkValues s') (lk_fullName l)) else total_of (lk_fullName l) d))"
proof -
  let ?m = "merged (sk_linkValues s) (groupByLinks d)"
  let ?rest = "filter (\<lambda>(k, v). k \<notin> link_keys d) ?m"
  have "counted d" using assms(1) drawSankey_error [of s d] by auto
  then obtain ep where s': "sk_linkValues s' = ?m"
    and ls: "ls = filter (\<lambda>l. lk_type l = sk_measurementMode s)
      (drawn_links s d @ map (\<lambda>(k, v). parse_link k v) ?rest)"
    by (rule all_links [OF _ assms(2)]) (use assms(1) in \<open>auto simp: Let_def\<close>)
  have ok: "map_ok ?m" by (rule merged_ok [OF assms(2)])
  have rest: "map lk_fullName (map (\<lambda>(k, v). parse_link k v) ?rest) = map fst ?rest"
    by (simp add: split_def comp_def)
  have dist: "distinct (map lk_fullName (drawn_links s d @ map (\<lambda>(k, v). parse_link k v) ?rest))"
    unfolding map_append drawn_names rest using distinct_map_filter [OF ok] groupByLinks_ok groupByLinks_keys [of d]
    by auto
  have keys: "set (map lk_fullName (drawn_links s d @ map (\<lambda>(k, v). parse_link k v) ?rest)) = set (map fst ?m)"
  proof -
    have "set (map fst (filter (\<lambda>(k, v). k \<notin> A) xs)) = set (map fst xs) - A"
      for A and xs :: "(string \<times> int) list" by (induction xs) auto
    moreover have "link_keys d \<subseteq> set (map fst ?m)" unfolding merged_keys by blast
    ultimately show ?thesis unfolding map_append drawn_names rest set_append groupByLinks_keys by blast
  qed
  have type: "\<forall>l \<in> set (drawn_links s d @ map (\<lambda>(k, v). parse_link k v) ?rest).
      lk_type l = split_on (CHR ''|'') (lk_fullName l) ! 2"
    by (auto simp: drawn_links_def)
  have "distinct (map lk_fullName ls)" unfolding ls by (rule distinct_map_filter [OF dist])
  moreover have "set (map lk_fullName ls) = {k \<in> set (map fst ?m). split_on (CHR ''|'') k ! 2 = sk_measurementMode s}"
    unfolding ls keys [symmetric] by (rule set_map_filter) (use type in auto)
  moreover have "lk_value l = (if sk_accumulationMode s = ''Cumulative'' \<or> lk_fullName l \<notin> link_keys d
      then the (map_get ?m (lk_fullName l)) else total_of (lk_fullName l) d)" if "l \<in> set ls" for l
  proof (cases "l \<in> set (drawn_links s d)")
    case True
    then obtain k v where kv: "(k, v) \<in> set (groupByLinks d)" "l = parse_link k (shown_value s k v)"
      by (auto simp: drawn_links_def)
    then have "map_get (groupByLinks d) k = Some v" using groupByLinks_ok by simp
    then have v: "k \<in> link_keys d" "v = total_of k d" by (auto simp: groupByLinks_get split: if_splits)
    then show ?thesis
      by (simp add: kv(2) shown_value_def merged_get [OF groupByLinks_ok] groupByLinks_get)
  next
    case False
    then have "l \<in> set (map (\<lambda>(k, v). parse_link k v) ?rest)" using that unfolding ls by simp
    then obtain e where e: "e \<in> set ?rest" "l = (\<lambda>(k, v). parse_link k v) e" unfolding set_map by (rule imageE)
    then have "(fst e, snd e) \<in> set ?m" "fst e \<notin> link_keys d" "l = parse_link (fst e) (snd e)"
      by (auto simp: split_def)
    then show ?thesis using map_of_is_SomeI [OF ok, of "fst e" "snd e"] by simp
  qed
  ultimately show ?thesis unfolding s' jm.keys_dom by blast
qed

definition sample_traffic :: "traffic list" where
  "sample_traffic =
     [\<lparr>tf_start = ''0.0'', tf_localPort = ''A.P'', tf_remotePort = ''B.Q'', tf_value = 3, tf_unit = ''Byte''\<rparr>,
      \<lparr>tf_start = ''0.0'', tf_localPort = ''A.P'', tf_remotePort = ''B.Q'', tf_value = 4, tf_unit = ''Byte''\<rparr>]"

theorem sankey_links_witness:
  "\<exists>s' ls. drawSankey (new_sankey ''A'') sample_traffic = Inr (s', ls) \<and>
     (\<forall>l \<in> set ls. lk_value l = (if lk_fullName l \<notin> link_keys sample_traffic
        then the (map_get (sk_linkValues s') (lk_fullName l)) else total_of (lk_fullName l) sample_traffic))"
proof -
  have "counted sample_traffic" by (simp add: counted_def sample_traffic_def)
  then obtain s' ls where run: "drawSankey (new_sankey ''A'') sample_traffic = Inr (s', ls)"
    using drawSankey_eq [of sample_traffic "new_sankey ''A''"] by (auto simp: Let_def)
  then show ?thesis using sankey_links [OF run] by (simp add: new_sankey_def)
qed

text \<open>
  Drawing fails exactly when no port of the response has traffic, for instance for an idle
  component; the totals then stay as they are.
\<close>

theorem sankey_idle_fails:
  "(\<exists>e. drawSankey s d = Inl e) \<longleftrightarrow> (\<forall>e \<in> set d. tf_value e \<le> 0)"
proof -
  have "drawSankey s d = Inl e \<Longrightarrow> e = TypeError" for e
    by (auto simp: drawSankey_def Let_def split: option.splits prod.splits)
  then have "(\<exists>e. drawSankey s d = Inl e) \<longleftrightarrow> drawSankey s d = Inl TypeError" by blast
  then show ?thesis unfolding drawSankey_error by (auto simp: counted_def not_less)
qed

theorem sankey_idle_fails_witness: "\<exists>e. drawSankey (new_sankey ''A'') [] = Inl e"
  using sankey_idle_fails [of "new_sankey ''A''" "[]"] by simp

subsection \<open>The boxes of the own ports\<close>

lemma own_place_nodes:
  assumes "n > 0"
  shows "map (\<lambda>e. (sn_y0 e, sn_y1 e)) (own_nodes name (place_nodes name (Num H) n i es)) =
    map (\<lambda>j. (Num (H / 3 + H / 3 / of_nat n * of_nat (i + j)),
              Num (H / 3 + H / 3 / of_nat n * of_nat (i + j) + (H / 3 - 4) / of_nat n)))
      [0..<length (own_nodes name es)]"
  using assms
proof (induction es arbitrary: i)
  case (Cons e es)
  have up: "[0..<Suc k] = 0 # map Suc [0..<k]" for k by (simp add: map_Suc_upt upt_conv_Cons)
  show ?case using Cons.IH [of i] Cons.IH [of "Suc i"] Cons.prems
    by (auto simp: own_nodes_def Let_def js_num_simps up comp_def simp del: upt_Suc)
qed (simp add: own_nodes_def)

lemma place_nodes_none: "(\<forall>e \<in> set es. \<not> js_includes (sn_name e) name) \<Longrightarrow> own_nodes name (place_nodes name H n i es) = []"
  by (induction es arbitrary: i) (simp_all add: own_nodes_def Let_def)

text \<open>
  The boxes of the component's own ports are stacked in the middle third of the canvas, in
  their order: no box leaves the rectangle of the component and no two boxes overlap.
\<close>

theorem sankey_own_ports_stacked:
  assumes "12 \<le> H" and "out = own_nodes name (placed name (Num H) nodes)" and "i < length out"
  shows "Num (H / 3) \<le> sn_y0 (out ! i) \<and> sn_y0 (out ! i) \<le> sn_y1 (out ! i) \<and> sn_y1 (out ! i) \<le> Num (2 * H / 3) \<and>
    (\<forall>j < i. sn_y1 (out ! j) < sn_y0 (out ! i))"
proof -
  let ?own = "own_nodes name nodes"
  let ?n = "of_nat (length ?own) :: rat"
  let ?top = "\<lambda>j. H / 3 + H / 3 / ?n * of_nat j"
  have nonempty: "0 < length ?own" if "out \<noteq> []"
  proof (rule ccontr)
    assume "\<not> 0 < length ?own"
    then have "\<forall>e \<in> set nodes. \<not> js_includes (sn_name e) name" by (simp add: own_nodes_def filter_empty_conv)
    then show False using that by (simp add: assms(2) placed_def place_nodes_none)
  qed
  have "out \<noteq> []" using assms(3) by auto
  then have pos: "0 < length ?own" by (rule nonempty)
  then have n: "0 < ?n" by simp
  have boxes: "map (\<lambda>e. (sn_y0 e, sn_y1 e)) out =
      map (\<lambda>j. (Num (?top j), Num (?top j + (H / 3 - 4) / ?n))) [0..<length ?own]"
    using own_place_nodes [OF pos, of name H 0 nodes] by (simp add: assms(2) placed_def)
  have len: "length out = length ?own"
    using arg_cong [OF boxes, of length] unfolding length_map length_upt by simp
  have box: "sn_y0 (out ! j) = Num (?top j)" "sn_y1 (out ! j) = Num (?top j + (H / 3 - 4) / ?n)" if "j < length out" for j
  proof -
    have "map (\<lambda>e. (sn_y0 e, sn_y1 e)) out ! j = (Num (?top j), Num (?top j + (H / 3 - 4) / ?n))"
      unfolding boxes using that len by (subst nth_map) simp_all
    then show "sn_y0 (out ! j) = Num (?top j)" "sn_y1 (out ! j) = Num (?top j + (H / 3 - 4) / ?n)"
      using that by (simp_all only: nth_map prod.inject)
  qed
  have step: "?top j + H / 3 / ?n \<le> ?top k" if "j < k" for j k
  proof -
    have "H / 3 / ?n * of_nat (Suc j) \<le> H / 3 / ?n * of_nat k"
      using that n assms(1) by (intro mult_left_mono) simp_all
    then show ?thesis by (simp add: algebra_simps add_divide_distrib)
  qed
  have h: "0 \<le> (H / 3 - 4) / ?n" "(H / 3 - 4) / ?n < H / 3 / ?n"
    using n assms(1) by (simp, intro divide_strict_right_mono) simp_all
  have bottom: "?top i + H / 3 / ?n \<le> 2 * H / 3"
    using step [of i "length ?own"] assms(3) len n by simp
  have top: "H / 3 \<le> ?top i" using n assms(1) by simp
  have "sn_y1 (out ! j) < sn_y0 (out ! i)" if "j < i" for j
  proof -
    have "?top j + (H / 3 - 4) / ?n < ?top i" using step [OF that] h by linarith
    then show ?thesis unfolding box(1) [OF assms(3)] box(2) [OF less_trans [OF that assms(3)]] by simp
  qed
  moreover have "?top i + (H / 3 - 4) / ?n \<le> 2 * H / 3" using bottom h(2) by linarith
  moreover have "?top i \<le> ?top i + (H / 3 - 4) / ?n" using h(1) by linarith
  ultimately show ?thesis using top unfolding box [OF assms(3)] less_eq_js_num.simps by blast
qed

theorem sankey_own_ports_stacked_witness:
  "let out = own_nodes ''A'' (placed ''A'' (Num 300)
       [\<lparr>sn_name = ''A.P'', sn_y0 = 0, sn_y1 = 0\<rparr>, \<lparr>sn_name = ''A.Q'', sn_y0 = 0, sn_y1 = 0\<rparr>])
   in sn_y1 (out ! 0) < sn_y0 (out ! 1)"
proof -
  let ?nodes = "[\<lparr>sn_name = ''A.P'', sn_y0 = 0, sn_y1 = 0\<rparr>, \<lparr>sn_name = ''A.Q'', sn_y0 = 0, sn_y1 = 0\<rparr>]"
  have "js_includes ''A.P'' ''A''" "js_includes ''A.Q'' ''A''" by code_simp+
  then have "1 < length (own_nodes ''A'' (placed ''A'' (Num 300) ?nodes))"
    by (simp add: own_nodes_def placed_def Let_def)
  from sankey_own_ports_stacked [OF _ refl this] show ?thesis by (simp add: Let_def)
qed

end
