(* ===== verification/Right_Pane.thy ===== *)
theory Right_Pane
  imports Intervals Sankey Runs
begin

text \<open>
  The right pane of the monitor, which three components share: the hang analyzer
  (\<open>hang_analyzer.ts\<close>), the traffic diagram of a component view (\<open>component.ts\<close>) and the
  profile (\<open>resource.ts\<close>).  Each of them replaces the content of the pane; the first two
  refresh it periodically and try to stop each other by clicking the other's refresh button when
  it is in the pane and looks pressed.
\<close>

subsection \<open>The two analyzers\<close>

record hang_analyzer =
  ha_running :: bool
  ha_sort :: string
  ha_intervalHandle :: nat

definition new_hang_analyzer :: hang_analyzer where
  "new_hang_analyzer = \<lparr> ha_running = False, ha_sort = ''level'', ha_intervalHandle = 0 \<rparr>"

definition ha_startAnalyzing :: "hang_analyzer \<Rightarrow> intervals \<Rightarrow> hang_analyzer \<times> intervals" where
  "ha_startAnalyzing a iv =
     (if \<not> ha_running a
      then let (h, iv') = setInterval iv in (a\<lparr>ha_intervalHandle := h, ha_running := True\<rparr>, iv')
      else (a, iv))"

definition ha_stopAnalyzing :: "hang_analyzer \<Rightarrow> intervals \<Rightarrow> hang_analyzer \<times> intervals" where
  "ha_stopAnalyzing a iv =
     (if ha_running a then (a\<lparr>ha_running := False\<rparr>, clearInterval (ha_intervalHandle a) iv) else (a, iv))"

record detail_view =
  dv_sankey :: sankey
  dv_running :: bool
  dv_intervalHandle :: nat

definition new_detail_view :: "string \<Rightarrow> detail_view" where
  "new_detail_view name = \<lparr> dv_sankey = new_sankey name, dv_running = False, dv_intervalHandle = 0 \<rparr>"

definition dv_startAnalyzing :: "detail_view \<Rightarrow> intervals \<Rightarrow> detail_view \<times> intervals" where
  "dv_startAnalyzing v iv =
     (if \<not> dv_running v
      then let (h, iv') = setInterval iv in (v\<lparr>dv_intervalHandle := h, dv_running := True\<rparr>, iv')
      else (v, iv))"

definition dv_stopAnalyzing :: "detail_view \<Rightarrow> intervals \<Rightarrow> detail_view \<times> intervals" where
  "dv_stopAnalyzing v iv =
     (if dv_running v then (v\<lparr>dv_running := False\<rparr>, clearInterval (dv_intervalHandle v) iv) else (v, iv))"

interpretation ha: refresher ha_running ha_intervalHandle ha_startAnalyzing ha_stopAnalyzing
  by unfold_locales (auto simp: ha_startAnalyzing_def ha_stopAnalyzing_def split_def Let_def)

interpretation dv: refresher dv_running dv_intervalHandle dv_startAnalyzing dv_stopAnalyzing
  by unfold_locales (auto simp: dv_startAnalyzing_def dv_stopAnalyzing_def split_def Let_def)

subsection \<open>The pane\<close>

datatype pane =
    EmptyPane
  | HangPane bool \<comment> \<open>whether the refresh button has the class \<open>btn-primary\<close>\<close>
  | TrafficPane nat bool \<comment> \<open>the view that made the pane, and the same for its button\<close>
  | ProfilePane

record right_pane =
  rp_pane :: pane
  rp_hang :: hang_analyzer
  rp_views :: "detail_view list" \<comment> \<open>every view that was opened\<close>
  rp_intervals :: intervals

definition new_right_pane :: right_pane where
  "new_right_pane = \<lparr> rp_pane = EmptyPane, rp_hang = new_hang_analyzer, rp_views = [], rp_intervals = no_intervals \<rparr>"

definition click_hang_refresh :: "right_pane \<Rightarrow> right_pane" where
  \<comment> \<open>the handler of the button of the hang analyzer\<close>
  "click_hang_refresh p =
     (let (a, iv) = (if ha_running (rp_hang p) then ha_stopAnalyzing else ha_startAnalyzing) (rp_hang p) (rp_intervals p)
      in p\<lparr>rp_hang := a, rp_intervals := iv, rp_pane := HangPane (\<not> ha_running (rp_hang p))\<rparr>)"

definition click_traffic_refresh :: "nat \<Rightarrow> right_pane \<Rightarrow> right_pane" where
  \<comment> \<open>the handler of the button of view \<open>i\<close>\<close>
  "click_traffic_refresh i p =
     (let v = rp_views p ! i;
          (v', iv) = (if dv_running v then dv_stopAnalyzing else dv_startAnalyzing) v (rp_intervals p)
      in p\<lparr>rp_views := (rp_views p)[i := v'], rp_intervals := iv, rp_pane := TrafficPane i (\<not> dv_running v)\<rparr>)"

definition prepareDom :: "right_pane \<Rightarrow> right_pane" where
  "prepareDom p =
     (let p1 = (case rp_pane p of TrafficPane i True \<Rightarrow> click_traffic_refresh i p | _ \<Rightarrow> p)
      in p1\<lparr>rp_pane := HangPane True\<rparr>)"

definition click_hang_analyzer :: "right_pane \<Rightarrow> right_pane" where
  \<comment> \<open>the handler that \<open>bindDom\<close> registers\<close>
  "click_hang_analyzer p =
     (let p1 = prepareDom p;
          (a, iv) = ha_startAnalyzing (rp_hang p1) (rp_intervals p1)
      in p1\<lparr>rp_hang := a, rp_intervals := iv\<rparr>)"

definition sort_hang :: "string \<Rightarrow> right_pane \<Rightarrow> right_pane" where
  "sort_hang key p = p\<lparr>rp_hang := (rp_hang p)\<lparr>ha_sort := key\<rparr>\<rparr>"

definition showSankey :: "string \<Rightarrow> right_pane \<Rightarrow> right_pane" where
  \<comment> \<open>a new view opens; its button starts without the class \<open>btn-primary\<close>\<close>
  "showSankey name p =
     (let p1 = (case rp_pane p of HangPane True \<Rightarrow> click_hang_refresh p | _ \<Rightarrow> p);
          i = length (rp_views p1);
          (v, iv) = dv_startAnalyzing (new_detail_view name) (rp_intervals p1)
      in p1\<lparr>rp_views := rp_views p1 @ [v], rp_intervals := iv, rp_pane := TrafficPane i False\<rparr>)"

definition show_profile :: "right_pane \<Rightarrow> right_pane" where
  "show_profile p = p\<lparr>rp_pane := ProfilePane\<rparr>"

record buffer_row =
  br_buffer :: string
  br_level :: int
  br_cap :: int

definition buffer_request :: "hang_analyzer \<Rightarrow> string" where
  "buffer_request a = ''/api/hangdetector/buffers?sort='' @ ha_sort a @ ''&limit=40''"

definition showBufferList :: "buffer_row list \<Rightarrow> right_pane \<Rightarrow> (string \<times> int \<times> int) list js_result" where
  \<comment> \<open>the response: the table exists only while the pane is that of the hang analyzer\<close>
  "showBufferList res p =
     (case rp_pane p of
        HangPane _ \<Rightarrow> Inr (map (\<lambda>b. (br_buffer b, br_level b, br_cap b)) res)
      | _ \<Rightarrow> Inl TypeError)"

subsection \<open>Reachable states\<close>

datatype pane_event = ClickHangAnalyzer | ClickHangRefresh | ClickTrafficRefresh | OpenView string | OpenProfile | SortBy string

fun pane_enabled :: "pane_event \<Rightarrow> right_pane \<Rightarrow> bool" where
  \<comment> \<open>a refresh button can be clicked while it is in the pane\<close>
  "pane_enabled ClickHangRefresh p = (case rp_pane p of HangPane _ \<Rightarrow> True | _ \<Rightarrow> False)"
| "pane_enabled (SortBy _) p = (case rp_pane p of HangPane _ \<Rightarrow> True | _ \<Rightarrow> False)"
| "pane_enabled ClickTrafficRefresh p = (case rp_pane p of TrafficPane _ _ \<Rightarrow> True | _ \<Rightarrow> False)"
| "pane_enabled _ p = True"

fun pane_step :: "pane_event \<Rightarrow> right_pane \<Rightarrow> right_pane" where
  "pane_step ClickHangAnalyzer p = click_hang_analyzer p"
| "pane_step ClickHangRefresh p = click_hang_refresh p"
| "pane_step ClickTrafficRefresh p = (case rp_pane p of TrafficPane i _ \<Rightarrow> click_traffic_refresh i p | _ \<Rightarrow> p)"
| "pane_step (OpenView name) p = showSankey name p"
| "pane_step OpenProfile p = show_profile p"
| "pane_step (SortBy key) p = sort_hang key p"

definition pane_reachable :: "right_pane \<Rightarrow> bool" where
  "pane_reachable p = run pane_enabled pane_step new_right_pane p"

subsection \<open>Invariant\<close>

definition owned :: "right_pane \<Rightarrow> nat multiset" where
  \<comment> \<open>the timers of the objects that think they are running\<close>
  "owned p = ha.timers (rp_hang p) + sum_list (map dv.timers (rp_views p))"

definition pane_inv :: "nat multiset \<Rightarrow> right_pane \<Rightarrow> bool" where
  \<comment> \<open>\<open>R\<close> are the timers of the other parts of the page\<close>
  "pane_inv R p \<longleftrightarrow> iv_ok (rp_intervals p) \<and> mset (iv_live (rp_intervals p)) = owned p + R \<and>
     (case rp_pane p of HangPane b \<Rightarrow> b = ha_running (rp_hang p) | TrafficPane i b \<Rightarrow> i < length (rp_views p) | _ \<Rightarrow> True)"

text \<open>One view among the owners.\<close>

lemma owned_split:
  assumes "i < length (rp_views p)"
  obtains R where "owned p = dv.timers (rp_views p ! i) + R"
    and "\<forall>v. ha.timers (rp_hang p) + sum_list (map dv.timers ((rp_views p)[i := v])) = dv.timers v + R"
proof (rule that)
  let ?vs = "rp_views p"
  let ?R = "ha.timers (rp_hang p) + sum_list (map dv.timers (take i ?vs)) + sum_list (map dv.timers (drop (Suc i) ?vs))"
  have "sum_list (map dv.timers (?vs[i := v])) =
      sum_list (map dv.timers (take i ?vs)) + dv.timers v + sum_list (map dv.timers (drop (Suc i) ?vs))" for v
    using assms by (simp add: upd_conv_take_nth_drop ac_simps)
  note upd = this
  show "\<forall>v. ha.timers (rp_hang p) + sum_list (map dv.timers (?vs[i := v])) = dv.timers v + ?R"
    by (simp add: upd ac_simps)
  show "owned p = dv.timers (?vs ! i) + ?R"
    using upd [of "?vs ! i"] by (simp add: owned_def ac_simps)
qed

lemma click_hang_refresh_eq:
  "click_hang_refresh p =
     p\<lparr>rp_hang := fst (ha.toggle (rp_hang p) (rp_intervals p)), rp_intervals := snd (ha.toggle (rp_hang p) (rp_intervals p)),
       rp_pane := HangPane (\<not> ha_running (rp_hang p))\<rparr>"
  by (simp add: click_hang_refresh_def ha.toggle_def split_def Let_def)

lemma click_traffic_refresh_eq:
  "click_traffic_refresh i p =
     p\<lparr>rp_views := (rp_views p)[i := fst (dv.toggle (rp_views p ! i) (rp_intervals p))],
       rp_intervals := snd (dv.toggle (rp_views p ! i) (rp_intervals p)),
       rp_pane := TrafficPane i (\<not> dv_running (rp_views p ! i))\<rparr>"
  by (simp add: click_traffic_refresh_def dv.toggle_def split_def Let_def)

lemma inv_hang_refresh: "pane_inv R p \<Longrightarrow> pane_inv R (click_hang_refresh p)"
  using ha.toggle_frame [of "rp_intervals p" "rp_hang p" "sum_list (map dv.timers (rp_views p)) + R"]
  by (simp add: pane_inv_def click_hang_refresh_eq owned_def ha.toggle_running ac_simps)

lemma inv_traffic_refresh:
  assumes "pane_inv R p" "i < length (rp_views p)"
  shows "pane_inv R (click_traffic_refresh i p)"
proof -
  obtain Q where Q: "owned p = dv.timers (rp_views p ! i) + Q"
    "\<forall>v. ha.timers (rp_hang p) + sum_list (map dv.timers ((rp_views p)[i := v])) = dv.timers v + Q"
    by (rule owned_split [OF assms(2)])
  show ?thesis
    using assms Q dv.toggle_frame [of "rp_intervals p" "rp_views p ! i" "Q + R"]
    by (simp add: pane_inv_def click_traffic_refresh_eq owned_def ac_simps)
qed

text \<open>The content of the pane is no part of the timers.\<close>

definition timers_ok :: "nat multiset \<Rightarrow> right_pane \<Rightarrow> bool" where
  "timers_ok R p \<longleftrightarrow> iv_ok (rp_intervals p) \<and> mset (iv_live (rp_intervals p)) = owned p + R"

lemma inv_timers: "pane_inv R p \<Longrightarrow> timers_ok R p"
  by (simp add: pane_inv_def timers_ok_def)

lemma timers_ok_pane [simp]: "timers_ok R (p\<lparr>rp_pane := q\<rparr>) = timers_ok R p"
  by (simp add: timers_ok_def owned_def)

lemma prepareDom_ok:
  assumes "pane_inv R p"
  shows "timers_ok R (prepareDom p)" "rp_hang (prepareDom p) = rp_hang p" "rp_pane (prepareDom p) = HangPane True"
proof -
  have "pane_inv R (click_traffic_refresh i p)" if "rp_pane p = TrafficPane i b" for i b
    using assms that inv_traffic_refresh by (simp add: pane_inv_def)
  then show "timers_ok R (prepareDom p)"
    using assms by (auto simp: prepareDom_def inv_timers split: pane.splits bool.splits)
  show "rp_hang (prepareDom p) = rp_hang p" "rp_pane (prepareDom p) = HangPane True"
    by (auto simp: prepareDom_def click_traffic_refresh_eq split: pane.splits bool.splits)
qed

lemma inv_hang_analyzer:
  assumes "pane_inv R p"
  shows "pane_inv R (click_hang_analyzer p)"
proof -
  let ?p = "prepareDom p"
  have "ha_running (fst (ha_startAnalyzing a iv))" for a iv
    using ha.start_idle [of a iv] ha.start_running [of a iv] by (cases "ha_running a") auto
  then show ?thesis
    using prepareDom_ok [OF assms] ha.start_frame [of "rp_intervals ?p" "rp_hang ?p" "sum_list (map dv.timers (rp_views ?p)) + R"]
      ha.start_ok [of "rp_intervals ?p" "rp_hang ?p"]
    by (simp add: pane_inv_def timers_ok_def click_hang_analyzer_def split_def Let_def owned_def ac_simps)
qed

lemma inv_showSankey:
  assumes "pane_inv R p"
  shows "pane_inv R (showSankey name p)"
proof -
  let ?q = "case rp_pane p of HangPane True \<Rightarrow> click_hang_refresh p | _ \<Rightarrow> p"
  let ?v = "new_detail_view name"
  have q: "pane_inv R ?q" using assms inv_hang_refresh by (auto split: pane.splits bool.splits)
  have idle: "dv.timers ?v = {#}" by (simp add: dv.timers_def new_detail_view_def)
  show ?thesis
    using q idle dv.start_frame [of "rp_intervals ?q" ?v "owned ?q + R"] dv.start_ok [of "rp_intervals ?q" ?v]
    by (simp add: pane_inv_def showSankey_def split_def Let_def owned_def ac_simps)
qed

interpretation rp: kept_invariant pane_enabled pane_step "pane_inv R" for R
proof unfold_locales
  fix p e
  assume inv: "pane_inv R p" and enabled: "pane_enabled e p"
  show "pane_inv R (pane_step e p)"
  proof (cases e)
    case ClickTrafficRefresh
    then show ?thesis using inv_traffic_refresh [OF inv] inv by (cases "rp_pane p") (simp_all add: pane_inv_def [of R p])
  next
    case (SortBy key)
    with inv show ?thesis by (auto simp: pane_inv_def sort_hang_def owned_def ha.timers_def split: pane.splits)
  next
    case OpenProfile
    with inv show ?thesis by (simp add: pane_inv_def show_profile_def owned_def)
  qed (use inv enabled in \<open>simp_all add: inv_hang_analyzer inv_hang_refresh inv_showSankey\<close>)
qed

lemma pane_reachable_inv: "pane_reachable p \<Longrightarrow> pane_inv {#} p"
proof -
  have "pane_inv {#} new_right_pane"
    by (simp add: pane_inv_def new_right_pane_def iv_ok_none owned_def ha.timers_def new_hang_analyzer_def)
      (simp add: no_intervals_def)
  then show "pane_reachable p \<Longrightarrow> pane_inv {#} p" unfolding pane_reachable_def using rp.run_keeps by blast
qed

subsection \<open>Properties\<close>

text \<open>
  Flags and timers agree: in every reachable state the live timers are one for the hang
  analyzer, when it is running, and one for each running view, and no others; an object is never
  refreshed by two timers.  While the pane is that of the hang analyzer, its button looks pressed
  exactly when the analyzer is running.
\<close>

theorem right_pane_timers:
  assumes "pane_reachable p"
  shows "distinct (iv_live (rp_intervals p)) \<and>
    length (iv_live (rp_intervals p)) =
      (if ha_running (rp_hang p) then 1 else 0) + length (filter dv_running (rp_views p)) \<and>
    (ha_running (rp_hang p) \<longrightarrow> ha_intervalHandle (rp_hang p) \<in> set (iv_live (rp_intervals p))) \<and>
    (\<forall>v \<in> set (rp_views p). dv_running v \<longrightarrow> dv_intervalHandle v \<in> set (iv_live (rp_intervals p))) \<and>
    (\<forall>b. rp_pane p = HangPane b \<longrightarrow> b = ha_running (rp_hang p))"
proof -
  have inv: "pane_inv {#} p" by (rule pane_reachable_inv [OF assms])
  then have live: "mset (iv_live (rp_intervals p)) = owned p" by (simp add: pane_inv_def)
  have sizes: "size (sum_list (map dv.timers vs)) = length (filter dv_running vs)" for vs
    by (induction vs) (simp_all add: dv.timers_def)
  have mem: "dv.timers v \<subseteq># sum_list (map dv.timers vs)" if "v \<in> set vs" for v vs
    using that by (induction vs) (auto intro: subset_mset.add_increasing subset_mset.add_increasing2)
  have "length (iv_live (rp_intervals p)) = size (owned p)" using arg_cong [OF live, of size] by simp
  then have "length (iv_live (rp_intervals p)) =
      (if ha_running (rp_hang p) then 1 else 0) + length (filter dv_running (rp_views p))"
    by (simp add: owned_def sizes ha.timers_def)
  moreover have "set (iv_live (rp_intervals p)) = set_mset (owned p)" using live by (metis set_mset_mset)
  moreover have "dv_intervalHandle v \<in># owned p" if "v \<in> set (rp_views p)" "dv_running v" for v
    using mset_subset_eqD [OF mem [OF that(1)]] that(2) by (simp add: owned_def dv.timers_def)
  ultimately show ?thesis using inv
    by (auto simp: pane_inv_def iv_ok_def owned_def ha.timers_def split: pane.splits)
qed

theorem right_pane_timers_witness:
  "length (iv_live (rp_intervals (pane_step (OpenView ''A'') (pane_step ClickHangAnalyzer new_right_pane)))) = 1"
proof -
  let ?p = "pane_step (OpenView ''A'') (pane_step ClickHangAnalyzer new_right_pane)"
  have "pane_reachable ?p" unfolding pane_reachable_def by (intro run.intros) simp_all
  note right_pane_timers [OF this]
  moreover have "\<not> ha_running (rp_hang ?p)" "length (filter dv_running (rp_views ?p)) = 1" by code_simp+
  ultimately show ?thesis by simp
qed

lemma showSankey_fields:
  assumes "rp_pane p \<noteq> HangPane True"
  shows "rp_hang (showSankey n p) = rp_hang p" "rp_pane (showSankey n p) = TrafficPane (length (rp_views p)) False"
    "iv_live (rp_intervals (showSankey n p)) = iv_live (rp_intervals p) @ [fst (setInterval (rp_intervals p))]"
proof -
  have "(case rp_pane p of HangPane True \<Rightarrow> click_hang_refresh p | _ \<Rightarrow> p) = p"
    using assms by (auto split: pane.splits bool.splits)
  then show "rp_hang (showSankey n p) = rp_hang p" "rp_pane (showSankey n p) = TrafficPane (length (rp_views p)) False"
    "iv_live (rp_intervals (showSankey n p)) = iv_live (rp_intervals p) @ [fst (setInterval (rp_intervals p))]"
    by (simp_all add: showSankey_def dv_startAnalyzing_def new_detail_view_def split_def Let_def)
qed

text \<open>
  Views that are no longer shown keep polling: opening component views one after the other
  leaves one live timer for each of them, although the pane shows only the last, and starting the
  hang analyzer stops none of them.
\<close>

theorem traffic_timers_leak:
  "length (iv_live (rp_intervals (foldl (\<lambda>p n. showSankey n p) new_right_pane names))) = length names \<and>
   length (iv_live (rp_intervals (click_hang_analyzer (foldl (\<lambda>p n. showSankey n p) new_right_pane names)))) =
     length names + 1"
proof -
  let ?p = "foldl (\<lambda>p n. showSankey n p) new_right_pane"
  have quiet: "\<not> ha_running (rp_hang (?p names)) \<and> (\<forall>i. rp_pane (?p names) \<noteq> TrafficPane i True) \<and>
      (\<forall>b. rp_pane (?p names) \<noteq> HangPane b) \<and> length (iv_live (rp_intervals (?p names))) = length names" for names
  proof (induction names rule: rev_induct)
    case Nil
    show ?case by (simp add: new_right_pane_def new_hang_analyzer_def no_intervals_def)
  next
    case (snoc n ns)
    have "rp_pane (?p ns) \<noteq> HangPane True" using snoc by blast
    from showSankey_fields [OF this, of n] snoc show ?case by simp
  qed
  have "prepareDom (?p names) = (?p names)\<lparr>rp_pane := HangPane True\<rparr>"
    using quiet [of names] by (auto simp: prepareDom_def split: pane.splits bool.splits)
  then show ?thesis using quiet [of names]
    by (simp add: click_hang_analyzer_def ha_startAnalyzing_def split_def Let_def)
qed

end
