(* ===== verification/Progress_Bars.thy ===== *)
theory Progress_Bars
  imports Js_Number Js_Collections Ui_Manager
begin

text \<open>
  \<open>monitoring/web/src/progress_bar.ts\<close>: the progress bars at the bottom of the monitor.  Up to
  two of them are drawn as bars, more as pies; each response of the server adds, updates and
  removes elements.  A removed element leaves with an animation, at whose end the panes get a new
  height.
\<close>

subsection \<open>State\<close>

record progress =
  pb_id :: string
  pb_name :: string
  pb_total :: js_num
  pb_in_progress :: js_num
  pb_finished :: js_num

record progress_dom =
  pd_pie :: bool \<comment> \<open>\<open>ProgressPieDom\<close> or \<open>ProgressBarDom\<close>\<close>
  pd_label :: string
  pd_values :: "js_num list" \<comment> \<open>the widths in percent or the degrees that \<open>set\<close> wrote\<close>

record progress_manager =
  pm_pie :: bool \<comment> \<open>\<open>mode\<close> is \<open>pie\<close> and not \<open>bar\<close>\<close>
  pm_doms :: "(string, progress_dom) js_map"
  pm_leaving :: "progress_dom list" \<comment> \<open>elements whose animation is not over\<close>
  pm_ui :: ui
  pm_layout :: "(bool \<times> string) multiset \<Rightarrow> rat"
    \<comment> \<open>the height that the browser gives the container for the kinds and labels of its elements\<close>

definition maxProgressBars :: nat where
  "maxProgressBars = 2"

definition new_progress_manager :: "((bool \<times> string) multiset \<Rightarrow> rat) \<Rightarrow> ui \<Rightarrow> progress_manager" where
  "new_progress_manager layout u = \<lparr> pm_pie = False, pm_doms = [], pm_leaving = [], pm_ui = u, pm_layout = layout \<rparr>"

subsection \<open>Elements\<close>

definition bar_widths :: "progress \<Rightarrow> js_num list" where
  \<comment> \<open>\<open>ProgressBarDom.set\<close>; a falsy number of finished tasks counts as zero\<close>
  "bar_widths b =
     (let finished = (if pb_finished b \<in> {0, NaN, Undef} then 0 else pb_finished b);
          unfinished = pb_total b - pb_in_progress b - finished
      in [finished / pb_total b * 100, pb_in_progress b / pb_total b * 100, unfinished / pb_total b * 100])"

definition pie_degrees :: "progress \<Rightarrow> js_num list" where
  \<comment> \<open>\<open>ProgressPieDom.set\<close>: the end of the finished and of the running sector\<close>
  "pie_degrees b =
     (let finishedDegree = pb_finished b / pb_total b * 360;
          inProgressDegree = pb_in_progress b / pb_total b * 360
      in [finishedDegree, finishedDegree + inProgressDegree])"

definition set_dom :: "progress \<Rightarrow> progress_dom \<Rightarrow> progress_dom" where
  \<comment> \<open>\<open>dom.set(pBar)\<close>\<close>
  "set_dom b d = d\<lparr>pd_values := (if pd_pie d then pie_degrees b else bar_widths b)\<rparr>"

definition create_dom :: "bool \<Rightarrow> progress \<Rightarrow> progress_dom" where
  "create_dom pie b = \<lparr> pd_pie = pie, pd_label = pb_name b, pd_values = [] \<rparr>"

definition createProgressBarDom :: "progress \<Rightarrow> progress_manager \<Rightarrow> progress_manager" where
  \<comment> \<open>\<open>show\<close> of a bar also resizes the panes\<close>
  "createProgressBarDom b m =
     m\<lparr>pm_doms := map_set (pb_id b) (create_dom False b) (pm_doms m), pm_ui := ui_resize (pm_ui m)\<rparr>"

definition createProgressPieDom :: "progress \<Rightarrow> progress_manager \<Rightarrow> progress_manager" where
  "createProgressPieDom b m = m\<lparr>pm_doms := map_set (pb_id b) (create_dom True b) (pm_doms m)\<rparr>"

definition update_dom :: "progress \<Rightarrow> progress_manager \<Rightarrow> progress_manager" where
  "update_dom b m =
     (case map_get (pm_doms m) (pb_id b) of
        None \<Rightarrow> m
      | Some d \<Rightarrow> m\<lparr>pm_doms := map_set (pb_id b) (set_dom b d) (pm_doms m)\<rparr>)"

definition elements :: "progress_manager \<Rightarrow> (bool \<times> string) multiset" where
  \<comment> \<open>what is in the container, leaving elements included\<close>
  "elements m = mset (map (\<lambda>d. (pd_pie d, pd_label d)) (map snd (pm_doms m) @ pm_leaving m))"

definition adjust_panes :: "progress_manager \<Rightarrow> progress_manager" where
  \<comment> \<open>\<open>uiManager.adjustProgressBarGroupHeight()\<close>, which reads the height of the container\<close>
  "adjust_panes m =
     m\<lparr>pm_ui := adjustProgressBarGroupHeight ((pm_ui m)\<lparr>ui_window := (ui_window (pm_ui m))
       \<lparr>progressHeight := pm_layout m (elements m)\<rparr>\<rparr>)\<rparr>"

definition showOrUpdateProgressBarAsBar :: "progress \<Rightarrow> progress_manager \<Rightarrow> progress_manager" where
  "showOrUpdateProgressBarAsBar b m =
     update_dom b (if map_get (pm_doms m) (pb_id b) = None then adjust_panes (createProgressBarDom b m) else m)"

definition showOrUpdateProgressBarAsPie :: "progress \<Rightarrow> progress_manager \<Rightarrow> progress_manager" where
  "showOrUpdateProgressBarAsPie b m =
     update_dom b (if map_get (pm_doms m) (pb_id b) = None then adjust_panes (createProgressPieDom b m) else m)"

subsection \<open>Removal\<close>

definition remove_doms :: "(string \<Rightarrow> bool) \<Rightarrow> progress_manager \<Rightarrow> progress_manager" where
  \<comment> \<open>delete the elements with such a key and start their animation\<close>
  "remove_doms P m = m\<lparr>pm_leaving := pm_leaving m @ map snd (filter (\<lambda>(k, d). P k) (pm_doms m)),
     pm_doms := filter (\<lambda>(k, d). \<not> P k) (pm_doms m)\<rparr>"

definition removeAllProgressDoms :: "progress_manager \<Rightarrow> progress_manager" where
  "removeAllProgressDoms m = remove_doms (\<lambda>_. True) m"

definition removeCompletedProgressDoms :: "progress list \<Rightarrow> progress_manager \<Rightarrow> progress_manager" where
  "removeCompletedProgressDoms pBars m = remove_doms (\<lambda>k. k \<notin> set (map pb_id pBars)) m"

definition animation_end :: "progress_manager \<Rightarrow> progress_manager" where
  \<comment> \<open>the first pending promise resolves\<close>
  "animation_end m = (if pm_leaving m = [] then m else adjust_panes (m\<lparr>pm_leaving := tl (pm_leaving m)\<rparr>))"

subsection \<open>Rendering\<close>

definition renderProgressAsBars :: "progress list \<Rightarrow> progress_manager \<Rightarrow> progress_manager" where
  "renderProgressAsBars pBars m =
     removeCompletedProgressDoms pBars (foldl (\<lambda>m b. showOrUpdateProgressBarAsBar b m) m pBars)"

definition renderProgressAsPies :: "progress list \<Rightarrow> progress_manager \<Rightarrow> progress_manager" where
  "renderProgressAsPies pBars m =
     removeCompletedProgressDoms pBars (foldl (\<lambda>m b. showOrUpdateProgressBarAsPie b m) m pBars)"

definition renderProgress :: "progress list \<Rightarrow> progress_manager \<Rightarrow> progress_manager" where
  "renderProgress pBars m =
     (let m1 = (if \<not> pm_pie m \<and> length pBars > maxProgressBars then removeAllProgressDoms (m\<lparr>pm_pie := True\<rparr>) else m);
          m2 = (if pm_pie m1 \<and> length pBars \<le> maxProgressBars then removeAllProgressDoms (m1\<lparr>pm_pie := False\<rparr>) else m1);
          m3 = (if \<not> pm_pie m2 then renderProgressAsBars pBars m2 else m2)
      in if pm_pie m3 then renderProgressAsPies pBars m3 else m3)"

definition refreshProgressBars :: "progress list option \<Rightarrow> progress_manager \<Rightarrow> progress_manager" where
  \<comment> \<open>the response, which is \<open>null\<close> when there is no progress bar\<close>
  "refreshProgressBars res m = (case res of None \<Rightarrow> m | Some pBars \<Rightarrow> renderProgress pBars m)"

subsection \<open>Invariant\<close>

definition progress_inv :: "progress_manager \<Rightarrow> bool" where
  \<comment> \<open>all elements are of the kind of the mode\<close>
  "progress_inv m \<longleftrightarrow> map_ok (pm_doms m) \<and> (\<forall>k d. map_get (pm_doms m) k = Some d \<longrightarrow> pd_pie d = pm_pie m)"

definition show_one :: "bool \<Rightarrow> progress \<Rightarrow> progress_manager \<Rightarrow> progress_manager" where
  "show_one pie = (if pie then showOrUpdateProgressBarAsPie else showOrUpdateProgressBarAsBar)"

definition shown_as :: "bool \<Rightarrow> progress \<Rightarrow> progress_dom option \<Rightarrow> progress_dom" where
  \<comment> \<open>the element of a progress after an update, with the label it got when it was created\<close>
  "shown_as pie b old =
     \<lparr> pd_pie = pie, pd_label = (case old of None \<Rightarrow> pb_name b | Some d \<Rightarrow> pd_label d),
       pd_values = (if pie then pie_degrees b else bar_widths b) \<rparr>"

lemma adjust_panes_fields [simp]:
  "pm_doms (adjust_panes m) = pm_doms m" "pm_pie (adjust_panes m) = pm_pie m" "pm_leaving (adjust_panes m) = pm_leaving m"
  by (simp_all add: adjust_panes_def)

lemma show_one_doms:
  assumes "progress_inv m"
  shows "map_get (pm_doms (show_one (pm_pie m) b m)) =
      (map_get (pm_doms m))(pb_id b \<mapsto> shown_as (pm_pie m) b (map_get (pm_doms m) (pb_id b)))"
    and "map_ok (pm_doms (show_one (pm_pie m) b m))" and "pm_pie (show_one (pm_pie m) b m) = pm_pie m"
    and "pm_leaving (show_one (pm_pie m) b m) = pm_leaving m"
  using assms
  by (auto simp: show_one_def showOrUpdateProgressBarAsPie_def showOrUpdateProgressBarAsBar_def update_dom_def
      createProgressBarDom_def createProgressPieDom_def create_dom_def set_dom_def shown_as_def progress_inv_def
      update_conv' jm.invar_put split: option.splits)

lemma show_one_inv: "progress_inv m \<Longrightarrow> progress_inv (show_one (pm_pie m) b m)"
  using show_one_doms [of m b] by (auto simp: progress_inv_def shown_as_def)

lemma filter_key_get: "map_get (filter (\<lambda>(k, d). P k) m) k = (if P k then map_get m k else None)"
  by (induction m) auto

lemma filter_key_ok: "map_ok m \<Longrightarrow> map_ok (filter P m)"
  by (induction m) auto

definition show_all :: "progress list \<Rightarrow> progress_manager \<Rightarrow> progress_manager" where
  "show_all bs m = foldl (\<lambda>m b. show_one (pm_pie m) b m) m bs"

lemma show_all_Cons: "show_all (b # bs) m = show_all bs (show_one (pm_pie m) b m)"
  by (simp add: show_all_def)

lemma show_all_inv: "progress_inv m \<Longrightarrow> progress_inv (show_all bs m) \<and> pm_pie (show_all bs m) = pm_pie m"
proof (induction bs arbitrary: m)
  case (Cons b bs)
  then show ?case using show_one_inv show_one_doms(3) by (simp add: show_all_Cons)
qed (simp add: show_all_def)

lemma show_all_get:
  assumes "progress_inv m" "distinct (map pb_id bs)"
  shows "map_get (pm_doms (show_all bs m)) k =
    (case find (\<lambda>b. pb_id b = k) bs of None \<Rightarrow> map_get (pm_doms m) k
     | Some b \<Rightarrow> Some (shown_as (pm_pie m) b (map_get (pm_doms m) k)))"
  using assms
proof (induction bs arbitrary: m)
  case (Cons b bs)
  let ?m = "show_one (pm_pie m) b m"
  have "find (\<lambda>c. pb_id c = pb_id b) bs = None"
    using Cons.prems(2) unfolding find_None_iff by (simp add: image_iff) metis
  then show ?case
    using Cons.IH [OF show_one_inv [OF Cons.prems(1)], of b] Cons.prems show_one_doms [OF Cons.prems(1), of b]
    by (auto simp: show_all_Cons split: option.splits)
qed (simp add: show_all_def)

lemma fold_show:
  assumes "progress_inv m" "pm_pie m = pm_pie n"
  shows "foldl (\<lambda>m b. show_one (pm_pie n) b m) m bs = show_all bs m"
  using assms
proof (induction bs arbitrary: m)
  case (Cons b bs)
  then show ?case using show_one_inv [of m b] show_one_doms(3) [of m b] by (simp add: show_all_Cons)
qed (simp add: show_all_def)

lemma remove_doms_inv: "progress_inv m \<Longrightarrow> progress_inv (remove_doms P m)"
  by (auto simp: progress_inv_def remove_doms_def filter_key_ok filter_key_get [of "\<lambda>k. \<not> P k"] split: if_splits)

definition prepared :: "progress list \<Rightarrow> progress_manager \<Rightarrow> progress_manager" where
  \<comment> \<open>the state after the switch of the mode\<close>
  "prepared bs m =
     (if pm_pie m = (length bs > maxProgressBars) then m else removeAllProgressDoms (m\<lparr>pm_pie := \<not> pm_pie m\<rparr>))"

lemma prepared_inv: "progress_inv m \<Longrightarrow> progress_inv (prepared bs m) \<and> pm_pie (prepared bs m) = (length bs > maxProgressBars)"
  by (auto simp: prepared_def removeAllProgressDoms_def remove_doms_def progress_inv_def)

lemma renderProgress_eq:
  assumes "progress_inv m"
  shows "renderProgress bs m = removeCompletedProgressDoms bs (show_all bs (prepared bs m))"
proof -
  let ?m = "prepared bs m"
  have inv: "progress_inv ?m" and pie: "pm_pie ?m = (length bs > maxProgressBars)"
    using prepared_inv [OF assms] by auto
  have fold: "foldl (\<lambda>m b. show_one (pm_pie ?m) b m) ?m bs = show_all bs ?m" by (rule fold_show [OF inv refl])
  have keep: "pm_pie (removeCompletedProgressDoms bs (show_all bs ?m)) = pm_pie ?m"
    using show_all_inv [OF inv] by (simp add: removeCompletedProgressDoms_def remove_doms_def)
  have "renderProgress bs m = (let m3 = (if \<not> pm_pie ?m then renderProgressAsBars bs ?m else ?m)
      in if pm_pie m3 then renderProgressAsPies bs m3 else m3)"
    by (cases "pm_pie m"; cases "length bs > maxProgressBars")
      (simp_all add: renderProgress_def prepared_def removeAllProgressDoms_def remove_doms_def)
  then show ?thesis using fold keep
    by (cases "pm_pie ?m") (simp_all add: renderProgressAsBars_def renderProgressAsPies_def show_one_def)
qed

subsection \<open>Properties\<close>

text \<open>
  (C23) The bottom of the monitor shows the last response: when no two progress bars of it have the
  same identifier, there is one element for each of them and no other, pies when there are more
  than two and bars otherwise, and each shows the numbers of its progress bar.  The property that
  all elements are of one kind is kept.
\<close>

theorem progress_shows_response:
  assumes "progress_inv m" "distinct (map pb_id bs)" "m' = renderProgress bs m"
  shows "progress_inv m' \<and> pm_pie m' = (2 < length bs) \<and> set (map_keys (pm_doms m')) = pb_id ` set bs \<and>
    (\<forall>b \<in> set bs. \<exists>d. map_get (pm_doms m') (pb_id b) = Some d \<and> pd_pie d = (2 < length bs) \<and>
       pd_values d = (if 2 < length bs then pie_degrees b else bar_widths b))"
proof -
  let ?p = "prepared bs m"
  have inv: "progress_inv ?p" and pie: "pm_pie ?p = (2 < length bs)"
    using prepared_inv [OF assms(1)] by (auto simp: maxProgressBars_def)
  note all = show_all_inv [OF inv, of bs]
  have m': "m' = remove_doms (\<lambda>k. k \<notin> set (map pb_id bs)) (show_all bs ?p)"
    by (simp add: assms(3) renderProgress_eq [OF assms(1)] removeCompletedProgressDoms_def)
  have found: "find (\<lambda>c. pb_id c = pb_id b) bs = Some b" if "b \<in> set bs" for b
    using that assms(2) by (induction bs) (auto simp: rev_image_eqI)
  have get: "map_get (pm_doms m') k = (if k \<in> pb_id ` set bs then map_get (pm_doms (show_all bs ?p)) k else None)" for k
    by (simp add: m' remove_doms_def filter_key_get [of "\<lambda>k. \<not> (k \<notin> set (map pb_id bs))", simplified])
  have elem: "map_get (pm_doms m') (pb_id b) = Some (shown_as (2 < length bs) b (map_get (pm_doms ?p) (pb_id b)))"
    if "b \<in> set bs" for b
    using that by (simp add: get show_all_get [OF inv assms(2)] found pie)
  have "set (map_keys (pm_doms m')) = pb_id ` set bs"
    unfolding jm.keys_dom using elem get by (auto simp: dom_def)
  moreover have "progress_inv m'" unfolding m' by (rule remove_doms_inv) (use all in blast)
  moreover have "pm_pie m' = (2 < length bs)" using all pie by (simp add: m' remove_doms_def)
  ultimately show ?thesis using elem by (simp add: shown_as_def)
qed

definition sample_bars :: "progress list" where
  "sample_bars = [\<lparr>pb_id = ''a'', pb_name = ''Kernel'', pb_total = 10, pb_in_progress = 2, pb_finished = 5\<rparr>]"

theorem progress_shows_response_witness:
  "set (map_keys (pm_doms (renderProgress sample_bars (new_progress_manager (\<lambda>es. 30 * of_nat (size es)) (new_ui sample_window))))) = {''a''}"
proof -
  have "progress_inv (new_progress_manager (\<lambda>es. 30 * of_nat (size es)) (new_ui sample_window))" "distinct (map pb_id sample_bars)"
    by (simp_all add: progress_inv_def new_progress_manager_def sample_bars_def)
  from progress_shows_response [OF this refl] show ?thesis by (simp add: sample_bars_def)
qed

text \<open>
  The parts of a bar cover it: the widths of the finished, the running and the remaining part
  add up to 100 percent, and a pie ends its running sector at the same share of 360 degrees.
\<close>

theorem progress_parts_cover:
  assumes "pb_total b = Num t" "pb_in_progress b = Num p" "pb_finished b = Num f" "0 < t" "0 \<le> p" "0 \<le> f" "p + f \<le> t"
  shows "\<exists>x y z. bar_widths b = [Num x, Num y, Num z] \<and> 0 \<le> x \<and> 0 \<le> y \<and> 0 \<le> z \<and> x + y + z = 100 \<and>
    pie_degrees b = [Num (x * 36 / 10), Num ((x + y) * 36 / 10)] \<and> (x + y) * 36 / 10 \<le> 360"
proof (intro exI conjI)
  have "(if Num f \<in> {0, NaN, Undef} then 0 else Num f) = Num f" by (auto simp: zero_js_num_def)
  then show "bar_widths b = [Num (f / t * 100), Num (p / t * 100), Num ((t - p - f) / t * 100)]"
    using assms by (simp add: bar_widths_def js_num_simps)
  show "pie_degrees b = [Num (f / t * 100 * 36 / 10), Num ((f / t * 100 + p / t * 100) * 36 / 10)]"
    using assms by (simp add: pie_degrees_def js_num_simps)
  show "f / t * 100 + p / t * 100 + (t - p - f) / t * 100 = 100" using assms(4) by (simp add: field_simps)
  show "(f / t * 100 + p / t * 100) * 36 / 10 \<le> 360" using assms(4,7) by (simp add: field_simps)
qed (use assms in simp_all)

theorem progress_parts_cover_witness: "\<exists>x y z. bar_widths (hd sample_bars) = [Num x, Num y, Num z] \<and> x + y + z = 100"
  using progress_parts_cover [of "hd sample_bars" 10 2 5] by (simp add: sample_bars_def js_num_simps) blast

subsection \<open>The panes above the progress bars\<close>

definition panes_fit :: "progress_manager \<Rightarrow> bool" where
  \<comment> \<open>the rows fill the window, with the height that the container has now\<close>
  "panes_fit m \<longleftrightarrow> heights_inv (pm_ui m) \<and> progressHeight (ui_window (pm_ui m)) = pm_layout m (elements m)"

datatype progress_event = Response "progress list option" | AnimationEnd | UiEvent ui_event

fun progress_step :: "progress_event \<Rightarrow> progress_manager \<Rightarrow> progress_manager" where
  "progress_step (Response res) m = refreshProgressBars res m"
| "progress_step AnimationEnd m = animation_end m"
| "progress_step (UiEvent e) m = m\<lparr>pm_ui := ui_step e (pm_ui m)\<rparr>"

fun progress_allowed :: "progress_event \<Rightarrow> progress_manager \<Rightarrow> bool" where
  "progress_allowed (UiEvent e) m = undisturbed e (pm_ui m)"
| "progress_allowed _ m = True"

abbreviation progress_run :: "progress_manager \<Rightarrow> progress_manager \<Rightarrow> bool" where
  "progress_run \<equiv> run progress_allowed progress_step"

lemma adjust_panes_fit: "panes_fit (adjust_panes m)"
proof -
  have "elements (adjust_panes m) = elements m" by (simp add: elements_def)
  then show ?thesis
    by (simp add: panes_fit_def adjust_panes_def adjustProgressBarGroupHeight_def resize_heights_inv freeHeight_def)
qed

lemma map_set_same:
  "map_get xs k = Some d \<Longrightarrow> f d' = f d \<Longrightarrow> map f (map snd (map_set k d' xs)) = map f (map snd xs)"
  by (induction xs) auto

lemma update_dom_fit: "panes_fit (update_dom b m) = panes_fit m"
proof -
  have "elements (update_dom b m) = elements m"
    by (auto simp: elements_def update_dom_def set_dom_def map_set_same [of _ _ _ "\<lambda>d. (pd_pie d, pd_label d)"]
        simp del: map_map mset_map split: option.split)
  then show ?thesis by (auto simp: panes_fit_def update_dom_def split: option.split)
qed

lemma show_one_fit: "panes_fit m \<Longrightarrow> panes_fit (show_one (pm_pie m) b m)"
  by (simp add: show_one_def showOrUpdateProgressBarAsPie_def showOrUpdateProgressBarAsBar_def update_dom_fit adjust_panes_fit)

lemma show_all_fit: "panes_fit m \<Longrightarrow> panes_fit (show_all bs m)"
proof (induction bs arbitrary: m)
  case (Cons b bs)
  then show ?case by (simp add: show_all_Cons show_one_fit)
qed (simp add: show_all_def)

text \<open>An element stays in the container until its animation ends.\<close>

lemma remove_doms_elements: "elements (remove_doms P m) = elements m"
proof -
  have "mset (map f (map snd (filter (\<lambda>(k, d). \<not> P k) xs))) + mset (map f (map snd (filter (\<lambda>(k, d). P k) xs))) =
      mset (map f (map snd xs))" for f :: "progress_dom \<Rightarrow> bool \<times> string" and xs
    by (induction xs) auto
  note part = this [of "\<lambda>d. (pd_pie d, pd_label d)" "pm_doms m"]
  show ?thesis unfolding elements_def map_append mset_append part [symmetric]
    by (simp add: remove_doms_def del: map_map mset_map)
qed

lemma remove_doms_fit: "panes_fit (remove_doms P m) = panes_fit m"
  by (simp add: panes_fit_def remove_doms_elements) (simp add: remove_doms_def)

lemma fit_mode: "panes_fit (m\<lparr>pm_pie := p\<rparr>) = panes_fit m"
  by (simp add: panes_fit_def elements_def)

lemma prepared_fit: "panes_fit m \<Longrightarrow> panes_fit (prepared bs m)"
  by (simp add: prepared_def removeAllProgressDoms_def remove_doms_fit fit_mode)

lemma response_inv:
  assumes "progress_inv m" "panes_fit m"
  shows "progress_inv (refreshProgressBars res m) \<and> panes_fit (refreshProgressBars res m)"
proof (cases res)
  case (Some bs)
  have "progress_inv (prepared bs m)" "panes_fit (prepared bs m)" using assms prepared_inv prepared_fit by auto
  then show ?thesis using Some show_all_inv [of "prepared bs m" bs]
    by (simp add: refreshProgressBars_def renderProgress_eq [OF assms(1)] removeCompletedProgressDoms_def
        remove_doms_inv remove_doms_fit show_all_fit)
qed (simp add: refreshProgressBars_def assms)

lemma animation_inv:
  "progress_inv m \<Longrightarrow> panes_fit m \<Longrightarrow> progress_inv (animation_end m) \<and> panes_fit (animation_end m)"
  by (auto simp: animation_end_def progress_inv_def adjust_panes_fit)

lemma undisturbed_window: "undisturbed e u \<Longrightarrow> ui_window (ui_step e u) = ui_window u"
  by (cases e) (simp_all add: undisturbed_def ui_ops Let_def)

text \<open>Whatever the manager does to the panes, it does through their operations.\<close>

abbreviation any_ui_run :: "ui \<Rightarrow> ui \<Rightarrow> bool" where
  "any_ui_run \<equiv> ui_run (\<lambda>_ _. True)"

lemma adjust_ui_run: "any_ui_run (pm_ui m) (pm_ui (adjust_panes m))"
proof -
  have "any_ui_run (pm_ui m) (ui_step Adjust (ui_step (ProgressResize (pm_layout m (elements m))) (pm_ui m)))"
    by (intro run.intros TrueI)
  then show ?thesis by (simp add: adjust_panes_def)
qed

lemma resize_ui_run: "any_ui_run u (ui_resize u)"
  using run_step [of "\<lambda>_ _. True" "WindowResize (innerWidth (ui_window u)) (innerHeight (ui_window u))" u ui_step] by simp

lemma show_one_ui_run: "any_ui_run (pm_ui m) (pm_ui (show_one pie b m))"
proof -
  have keep: "pm_ui (update_dom b n) = pm_ui n" for n by (simp add: update_dom_def split: option.split)
  have "any_ui_run (pm_ui m) (pm_ui (adjust_panes (createProgressBarDom b m)))"
    by (rule run_trans [OF adjust_ui_run]) (simp add: createProgressBarDom_def resize_ui_run)
  moreover have "any_ui_run (pm_ui m) (pm_ui (adjust_panes (createProgressPieDom b m)))"
    by (rule run_trans [OF adjust_ui_run]) (simp add: createProgressPieDom_def run_none)
  ultimately show ?thesis
    by (simp add: show_one_def showOrUpdateProgressBarAsPie_def showOrUpdateProgressBarAsBar_def keep run_none)
qed

lemma show_all_ui_run: "any_ui_run (pm_ui m) (pm_ui (show_all bs m))"
proof (induction bs arbitrary: m)
  case (Cons b bs)
  show ?case unfolding show_all_Cons by (rule run_trans [OF Cons show_one_ui_run])
qed (simp add: show_all_def run_none)

lemma response_ui_run: "progress_inv m \<Longrightarrow> any_ui_run (pm_ui m) (pm_ui (refreshProgressBars res m))"
proof (cases res)
  case (Some bs)
  assume "progress_inv m"
  moreover have "pm_ui (prepared bs m) = pm_ui m" by (simp add: prepared_def removeAllProgressDoms_def remove_doms_def)
  ultimately show ?thesis using Some show_all_ui_run [of "prepared bs m" bs]
    by (simp add: refreshProgressBars_def renderProgress_eq removeCompletedProgressDoms_def remove_doms_def)
qed (simp add: refreshProgressBars_def run_none)

lemma animation_ui_run: "any_ui_run (pm_ui m) (pm_ui (animation_end m))"
  using adjust_ui_run [of "m\<lparr>pm_leaving := tl (pm_leaving m)\<rparr>"] by (simp add: animation_end_def run_none)

interpretation pr: kept_invariant progress_allowed progress_step "\<lambda>m. progress_inv m \<and> panes_fit m"
proof unfold_locales
  fix m ev
  assume inv: "progress_inv m \<and> panes_fit m" and allowed: "progress_allowed ev m"
  show "progress_inv (progress_step ev m) \<and> panes_fit (progress_step ev m)"
  proof (cases ev)
    case (UiEvent e)
    then have "undisturbed e (pm_ui m)" using allowed by simp
    then show ?thesis using UiEvent inv step_heights [of "pm_ui m" e] undisturbed_window [of e "pm_ui m"]
      by (auto simp: progress_inv_def panes_fit_def elements_def undisturbed_def)
  qed (use inv in \<open>simp_all add: response_inv animation_inv\<close>)
qed

lemma animation_steps: "progress_step AnimationEnd = animation_end"
  by (intro ext) simp

lemma animations_end: "pm_leaving ((animation_end ^^ length (pm_leaving m)) m) = []"
proof (induction "length (pm_leaving m)" arbitrary: m)
  case (Suc n)
  then have "pm_leaving m \<noteq> []" by auto
  then have "length (pm_leaving (animation_end m)) = n" using Suc(2) by (simp add: animation_end_def)
  then show ?case using Suc(1) [of "animation_end m"] Suc(2) by (metis comp_apply funpow_Suc_right)
qed simp



end
