(* ===== verification/Profiler.thy ===== *)
theory Profiler
  imports Js_Collections Smart_Value
begin

text \<open>
  \<open>monitoring/web/src/resource.ts\<close>: the resource texts and the profile.  A profile is a list of
  functions and of samples, each a value and a call stack with the running function first;
  \<open>pprofDataToNetwork\<close> makes a node for each function and an edge for each call.  A node is
  referred to by its place in the array before it is sorted; reading outside the array and using
  the result raises.
\<close>

subsection \<open>Resource texts\<close>

definition formatCPUPercent :: "(js_num \<Rightarrow> string) \<Rightarrow> js_num \<Rightarrow> string" where
  \<comment> \<open>\<open>toFixed(0)\<close>, given as an argument\<close>
  "formatCPUPercent toFixed0 percent = toFixed0 percent @ ''%''"

definition byte_sizes :: "string list" where
  "byte_sizes = [''B'', ''KB'', ''MB'', ''GB'', ''TB'']"

function log1024 :: "nat \<Rightarrow> nat" where
  \<comment> \<open>\<open>Math.floor(Math.log(bytes) / Math.log(1024))\<close>, computed without rounding\<close>
  "log1024 b = (if b < 1024 then 0 else Suc (log1024 (b div 1024)))"
  by pat_completeness auto

termination log1024
  by (relation "measure id") auto

declare log1024.simps [simp del]

definition formatBytes :: "nat \<Rightarrow> string" where
  \<comment> \<open>an index beyond the table reads \<open>undefined\<close>\<close>
  "formatBytes bytes =
     (if bytes = 0 then ''0''
      else let i = log1024 bytes
           in digits (nat \<lfloor>(of_nat bytes :: rat) / 1024 ^ i + 1 / 2\<rfloor>) @ '' '' @
              (case js_nth byte_sizes i of Some s \<Rightarrow> s | None \<Rightarrow> ''undefined''))"

subsection \<open>Networks\<close>

record pprof_sample =
  ps_value :: int
  ps_stack :: "nat list" \<comment> \<open>the function identifiers, counted from one\<close>

record pprof_node =
  pn_place :: nat \<comment> \<open>the place at creation, which identifies the object\<close>
  pn_index :: nat
  pn_func :: nat \<comment> \<open>the identifier\<close>
  pn_name :: string
  pn_selfTime :: int
  pn_time :: int
  pn_edges :: "string list"
  pn_timePercentage :: js_num
  pn_selfTimePercentage :: js_num

record pprof_edge =
  pe_time :: int
  pe_timePercentage :: js_num
  pe_caller :: nat
  pe_callee :: nat

record pprof_network =
  nw_nodes :: "pprof_node list"
  nw_edges :: "(string, pprof_edge) js_map"

definition new_pprof_node :: "nat \<times> nat \<times> string \<Rightarrow> pprof_node" where
  "new_pprof_node = (\<lambda>(i, f). \<lparr> pn_place = i, pn_index = 0, pn_func = fst f, pn_name = snd f, pn_selfTime = 0, pn_time = 0, pn_edges = [],
     pn_timePercentage = 0, pn_selfTimePercentage = 0 \<rparr>)"

definition getEdgeName :: "nat \<Rightarrow> nat \<Rightarrow> string" where
  "getEdgeName callerIndex calleeIndex = digits callerIndex @ ''-'' @ digits calleeIndex"

definition add_to_node :: "bool \<Rightarrow> int \<Rightarrow> nat \<Rightarrow> pprof_node list \<Rightarrow> pprof_node list js_result" where
  \<comment> \<open>one frame; the flag tells the first frame\<close>
  "add_to_node leaf v f nodes =
     (if 1 \<le> f \<and> f \<le> length nodes
      then let n = nodes ! (f - 1)
           in Inr (nodes[f - 1 := n\<lparr>pn_time := pn_time n + v, pn_selfTime := pn_selfTime n + (if leaf then v else 0)\<rparr>])
      else Inl TypeError)"

fun add_frames :: "bool \<Rightarrow> int \<Rightarrow> nat list \<Rightarrow> pprof_node list \<Rightarrow> pprof_node list js_result" where
  "add_frames leaf v [] nodes = Inr nodes"
| "add_frames leaf v (f # fs) nodes = bind_result (add_to_node leaf v f nodes) (add_frames False v fs)"

definition getOrCreateEdge :: "nat \<Rightarrow> nat \<Rightarrow> pprof_network \<Rightarrow> pprof_network js_result" where
  "getOrCreateEdge caller callee nw =
     (case map_get (nw_edges nw) (getEdgeName caller callee) of
        Some e \<Rightarrow> Inr nw
      | None \<Rightarrow>
          if caller < length (nw_nodes nw) then
            let n = nw_nodes nw ! caller;
                name = getEdgeName caller callee
            in Inr (nw\<lparr>nw_edges := map_set name \<lparr> pe_time = 0, pe_timePercentage = 0, pe_caller = caller, pe_callee = callee \<rparr> (nw_edges nw),
                 nw_nodes := (nw_nodes nw)[caller := n\<lparr>pn_edges := pn_edges n @ [name]\<rparr>]\<rparr>)
          else Inl TypeError)"

definition add_to_edge :: "int \<Rightarrow> nat \<Rightarrow> nat \<Rightarrow> pprof_network \<Rightarrow> pprof_network js_result" where
  "add_to_edge v caller callee nw =
     bind_result (getOrCreateEdge caller callee nw) (\<lambda>nw1.
       case map_get (nw_edges nw1) (getEdgeName caller callee) of
         None \<Rightarrow> Inl TypeError
       | Some e \<Rightarrow> Inr (nw1\<lparr>nw_edges := map_set (getEdgeName caller callee) (e\<lparr>pe_time := pe_time e + v\<rparr>) (nw_edges nw1)\<rparr>))"

fun add_calls :: "int \<Rightarrow> nat list \<Rightarrow> pprof_network \<Rightarrow> pprof_network js_result" where
  "add_calls v (callee # caller # rest) nw =
     bind_result (add_to_edge v (caller - 1) (callee - 1) nw) (add_calls v (caller # rest))"
| "add_calls v _ nw = Inr nw"

definition add_sample :: "pprof_sample \<Rightarrow> pprof_network \<Rightarrow> pprof_network js_result" where
  "add_sample s nw =
     bind_result (add_frames True (ps_value s) (ps_stack s) (nw_nodes nw)) (\<lambda>nodes.
       add_calls (ps_value s) (ps_stack s) (nw\<lparr>nw_nodes := nodes\<rparr>))"

fun add_samples :: "pprof_sample list \<Rightarrow> pprof_network \<Rightarrow> pprof_network js_result" where
  "add_samples [] nw = Inr nw"
| "add_samples (s # ss) nw = bind_result (add_sample s nw) (add_samples ss)"

definition node_percentages :: "int \<Rightarrow> pprof_node \<Rightarrow> pprof_node" where
  "node_percentages totalTime n = n\<lparr>pn_selfTimePercentage := of_int_num (pn_selfTime n) / of_int_num totalTime,
     pn_timePercentage := of_int_num (pn_time n) / of_int_num totalTime\<rparr>"

definition pprofDataToNetwork :: "(nat \<times> string) list \<Rightarrow> pprof_sample list \<Rightarrow> pprof_network js_result" where
  "pprofDataToNetwork funcs sampled =
     (let totalTime = sum_list (map ps_value sampled)
      in bind_result (add_samples sampled \<lparr> nw_nodes = map new_pprof_node (enumerate 0 funcs), nw_edges = [] \<rparr>) (\<lambda>nw.
           let nodes = js_sort (\<lambda>a b. of_int_num (pn_time b) - of_int_num (pn_time a)) (map (node_percentages totalTime) (nw_nodes nw));
               edges = map (\<lambda>(k, e). (k, e\<lparr>pe_timePercentage := of_int_num (pe_time e) / of_int_num totalTime\<rparr>)) (nw_edges nw)
           in Inr \<lparr> nw_nodes = map (\<lambda>(i, n). n\<lparr>pn_index := i\<rparr>) (enumerate 0 nodes), nw_edges = edges \<rparr>))"

subsection \<open>Totals of a profile\<close>

definition self_total :: "nat \<Rightarrow> pprof_sample list \<Rightarrow> int" where
  \<comment> \<open>the samples with the function on top of the stack\<close>
  "self_total f ss = sum_list (map (\<lambda>s. if ps_stack s \<noteq> [] \<and> hd (ps_stack s) = f then ps_value s else 0) ss)"

definition time_total :: "nat \<Rightarrow> pprof_sample list \<Rightarrow> int" where
  \<comment> \<open>the samples with the function on the stack, as often as it is there\<close>
  "time_total f ss = sum_list (map (\<lambda>s. ps_value s * int (count_list (ps_stack s) f)) ss)"

definition profile_ok :: "nat \<Rightarrow> pprof_sample list \<Rightarrow> bool" where
  \<comment> \<open>the identifiers of the frames are those of the functions\<close>
  "profile_ok n ss \<longleftrightarrow> (\<forall>s \<in> set ss. \<forall>f \<in> set (ps_stack s). 1 \<le> f \<and> f \<le> n)"

definition same_funcs :: "pprof_node list \<Rightarrow> pprof_node list \<Rightarrow> bool" where
  "same_funcs ns ms \<longleftrightarrow> map pn_place ns = map pn_place ms \<and> map pn_func ns = map pn_func ms \<and> map pn_name ns = map pn_name ms"

lemma map_update_same: "g x = g (xs ! i) \<Longrightarrow> map g (xs[i := x]) = map g xs"
proof (rule nth_equalityI)
  fix j assume "g x = g (xs ! i)" "j < length (map g (xs[i := x]))"
  then show "map g (xs[i := x]) ! j = map g xs ! j" by (cases "i = j") simp_all
qed simp

lemma add_frames_ok:
  assumes "\<forall>f \<in> set fs. 1 \<le> f \<and> f \<le> length ns"
  shows "\<exists>ms. add_frames leaf v fs ns = Inr ms \<and> same_funcs ns ms \<and> length ms = length ns \<and>
    (\<forall>i < length ns. pn_time (ms ! i) = pn_time (ns ! i) + v * int (count_list fs (Suc i)) \<and>
       pn_selfTime (ms ! i) = pn_selfTime (ns ! i) + (if leaf \<and> fs \<noteq> [] \<and> hd fs = Suc i then v else 0))"
  using assms
proof (induction fs arbitrary: leaf ns)
  case Nil
  then show ?case by (simp add: same_funcs_def)
next
  case (Cons f fs)
  then have f: "1 \<le> f" "f \<le> length ns" by auto
  let ?n = "ns ! (f - 1)"
  let ?ns = "ns[f - 1 := ?n\<lparr>pn_time := pn_time ?n + v, pn_selfTime := pn_selfTime ?n + (if leaf then v else 0)\<rparr>]"
  have step: "add_to_node leaf v f ns = Inr ?ns" using f by (simp add: add_to_node_def Let_def)
  have same: "same_funcs ns ?ns" by (simp add: same_funcs_def map_update_same)
  from Cons.IH [of ?ns False] Cons.prems obtain ms where
    ms: "add_frames False v fs ?ns = Inr ms" "same_funcs ?ns ms" "length ms = length ns"
      "\<forall>i < length ns. pn_time (ms ! i) = pn_time (?ns ! i) + v * int (count_list fs (Suc i)) \<and>
         pn_selfTime (ms ! i) = pn_selfTime (?ns ! i)" by auto
  have "pn_time (ms ! i) = pn_time (ns ! i) + v * int (count_list (f # fs) (Suc i)) \<and>
      pn_selfTime (ms ! i) = pn_selfTime (ns ! i) + (if leaf \<and> f = Suc i then v else 0)" if "i < length ns" for i
    using ms(4) that f by (cases "f = Suc i") (auto simp: algebra_simps nth_list_update)
  then show ?case using step same ms(1-3) by (auto simp: same_funcs_def)
qed

text \<open>Edges leave the times of the nodes alone.\<close>

definition same_times :: "pprof_node list \<Rightarrow> pprof_node list \<Rightarrow> bool" where
  "same_times ns ms \<longleftrightarrow> same_funcs ns ms \<and> map pn_time ns = map pn_time ms \<and> map pn_selfTime ns = map pn_selfTime ms"

lemma same_times_refl [simp]: "same_times ns ns"
  by (simp add: same_times_def same_funcs_def)

lemma same_times_trans: "same_times ns ms \<Longrightarrow> same_times ms ks \<Longrightarrow> same_times ns ks"
  by (simp add: same_times_def same_funcs_def)

lemma same_times_length: "same_times ns ms \<Longrightarrow> length ms = length ns"
  by (metis same_times_def length_map)

lemma add_to_edge_ok:
  assumes "caller < length (nw_nodes nw)"
  shows "\<exists>nw'. add_to_edge v caller callee nw = Inr nw' \<and> same_times (nw_nodes nw) (nw_nodes nw')"
proof (cases "map_get (nw_edges nw) (getEdgeName caller callee)")
  case None
  then show ?thesis using assms
    by (simp add: add_to_edge_def getOrCreateEdge_def Let_def update_conv' same_times_def same_funcs_def map_update_same)
qed (simp add: add_to_edge_def getOrCreateEdge_def)

lemma add_calls_ok:
  "\<forall>f \<in> set fs. 1 \<le> f \<and> f \<le> length (nw_nodes nw) \<Longrightarrow>
   \<exists>nw'. add_calls v fs nw = Inr nw' \<and> same_times (nw_nodes nw) (nw_nodes nw')"
proof (induction v fs nw rule: add_calls.induct)
  case (1 v callee caller rest nw)
  have "caller - 1 < length (nw_nodes nw)" using "1.prems" by auto
  from add_to_edge_ok [OF this] obtain nw1 where
    nw1: "add_to_edge v (caller - 1) (callee - 1) nw = Inr nw1" "same_times (nw_nodes nw) (nw_nodes nw1)" by blast
  have "\<forall>f \<in> set (caller # rest). 1 \<le> f \<and> f \<le> length (nw_nodes nw1)"
    using "1.prems" same_times_length [OF nw1(2)] by simp
  from "1.IH" [OF this] show ?case using nw1 same_times_trans by fastforce
qed auto

definition grown :: "pprof_sample list \<Rightarrow> pprof_node list \<Rightarrow> pprof_node list \<Rightarrow> bool" where
  "grown ss ns ms \<longleftrightarrow> same_funcs ns ms \<and> length ms = length ns \<and>
     (\<forall>i < length ns. pn_time (ms ! i) = pn_time (ns ! i) + time_total (Suc i) ss \<and>
        pn_selfTime (ms ! i) = pn_selfTime (ns ! i) + self_total (Suc i) ss)"

lemma add_sample_ok:
  assumes "\<forall>f \<in> set (ps_stack s). 1 \<le> f \<and> f \<le> length (nw_nodes nw)"
  shows "\<exists>nw'. add_sample s nw = Inr nw' \<and> grown [s] (nw_nodes nw) (nw_nodes nw')"
proof -
  obtain ms where ms: "add_frames True (ps_value s) (ps_stack s) (nw_nodes nw) = Inr ms"
    "same_funcs (nw_nodes nw) ms" "length ms = length (nw_nodes nw)"
    "\<forall>i < length (nw_nodes nw). pn_time (ms ! i) = pn_time (nw_nodes nw ! i) + ps_value s * int (count_list (ps_stack s) (Suc i)) \<and>
       pn_selfTime (ms ! i) = pn_selfTime (nw_nodes nw ! i) + (if ps_stack s \<noteq> [] \<and> hd (ps_stack s) = Suc i then ps_value s else 0)"
    using add_frames_ok [OF assms, of True "ps_value s"] by auto
  obtain nw' where nw': "add_calls (ps_value s) (ps_stack s) (nw\<lparr>nw_nodes := ms\<rparr>) = Inr nw'" "same_times ms (nw_nodes nw')"
    using add_calls_ok [of "ps_stack s" "nw\<lparr>nw_nodes := ms\<rparr>" "ps_value s"] assms ms(3) by auto
  have "pn_time (nw_nodes nw' ! i) = pn_time (ms ! i) \<and> pn_selfTime (nw_nodes nw' ! i) = pn_selfTime (ms ! i)"
    if "i < length ms" for i
    using nw'(2) same_times_length [OF nw'(2)] that unfolding same_times_def by (metis nth_map)
  then have "grown [s] (nw_nodes nw) (nw_nodes nw')"
    using ms nw'(2) same_times_length [OF nw'(2)]
    by (simp add: grown_def same_times_def same_funcs_def time_total_def self_total_def)
  then show ?thesis using ms(1) nw'(1) by (simp add: add_sample_def)
qed

lemma grown_Cons: "grown [s] ns ms \<Longrightarrow> grown ss ms ks \<Longrightarrow> grown (s # ss) ns ks"
  by (simp add: grown_def same_funcs_def time_total_def self_total_def)

lemma add_samples_ok:
  "profile_ok (length (nw_nodes nw)) ss \<Longrightarrow> \<exists>nw'. add_samples ss nw = Inr nw' \<and> grown ss (nw_nodes nw) (nw_nodes nw')"
proof (induction ss arbitrary: nw)
  case Nil
  then show ?case by (simp add: grown_def same_funcs_def time_total_def self_total_def)
next
  case (Cons s ss)
  then have "\<forall>f \<in> set (ps_stack s). 1 \<le> f \<and> f \<le> length (nw_nodes nw)" by (simp add: profile_ok_def)
  from add_sample_ok [OF this] obtain nw1 where nw1: "add_sample s nw = Inr nw1" "grown [s] (nw_nodes nw) (nw_nodes nw1)" by blast
  have "profile_ok (length (nw_nodes nw1)) ss" using Cons.prems nw1(2) by (simp add: profile_ok_def grown_def)
  from Cons.IH [OF this] show ?case using nw1 grown_Cons by fastforce
qed

subsection \<open>Properties\<close>

definition node_row :: "pprof_node \<Rightarrow> string \<times> int \<times> int" where
  "node_row n = (pn_name n, pn_selfTime n, pn_time n)"

lemma sort_by_time:
  fixes ns :: "pprof_node list"
  defines "ms \<equiv> js_sort (\<lambda>a b. of_int_num (pn_time b) - of_int_num (pn_time a)) ns"
  shows "sorted_wrt (\<lambda>a b. pn_time b \<le> pn_time a) ms"
proof -
  have cmp: "(\<lambda>a b. of_int_num (pn_time b) - of_int_num (pn_time a)) = (\<lambda>a b. Num (- of_int (pn_time a)) - Num (- of_int (pn_time b)))"
    by (intro ext) (simp add: js_num_simps)
  have "ms = sort_key (\<lambda>a. val (Num (- of_int (pn_time a)))) ns"
    unfolding ms_def cmp by (rule js_sort_key) simp
  then show ?thesis using sorted_wrt_sort_key [of "\<lambda>a. val (Num (- of_int (pn_time a)))" ns] by simp
qed

lemma profile_network:
  assumes "profile_ok (length funcs) ss"
  obtains nw where "pprofDataToNetwork funcs ss = Inr nw"
    and "sorted_wrt (\<lambda>a b. pn_time b \<le> pn_time a) (nw_nodes nw)"
    and "\<forall>i < length (nw_nodes nw). pn_index (nw_nodes nw ! i) = i"
    and "mset (map node_row (nw_nodes nw)) =
      mset (map (\<lambda>i. (snd (funcs ! i), self_total (Suc i) ss, time_total (Suc i) ss)) [0..<length funcs])"
proof -
  let ?nw0 = "\<lparr> nw_nodes = map new_pprof_node (enumerate 0 funcs), nw_edges = [] \<rparr>"
  obtain nw where nw: "add_samples ss ?nw0 = Inr nw" "grown ss (nw_nodes ?nw0) (nw_nodes nw)"
    using add_samples_ok [of ?nw0 ss] assms by auto
  let ?total = "sum_list (map ps_value ss)"
  let ?sorted = "js_sort (\<lambda>a b. of_int_num (pn_time b) - of_int_num (pn_time a)) (map (node_percentages ?total) (nw_nodes nw))"
  let ?nodes = "map (\<lambda>(i, n). n\<lparr>pn_index := i\<rparr>) (enumerate 0 ?sorted)"
  let ?edges = "map (\<lambda>(k, e). (k, e\<lparr>pe_timePercentage := of_int_num (pe_time e) / of_int_num ?total\<rparr>)) (nw_edges nw)"
  have nth: "?nodes ! i = (?sorted ! i)\<lparr>pn_index := i\<rparr>" if "i < length ?sorted" for i
    using that by (simp add: nth_enumerate_eq)
  have len: "length ?nodes = length ?sorted" by simp
  have rows: "map node_row ?nodes = map node_row ?sorted" "map pn_time ?nodes = map pn_time ?sorted"
    by (rule nth_equalityI; simp add: nth_enumerate_eq node_row_def)+
  have "map node_row (map (node_percentages ?total) (nw_nodes nw)) =
      map (\<lambda>i. (snd (funcs ! i), self_total (Suc i) ss, time_total (Suc i) ss)) [0..<length funcs]"
  proof (rule nth_equalityI)
    show "length (map node_row (map (node_percentages ?total) (nw_nodes nw))) =
        length (map (\<lambda>i. (snd (funcs ! i), self_total (Suc i) ss, time_total (Suc i) ss)) [0..<length funcs])"
      using nw(2) by (simp add: grown_def)
    fix i assume "i < length (map node_row (map (node_percentages ?total) (nw_nodes nw)))"
    then have i: "i < length funcs" "i < length (nw_nodes nw)" using nw(2) by (simp_all add: grown_def)
    have "pn_name (nw_nodes nw ! i) = snd (funcs ! i)"
    proof -
      have "map pn_name (nw_nodes nw) ! i = map pn_name (map new_pprof_node (enumerate 0 funcs)) ! i"
        using nw(2) by (simp add: grown_def same_funcs_def)
      then show ?thesis using i by (simp add: new_pprof_node_def nth_enumerate_eq)
    qed
    then show "map node_row (map (node_percentages ?total) (nw_nodes nw)) ! i =
        map (\<lambda>i. (snd (funcs ! i), self_total (Suc i) ss, time_total (Suc i) ss)) [0..<length funcs] ! i"
      using nw(2) i by (simp add: grown_def node_row_def node_percentages_def new_pprof_node_def nth_enumerate_eq)
  qed
  moreover have "mset (map node_row ?sorted) = mset (map node_row (map (node_percentages ?total) (nw_nodes nw)))"
    unfolding mset_map mset_js_sort ..
  ultimately have "mset (map node_row ?nodes) =
      mset (map (\<lambda>i. (snd (funcs ! i), self_total (Suc i) ss, time_total (Suc i) ss)) [0..<length funcs])"
    unfolding rows(1) by metis
  moreover have "sorted_wrt (\<lambda>a b. pn_time b \<le> pn_time a) ?nodes"
    using sort_by_time [of "map (node_percentages ?total) (nw_nodes nw)"] rows(2)
    unfolding sorted_wrt_map [of "\<lambda>x y. y \<le> x" pn_time, symmetric] by (simp only:)
  moreover have "\<forall>i < length ?nodes. pn_index (?nodes ! i) = i" using nth len by simp
  ultimately show thesis using that [of "\<lparr>nw_nodes = ?nodes, nw_edges = ?edges\<rparr>"] nw(1)
    by (simp add: pprofDataToNetwork_def Let_def)
qed

text \<open>
  (C27) The profile is computed without error whenever the frames name functions of the profile:
  there is one node for each function, with the time of the samples in which it runs itself and
  the time of its frames, and the nodes are in the order of decreasing time, numbered by their
  place.  A function that is on a stack twice is counted twice.
\<close>

theorem profile_times:
  assumes "profile_ok (length funcs) ss"
  shows "\<exists>nw. pprofDataToNetwork funcs ss = Inr nw \<and>
    sorted_wrt (\<lambda>a b. pn_time b \<le> pn_time a) (nw_nodes nw) \<and>
    (\<forall>i < length (nw_nodes nw). pn_index (nw_nodes nw ! i) = i) \<and>
    mset (map node_row (nw_nodes nw)) =
      mset (map (\<lambda>i. (snd (funcs ! i), self_total (Suc i) ss, time_total (Suc i) ss)) [0..<length funcs])"
  by (rule profile_network [OF assms], rule exI) (intro conjI)

definition sample_profile :: "pprof_sample list" where
  "sample_profile = [\<lparr>ps_value = 5, ps_stack = [2, 1]\<rparr>, \<lparr>ps_value = 3, ps_stack = [1]\<rparr>]"

theorem profile_times_witness:
  "\<exists>nw. pprofDataToNetwork [(1, ''main''), (2, ''tick'')] sample_profile = Inr nw \<and>
     mset (map node_row (nw_nodes nw)) = {#(''main'', 3, 8), (''tick'', 5, 5)#}"
proof -
  have "profile_ok (length [(1 :: nat, ''main''), (2, ''tick'')]) sample_profile"
    by (simp add: profile_ok_def sample_profile_def)
  from profile_times [OF this] show ?thesis
    by (auto simp: self_total_def time_total_def sample_profile_def)
qed

lemma self_total_sum:
  "profile_ok n ss \<Longrightarrow> (\<Sum>i \<leftarrow> [0..<n]. self_total (Suc i) ss) = sum_list (map ps_value (filter (\<lambda>s. ps_stack s \<noteq> []) ss))"
proof (induction ss)
  case Nil
  then show ?case by (simp add: self_total_def sum_list_0)
next
  case (Cons s ss)
  have split: "self_total f (s # ss) = (if ps_stack s \<noteq> [] \<and> hd (ps_stack s) = f then ps_value s else 0) + self_total f ss" for f
    by (simp add: self_total_def)
  have one: "(\<Sum>i \<leftarrow> [0..<n]. if ps_stack s \<noteq> [] \<and> hd (ps_stack s) = Suc i then ps_value s else 0) =
      (if ps_stack s \<noteq> [] then ps_value s else 0)"
  proof (cases "ps_stack s")
    case (Cons f fs)
    then have f: "1 \<le> f" "f \<le> n" using Cons.prems by (auto simp: profile_ok_def)
    have "(\<Sum>i \<leftarrow> [0..<n]. if f = Suc i then ps_value s else 0) = (\<Sum>i \<in> {0..<n}. if i = f - 1 then ps_value s else 0)"
      unfolding sum_list_distinct_conv_sum_set [OF distinct_upt] set_upt using f by (intro sum.cong) auto
    also have "\<dots> = ps_value s" using f by (subst sum.delta) auto
    finally show ?thesis using Cons by simp
  qed (simp add: sum_list_0)
  show ?case using Cons by (simp add: split sum_list_addf one profile_ok_def)
qed

text \<open>
  No time is lost or counted twice among the functions that run: the self times of all nodes
  add up to the total value of the samples that have a stack.
\<close>

theorem profile_self_times_sum:
  assumes "profile_ok (length funcs) ss" "pprofDataToNetwork funcs ss = Inr nw"
  shows "sum_list (map pn_selfTime (nw_nodes nw)) = sum_list (map ps_value (filter (\<lambda>s. ps_stack s \<noteq> []) ss))"
proof -
  have "mset (map node_row (nw_nodes nw)) =
      mset (map (\<lambda>i. (snd (funcs ! i), self_total (Suc i) ss, time_total (Suc i) ss)) [0..<length funcs])"
    by (rule profile_network [OF assms(1)]) (use assms(2) in auto)
  from arg_cong [OF this, of "image_mset (\<lambda>(n, s, t). s)"]
  have "mset (map pn_selfTime (nw_nodes nw)) = mset (map (\<lambda>i. self_total (Suc i) ss) [0..<length funcs])"
    unfolding mset_map [symmetric] by (simp add: node_row_def comp_def del: mset_map)
  from arg_cong [OF this, of sum_mset] show ?thesis
    using self_total_sum [OF assms(1)] by (simp add: sum_mset_sum_list del: mset_map)
qed

theorem profile_self_times_sum_witness:
  "\<exists>nw. pprofDataToNetwork [(1, ''main''), (2, ''tick'')] sample_profile = Inr nw \<and>
     sum_list (map pn_selfTime (nw_nodes nw)) = 8"
proof -
  have ok: "profile_ok (length [(1 :: nat, ''main''), (2, ''tick'')]) sample_profile"
    by (simp add: profile_ok_def sample_profile_def)
  obtain nw where nw: "pprofDataToNetwork [(1, ''main''), (2, ''tick'')] sample_profile = Inr nw"
    by (rule profile_network [OF ok])
  from profile_self_times_sum [OF ok nw] nw show ?thesis by (simp add: sample_profile_def)
qed

end
