(* ===== verification/Component_Tree.thy ===== *)
theory Component_Tree
  imports Js_Collections "HOL-Library.Sublist"
begin

text \<open>
  \<open>monitoring/web/src/component_tree.ts\<close>: the list of components in the left pane of the
  monitor.  \<open>createTree\<close> splits the names at the dots and builds a trie; \<open>display\<close>
  turns a node into a button, a domain that opens or a component that can be inspected.

  The children of a node are an insertion-ordered map.  The \<open>parent\<close> link of a node is the
  chain of the nodes that lead to it from the root, which \<open>locate\<close> collects.
\<close>

subsection \<open>The tree\<close>

datatype tree_node = Node (node_name: string) (node_children: "(string \<times> tree_node) list")

definition layer :: "string list \<Rightarrow> nat" where
  \<comment> \<open>for the names of the ancestors of a node, its parent first\<close>
  "layer ancestors = length ancestors"

fun fullName :: "string \<Rightarrow> string list \<Rightarrow> string" where
  "fullName name [] = name"
| "fullName name (current # up) = fullName (if current \<noteq> [] then current @ ''.'' @ name else name) up"

fun add_tokens :: "tree_node \<Rightarrow> string list \<Rightarrow> tree_node" where
  \<comment> \<open>the loop of \<open>addNodeToTree\<close>\<close>
  "add_tokens node [] = node"
| "add_tokens (Node nm ch) (t # ts) =
     (let child = (case map_get ch t of None \<Rightarrow> Node t [] | Some c \<Rightarrow> c)
      in Node nm (map_set t (add_tokens child ts) ch))"

definition addNodeToTree :: "tree_node \<Rightarrow> string \<Rightarrow> tree_node" where
  "addNodeToTree tree compName = add_tokens tree (split_on (CHR ''.'') compName)"

definition createTree :: "string list \<Rightarrow> tree_node" where
  "createTree componentNames = foldl addNodeToTree (Node [] []) componentNames"

fun locate :: "string list \<Rightarrow> tree_node \<Rightarrow> string list \<Rightarrow> (tree_node \<times> string list) option" where
  \<comment> \<open>the node at a path, with the names of its ancestors\<close>
  "locate up n [] = Some (n, up)"
| "locate up (Node nm ch) (t # ts) =
     (case map_get ch t of None \<Rightarrow> None | Some c \<Rightarrow> locate (nm # up) c ts)"

subsection \<open>The list of buttons\<close>

datatype item =
    Domain (domain_node: tree_node) (ancestors: "string list") (indent: int) (is_open: bool) (sub_items: "item list")
  | Component string int string \<comment> \<open>the text, the indentation and the component that a click inspects\<close>

definition layerIndentation :: int where
  "layerIndentation = 25"

definition display :: "string list \<Rightarrow> tree_node \<Rightarrow> item" where
  \<comment> \<open>\<open>display\<close>, \<open>displayDomain\<close> and \<open>displayComponent\<close>\<close>
  "display up n =
     (let ind = (int (layer up) - 1) * layerIndentation
      in if node_children n \<noteq> [] then Domain n up ind (up = []) []
         else Component (node_name n) ind (fullName (node_name n) up))"

definition display_children :: "string list \<Rightarrow> tree_node \<Rightarrow> item list" where
  "display_children up n = map (\<lambda>(_, c). display (node_name n # up) c) (node_children n)"

fun click :: "item \<Rightarrow> item \<times> string option" where
  \<comment> \<open>the handler of a button; the second part is the component that is fetched\<close>
  "click (Domain n up ind opn subs) = (Domain n up ind (\<not> opn) (subs @ display_children up n), None)"
| "click (Component nm ind full) = (Component nm ind full, Some full)"

definition listComponents :: "string list \<Rightarrow> item list" where
  "listComponents res = display_children [] (createTree res)"

subsection \<open>Paths of the tree\<close>

fun keyed :: "tree_node \<Rightarrow> bool" where
  \<comment> \<open>a child is stored under its name, and no two siblings have the same name\<close>
  "keyed (Node nm ch) \<longleftrightarrow> distinct (map fst ch) \<and> (\<forall>(k, c) \<in> set ch. node_name c = k \<and> keyed c)"

lemma keyed_child: "keyed (Node nm ch) \<Longrightarrow> map_get ch t = Some c \<Longrightarrow> keyed c \<and> node_name c = t"
  by (drule map_of_SomeD) (simp only: keyed.simps split_def, force)

lemma node_name_add [simp]: "node_name (add_tokens n ts) = node_name n"
  by (cases n; cases ts) (simp_all add: Let_def)

lemma keyed_add: "keyed n \<Longrightarrow> keyed (add_tokens n ts)"
proof (induction n ts rule: add_tokens.induct)
  case (2 nm ch t ts)
  let ?c = "case map_get ch t of None \<Rightarrow> Node t [] | Some c \<Rightarrow> c"
  have c: "keyed ?c" "node_name ?c = t"
    using keyed_child [OF "2.prems"] by (auto split: option.splits)
  have "keyed (add_tokens ?c ts)" by (rule "2.IH" [OF refl c(1)])
  moreover have "set (map_set t (add_tokens ?c ts) ch) \<subseteq> insert (t, add_tokens ?c ts) (set ch)"
    by (induction ch) auto
  ultimately show ?case
    using "2.prems" c(2) by (auto simp: Let_def keys_update_js)
qed simp

lemma keyed_create: "keyed (createTree names)"
proof -
  have "keyed n \<Longrightarrow> keyed (foldl addNodeToTree n names)" for n
    by (induction names arbitrary: n) (simp_all add: addNodeToTree_def keyed_add)
  then show ?thesis by (simp add: createTree_def)
qed

definition paths :: "tree_node \<Rightarrow> string list set" where
  "paths n = {p. locate [] n p \<noteq> None}"

lemma locate_up: "(locate up n p = None) = (locate [] n p = None)"
proof (induction p arbitrary: up n)
  case (Cons t ts)
  show ?case by (cases n; simp split: option.splits) (metis Cons.IH)
qed simp

lemma paths_Nil [simp]: "[] \<in> paths n"
  by (simp add: paths_def)

lemma paths_Cons:
  "t # ts \<in> paths (Node nm ch) \<longleftrightarrow> (\<exists>c. map_get ch t = Some c \<and> ts \<in> paths c)"
  by (cases "map_get ch t") (simp_all add: paths_def del: not_None_eq, simp only: locate_up [of "[nm]"])

lemma paths_leaf: "paths (Node nm []) = {[]}"
proof -
  have "p \<in> paths (Node nm []) \<longleftrightarrow> p = []" for p
    by (cases p) (simp_all add: paths_Cons)
  then show ?thesis by auto
qed

lemma paths_add: "p \<in> paths (add_tokens n ts) \<longleftrightarrow> p \<in> paths n \<or> prefix p ts"
proof (induction n ts arbitrary: p rule: add_tokens.induct)
  case (1 node)
  then show ?case by auto
next
  case (2 nm ch t ts)
  let ?c = "case map_get ch t of None \<Rightarrow> Node t [] | Some c \<Rightarrow> c"
  have IH: "q \<in> paths (add_tokens ?c ts) \<longleftrightarrow> q \<in> paths ?c \<or> prefix q ts" for q
    by (rule "2.IH" [OF refl])
  show ?case
  proof (cases p)
    case (Cons a q)
    show ?thesis
      by (cases "a = t"; cases "map_get ch t")
        (use IH in \<open>auto simp: Cons Let_def paths_Cons update_conv' paths_leaf\<close>)
  qed simp
qed

lemma paths_create: "p \<in> paths (createTree names) \<longleftrightarrow> p = [] \<or> (\<exists>nm \<in> set names. prefix p (split_on (CHR ''.'') nm))"
proof -
  have "p \<in> paths (foldl addNodeToTree n names) \<longleftrightarrow>
      p \<in> paths n \<or> (\<exists>nm \<in> set names. prefix p (split_on (CHR ''.'') nm))" for n
    by (induction names arbitrary: n) (auto simp: addNodeToTree_def paths_add)
  then show ?thesis by (auto simp: createTree_def paths_leaf)
qed

lemma locate_names:
  assumes "keyed n" "locate up n p = Some (m, up')"
  shows "node_name m = last (node_name n # p) \<and> up' = rev (butlast (node_name n # p)) @ up"
  using assms
proof (induction p arbitrary: up n)
  case (Cons t ts)
  obtain nm ch where n: "n = Node nm ch" by (cases n)
  with Cons.prems obtain c where c: "map_get ch t = Some c" "locate (nm # up) c ts = Some (m, up')"
    by (auto split: option.splits)
  then have "keyed c" "node_name c = t" using keyed_child Cons.prems(1) n by blast+
  then show ?case using Cons.IH c(2) n by fastforce
qed simp

lemma locate_children:
  "locate up n p = Some (m, up') \<Longrightarrow> node_children m \<noteq> [] \<longleftrightarrow> (\<exists>t. p @ [t] \<in> paths n)"
proof (induction p arbitrary: up n)
  case Nil
  obtain nm ch where "m = Node nm ch" by (cases m)
  with Nil show ?case by (cases ch) (auto simp: paths_Cons)
next
  case (Cons t ts)
  obtain nm ch where n: "n = Node nm ch" by (cases n)
  from Cons.prems obtain c where "map_get ch t = Some c" "locate (nm # up) c ts = Some (m, up')"
    unfolding n by (auto split: option.splits)
  then show ?case using Cons.IH by (simp add: n paths_Cons)
qed

subsection \<open>Names\<close>

lemma join_with_last2: "join_with sep (xs @ [a, b]) = join_with sep (xs @ [a @ sep @ b])"
proof (induction xs)
  case (Cons x xs)
  then show ?case by (cases xs) simp_all
qed simp

lemma fullName_path:
  assumes "\<And>t. t \<in> set ts \<Longrightarrow> t \<noteq> []"
  shows "fullName name (rev ts @ [[]]) = join_with ''.'' (ts @ [name])"
  using assms
proof (induction ts arbitrary: name rule: rev_induct)
  case (snoc t ts)
  show ?case using snoc by (simp add: join_with_last2)
qed simp

lemma prefix_longer: "(\<exists>t. prefix (p @ [t]) q) \<longleftrightarrow> strict_prefix p q"
proof
  assume "strict_prefix p q"
  then obtain t ts where "q = p @ t # ts" by (rule strict_prefixE')
  then show "\<exists>t. prefix (p @ [t]) q" by (auto simp: prefix_def)
qed (auto simp: strict_prefix_def prefix_def)

subsection \<open>Properties\<close>

text \<open>
  (C14) The tree stands for the set of all dotted prefixes of the component names: it has a node
  at a path exactly when the path is a prefix of the tokens of a name, each child is stored under
  its own name and no two siblings have the same name.  The order and the repetition of names do
  not matter for this set.
\<close>

theorem component_tree_refines:
  "keyed (createTree names) \<and>
   paths (createTree names) = insert [] (\<Union>nm \<in> set names. set (prefixes (split_on (CHR ''.'') nm)))"
  using keyed_create paths_create [of _ names] by auto



text \<open>
  Each click on a domain adds the buttons of its children once more: after \<open>k\<close> clicks
  a domain lists them \<open>k\<close> times, and it is open when \<open>k\<close> is odd.
\<close>

theorem domain_click_duplicates:
  "((\<lambda>i. fst (click i)) ^^ k) (Domain n up ind False []) =
     Domain n up ind (odd k) (concat (replicate k (display_children up n)))"
proof (induction k)
  case (Suc k)
  have "concat (replicate k xs) @ xs = xs @ concat (replicate k xs)" for xs :: "item list"
    by (induction k) simp_all
  with Suc show ?case by simp
qed simp

end
