(* ===== verification/Monitor_App.thy ===== *)
theory Monitor_App
  imports Detail_Table Right_Pane Progress_Bars Profiler Component_Tree
begin

text \<open>
  \<open>monitoring/web/src/index.ts\<close> and \<open>engine_control.ts\<close>: the monitor as a whole.  Its parts
  share one \<open>UIManager\<close> and the timers of the browser, so the operations of a part run on its own
  state together with the shared one.  Three timers are set when the page starts and run as long
  as it does: those of the resource texts, of the engine controller and of the progress bars.
\<close>

subsection \<open>State\<close>

record engine_controller =
  en_nowLabel :: string
  en_requests :: "string list" \<comment> \<open>what its buttons have sent\<close>

record monitor_app =
  ma_ui :: ui
  ma_intervals :: intervals
  ma_monitor :: monitor
  ma_progress :: progress_manager
  ma_pane :: right_pane \<comment> \<open>with the hang analyzer and the views\<close>
  ma_table :: detail_table
  ma_engine :: engine_controller
  ma_usage :: "string \<times> string" \<comment> \<open>the texts of \<open>cpu-usage\<close> and \<open>mem-usage\<close>\<close>
  ma_components :: "item list" \<comment> \<open>the left pane\<close>
  ma_timers :: "nat list" \<comment> \<open>the handles of the three permanent timers\<close>

text \<open>The state that a part works on: its own fields, with the shared objects.\<close>

definition the_monitor :: "monitor_app \<Rightarrow> monitor" where
  "the_monitor a = (ma_monitor a)\<lparr>mo_ui := ma_ui a, mo_intervals := ma_intervals a\<rparr>"

definition the_progress :: "monitor_app \<Rightarrow> progress_manager" where
  "the_progress a = (ma_progress a)\<lparr>pm_ui := ma_ui a\<rparr>"

definition the_pane :: "monitor_app \<Rightarrow> right_pane" where
  "the_pane a = (ma_pane a)\<lparr>rp_intervals := ma_intervals a\<rparr>"

definition set_monitor :: "monitor \<Rightarrow> monitor_app \<Rightarrow> monitor_app" where
  "set_monitor m a = a\<lparr>ma_monitor := m, ma_ui := mo_ui m, ma_intervals := mo_intervals m\<rparr>"

definition set_progress :: "progress_manager \<Rightarrow> monitor_app \<Rightarrow> monitor_app" where
  "set_progress m a = a\<lparr>ma_progress := m, ma_ui := pm_ui m\<rparr>"

definition set_pane :: "right_pane \<Rightarrow> monitor_app \<Rightarrow> monitor_app" where
  "set_pane p a = a\<lparr>ma_pane := p, ma_intervals := rp_intervals p\<rparr>"

subsection \<open>Start\<close>

definition new_monitor_app :: "((bool \<times> string) multiset \<Rightarrow> rat) \<Rightarrow> window \<Rightarrow> monitor_app" where
  \<comment> \<open>\<open>App.constructor\<close>; the constructor of \<open>ResourceMonitor\<close> sets a timer\<close>
  "new_monitor_app layout w =
     (let u = new_ui w; (h, iv) = setInterval no_intervals
      in \<lparr> ma_ui = u, ma_intervals = iv, ma_monitor = new_monitor u, ma_progress = new_progress_manager layout u,
           ma_pane = new_right_pane, ma_table = empty_table, ma_engine = \<lparr>en_nowLabel = [], en_requests = []\<rparr>,
           ma_usage = ([], []), ma_components = [], ma_timers = [h] \<rparr>)"

definition permanent_timer :: "monitor_app \<Rightarrow> monitor_app" where
  \<comment> \<open>\<open>EngineController.bindDom\<close> and \<open>ProgressBarManager.binDom\<close> set a timer that nothing clears\<close>
  "permanent_timer a = (let (h, iv) = setInterval (ma_intervals a) in a\<lparr>ma_intervals := iv, ma_timers := ma_timers a @ [h]\<rparr>)"

definition start_monitor :: "monitor_app \<Rightarrow> monitor_app" where
  \<comment> \<open>\<open>App.start\<close>\<close>
  "start_monitor a =
     (let a1 = a\<lparr>ma_ui := ui_resize (assignElements (ma_ui a))\<rparr>
      in permanent_timer (permanent_timer a1))"

subsection \<open>The engine controller and the resource texts\<close>

definition updateTime :: "string \<Rightarrow> engine_controller \<Rightarrow> engine_controller" where
  "updateTime now e = e\<lparr>en_nowLabel := now\<rparr>"

definition engine_run :: "engine_controller \<Rightarrow> engine_controller" where
  "engine_run e = e\<lparr>en_requests := en_requests e @ [''/api/run'']\<rparr>"

definition engine_pause :: "engine_controller \<Rightarrow> engine_controller" where
  "engine_pause e = e\<lparr>en_requests := en_requests e @ [''/api/pause'']\<rparr>"

definition engine_continue :: "engine_controller \<Rightarrow> engine_controller" where
  "engine_continue e = e\<lparr>en_requests := en_requests e @ [''/api/continue'']\<rparr>"

definition refreshResourceUsage :: "(js_num \<Rightarrow> string) \<Rightarrow> js_num \<Rightarrow> nat \<Rightarrow> string \<times> string" where
  "refreshResourceUsage toFixed0 cpu_percent memory_size = (formatCPUPercent toFixed0 cpu_percent, formatBytes memory_size)"

subsection \<open>Events\<close>

datatype app_event =
    MouseOrWindow ui_event
  | ComponentList "string list"
  | ComponentResponse string response \<comment> \<open>after a click on a component in the left pane or on a box of the diagram\<close>
  | RowClick "nat list"
  | FieldArrives "nat list" string response
  | FlagClick "nat list"
  | CloseWidget string string
  | SampleArrives nat data_point
  | PaneEvent pane_event
  | TrafficArrives nat "traffic list" \<comment> \<open>the response to a request of a view\<close>
  | MeasurementClick string | AccumulationClick string \<comment> \<open>the buttons of the view in the pane\<close>
  | ProgressArrives "progress list option"
  | AnimationOver
  | NowArrives string
  | UsageArrives js_num nat
  | RunClick | PauseClick | ContinueClick

definition component_response :: "string \<Rightarrow> response \<Rightarrow> monitor_app \<Rightarrow> monitor_app" where
  \<comment> \<open>\<open>populate\<close>: when the table raises, the diagram is not shown\<close>
  "component_response name res a =
     (let a1 = a\<lparr>ma_table := table_step (ShowComponent name res) (ma_table a)\<rparr>
      in if dt_errors (ma_table a1) > dt_errors (ma_table a) then a1 else set_pane (showSankey name (the_pane a1)) a1)"

definition flag_click :: "rat \<Rightarrow> nat list \<Rightarrow> monitor_app \<Rightarrow> monitor_app" where
  "flag_click title p a =
     (let (t, m) = click_flag_at title p (ma_table a, the_monitor a)
      in set_monitor m (a\<lparr>ma_table := t\<rparr>))"

definition view_sankey :: "(sankey \<Rightarrow> sankey) \<Rightarrow> nat \<Rightarrow> right_pane \<Rightarrow> right_pane" where
  "view_sankey f i p =
     (if i < length (rp_views p)
      then p\<lparr>rp_views := (rp_views p)[i := (rp_views p ! i)\<lparr>dv_sankey := f (dv_sankey (rp_views p ! i))\<rparr>]\<rparr> else p)"

definition shown_view :: "(sankey \<Rightarrow> sankey) \<Rightarrow> right_pane \<Rightarrow> right_pane" where
  "shown_view f p = (case rp_pane p of TrafficPane i _ \<Rightarrow> view_sankey f i p | _ \<Rightarrow> p)"

fun app_step :: "rat \<Rightarrow> (js_num \<Rightarrow> string) \<Rightarrow> app_event \<Rightarrow> monitor_app \<Rightarrow> monitor_app" where
  "app_step title fmt (MouseOrWindow e) a = a\<lparr>ma_ui := ui_step e (ma_ui a)\<rparr>"
| "app_step title fmt (ComponentList names) a = a\<lparr>ma_components := ma_components a @ listComponents names\<rparr>"
| "app_step title fmt (ComponentResponse name res) a = component_response name res a"
| "app_step title fmt (RowClick p) a = a\<lparr>ma_table := click_row p (ma_table a)\<rparr>"
| "app_step title fmt (FieldArrives q f res) a = a\<lparr>ma_table := field_response q f res (ma_table a)\<rparr>"
| "app_step title fmt (FlagClick p) a = flag_click title p a"
| "app_step title fmt (CloseWidget c f) a = set_monitor (removeWidget title c f (the_monitor a)) a"
| "app_step title fmt (SampleArrives elem dp) a = set_monitor (updateChart elem dp (the_monitor a)) a"
| "app_step title fmt (PaneEvent e) a = set_pane (pane_step e (the_pane a)) a"
| "app_step title fmt (TrafficArrives i data) a = set_pane (view_sankey (\<lambda>s. poll s data) i (the_pane a)) a"
| "app_step title fmt (MeasurementClick mode) a = set_pane (shown_view (click_measurement mode) (the_pane a)) a"
| "app_step title fmt (AccumulationClick mode) a = set_pane (shown_view (click_accumulation mode) (the_pane a)) a"
| "app_step title fmt (ProgressArrives res) a = set_progress (refreshProgressBars res (the_progress a)) a"
| "app_step title fmt AnimationOver a = set_progress (animation_end (the_progress a)) a"
| "app_step title fmt (NowArrives now) a = a\<lparr>ma_engine := updateTime now (ma_engine a)\<rparr>"
| "app_step title fmt (UsageArrives cpu mem) a = a\<lparr>ma_usage := refreshResourceUsage fmt cpu mem\<rparr>"
| "app_step title fmt RunClick a = a\<lparr>ma_engine := engine_run (ma_engine a)\<rparr>"
| "app_step title fmt PauseClick a = a\<lparr>ma_engine := engine_pause (ma_engine a)\<rparr>"
| "app_step title fmt ContinueClick a = a\<lparr>ma_engine := engine_continue (ma_engine a)\<rparr>"

fun app_allowed :: "app_event \<Rightarrow> monitor_app \<Rightarrow> bool" where
  \<comment> \<open>what the user, the server and the browser can do\<close>
  "app_allowed (MouseOrWindow e) a = (e \<notin> {PopUp, Collapse, Adjust} \<and> (\<forall>h. e \<noteq> ProgressResize h))"
| "app_allowed (FieldArrives q f res) a = ((q, f) \<in> set (dt_pending (ma_table a)))"
| "app_allowed (PaneEvent e) a = (pane_enabled e (ma_pane a) \<and> (\<forall>name. e \<noteq> OpenView name))"
| "app_allowed _ a = True"

abbreviation app_run :: "rat \<Rightarrow> (js_num \<Rightarrow> string) \<Rightarrow> monitor_app \<Rightarrow> monitor_app \<Rightarrow> bool" where
  "app_run title fmt \<equiv> run app_allowed (app_step title fmt)"

subsection \<open>Who polls\<close>

datatype timer_owner =
    ResourceTimer | EngineTimer | ProgressTimer
  | WidgetTimer nat \<comment> \<open>the element of the widget\<close>
  | HangTimer
  | ViewTimer nat

definition owners :: "monitor_app \<Rightarrow> (timer_owner \<times> nat) list" where
  \<comment> \<open>the objects that refresh periodically, with the handles of their timers\<close>
  "owners a =
     zip [ResourceTimer, EngineTimer, ProgressTimer] (ma_timers a) @
     map (\<lambda>w. (WidgetTimer (mw_dom w), mw_interval w)) (mo_widgets (ma_monitor a)) @
     (if ha_running (rp_hang (ma_pane a)) then [(HangTimer, ha_intervalHandle (rp_hang (ma_pane a)))] else []) @
     map (\<lambda>(i, v). (ViewTimer i, dv_intervalHandle v)) (filter (\<lambda>(i, v). dv_running v) (enumerate 0 (rp_views (ma_pane a))))"

datatype poll_request = GetResource | GetNow | GetProgress | GetField string string | GetBuffers string | GetTraffic string

fun tick_requests :: "monitor_app \<Rightarrow> timer_owner \<Rightarrow> poll_request list" where
  \<comment> \<open>what the callback of a timer asks the server for\<close>
  "tick_requests a ResourceTimer = [GetResource]"
| "tick_requests a EngineTimer = [GetNow]"
| "tick_requests a ProgressTimer = [GetProgress]"
| "tick_requests a (WidgetTimer d) =
     (case find (\<lambda>w. mw_dom w = d) (mo_widgets (ma_monitor a)) of
        None \<Rightarrow> [] | Some w \<Rightarrow> [GetField (mw_component w) (drop 1 (mw_field w)), GetNow])"
| "tick_requests a HangTimer = [GetBuffers (ha_sort (rp_hang (ma_pane a)))]"
| "tick_requests a (ViewTimer i) =
     (if i < length (rp_views (ma_pane a)) then [GetTraffic (sk_name (dv_sankey (rp_views (ma_pane a) ! i)))] else [])"

subsection \<open>The shared timers\<close>

definition timers_inv :: "monitor_app \<Rightarrow> bool" where
  \<comment> \<open>each part finds its own timers among those of the others\<close>
  "timers_inv a \<longleftrightarrow>
     monitor_inv (mset (ma_timers a) + owned (ma_pane a)) (the_monitor a) \<and>
     pane_inv (mset (ma_timers a) + polling (ma_monitor a)) (the_pane a) \<and>
     length (ma_timers a) = 3"

lemma the_parts [simp]:
  "the_monitor (set_monitor m a) = m" "the_pane (set_pane p a) = p" "the_progress (set_progress g a) = g"
  "the_monitor (set_pane p a) = (the_monitor a)\<lparr>mo_intervals := rp_intervals p\<rparr>"
  "the_pane (set_monitor m a) = (the_pane a)\<lparr>rp_intervals := mo_intervals m\<rparr>"
  "the_monitor (set_progress g a) = (the_monitor a)\<lparr>mo_ui := pm_ui g\<rparr>" "the_pane (set_progress g a) = the_pane a"
  "the_progress (set_monitor m a) = (the_progress a)\<lparr>pm_ui := mo_ui m\<rparr>" "the_progress (set_pane p a) = the_progress a"
  by (simp_all add: the_monitor_def the_pane_def the_progress_def set_monitor_def set_pane_def set_progress_def)

lemma set_fields [simp]:
  "ma_timers (set_monitor m a) = ma_timers a" "ma_pane (set_monitor m a) = ma_pane a" "ma_monitor (set_monitor m a) = m"
  "ma_timers (set_pane p a) = ma_timers a" "ma_pane (set_pane p a) = p" "ma_monitor (set_pane p a) = ma_monitor a"
  "ma_ui (set_monitor m a) = mo_ui m" "ma_ui (set_pane p a) = ma_ui a" "ma_ui (set_progress g a) = pm_ui g"
  "ma_table (set_monitor m a) = ma_table a" "ma_table (set_pane p a) = ma_table a" "ma_table (set_progress g a) = ma_table a"
  "ma_progress (set_monitor m a) = ma_progress a" "ma_progress (set_pane p a) = ma_progress a" "ma_progress (set_progress g a) = g"
  "ma_timers (set_progress g a) = ma_timers a" "ma_pane (set_progress g a) = ma_pane a" "ma_monitor (set_progress g a) = ma_monitor a"
  by (simp_all add: set_monitor_def set_pane_def set_progress_def)

lemma monitor_inv_ui [simp]: "monitor_inv R (m\<lparr>mo_ui := u\<rparr>) = monitor_inv R m"
  by (simp add: monitor_inv_def polling_def)

lemma polling_the [simp]: "polling (the_monitor a) = polling (ma_monitor a)"
  by (simp add: polling_def the_monitor_def)

lemma owned_the [simp]: "owned (the_pane a) = owned (ma_pane a)"
  by (simp add: owned_def the_pane_def)

lemma monitor_inv_frame:
  "monitor_inv R m \<Longrightarrow> iv_ok iv \<Longrightarrow> mset (iv_live iv) = polling m + R' \<Longrightarrow> monitor_inv R' (m\<lparr>mo_intervals := iv\<rparr>)"
  by (auto simp: monitor_inv_def polling_def)

lemma pane_inv_frame:
  "pane_inv R p \<Longrightarrow> iv_ok iv \<Longrightarrow> mset (iv_live iv) = owned p + R' \<Longrightarrow> pane_inv R' (p\<lparr>rp_intervals := iv\<rparr>)"
  by (auto simp: pane_inv_def owned_def split: pane.splits)

lemma timers_inv_monitor:
  assumes "timers_inv a" "monitor_inv (mset (ma_timers a) + owned (ma_pane a)) m"
  shows "timers_inv (set_monitor m a)"
proof -
  have iv: "iv_ok (mo_intervals m)" "mset (iv_live (mo_intervals m)) = owned (the_pane a) + (mset (ma_timers a) + polling m)"
    using assms(2) by (auto simp: monitor_inv_def ac_simps)
  have "pane_inv (mset (ma_timers a) + polling m) ((the_pane a)\<lparr>rp_intervals := mo_intervals m\<rparr>)"
    by (rule pane_inv_frame [OF _ iv]) (use assms(1) timers_inv_def in blast)
  then show ?thesis using assms unfolding timers_inv_def by simp
qed

lemma timers_inv_pane:
  assumes "timers_inv a" "pane_inv (mset (ma_timers a) + polling (ma_monitor a)) p"
  shows "timers_inv (set_pane p a)"
proof -
  have iv: "iv_ok (rp_intervals p)" "mset (iv_live (rp_intervals p)) = polling (the_monitor a) + (mset (ma_timers a) + owned p)"
    using assms(2) by (auto simp: pane_inv_def ac_simps)
  have "monitor_inv (mset (ma_timers a) + owned p) ((the_monitor a)\<lparr>mo_intervals := rp_intervals p\<rparr>)"
    by (rule monitor_inv_frame [OF _ iv]) (use assms(1) timers_inv_def in blast)
  then show ?thesis using assms unfolding timers_inv_def by simp
qed

lemma flag_click_monitor: "snd (click_flag_at title p (t, m)) \<in> {m} \<union> {addWidget title c f m | c f. True} \<union> {removeWidget title c f m | c f. True}"
  by (auto simp: click_flag_at_def click_flag_def Let_def split_def split: option.split)

lemma view_sankey_inv: "pane_inv R p \<Longrightarrow> pane_inv R (view_sankey f i p)"
proof -
  have "dv.timers (v\<lparr>dv_sankey := s\<rparr>) = dv.timers v" for v s by (simp add: dv.timers_def)
  then have "map dv.timers (rp_views (view_sankey f i p)) = map dv.timers (rp_views p)"
    by (simp add: view_sankey_def map_update list_update_same_conv)
  then have "owned (view_sankey f i p) = owned p" by (simp add: owned_def) (simp add: view_sankey_def)
  then show "pane_inv R p \<Longrightarrow> pane_inv R (view_sankey f i p)"
    by (auto simp: pane_inv_def view_sankey_def split: pane.splits)
qed

lemma shown_view_inv: "pane_inv R p \<Longrightarrow> pane_inv R (shown_view f p)"
  by (simp add: shown_view_def view_sankey_inv split: pane.split)

lemma timers_inv_others [simp]:
  "timers_inv (a\<lparr>ma_ui := u\<rparr>) = timers_inv a" "timers_inv (a\<lparr>ma_table := t\<rparr>) = timers_inv a"
  "timers_inv (a\<lparr>ma_engine := e\<rparr>) = timers_inv a" "timers_inv (a\<lparr>ma_usage := x\<rparr>) = timers_inv a"
  "timers_inv (a\<lparr>ma_components := is\<rparr>) = timers_inv a" "timers_inv (set_progress g a) = timers_inv a"
  by (simp_all add: timers_inv_def the_pane_def monitor_inv_def polling_def the_monitor_def set_progress_def)

lemma step_timers:
  assumes inv: "timers_inv a" and allowed: "app_allowed e a"
  shows "timers_inv (app_step title fmt e a)"
proof -
  have mon: "monitor_inv (mset (ma_timers a) + owned (ma_pane a)) (the_monitor a)"
    and pan: "pane_inv (mset (ma_timers a) + polling (ma_monitor a)) (the_pane a)"
    using inv by (simp_all add: timers_inv_def)
  show ?thesis
  proof (cases e)
    case (ComponentResponse name res)
    let ?b = "a\<lparr>ma_table := table_step (ShowComponent name res) (ma_table a)\<rparr>"
    have b: "timers_inv ?b" using inv by simp
    moreover have "timers_inv (set_pane (showSankey name (the_pane ?b)) ?b)"
      using b pan by (intro timers_inv_pane inv_showSankey) (simp_all add: the_pane_def)
    ultimately show ?thesis using ComponentResponse by (simp add: component_response_def Let_def del: table_step.simps)
  next
    case (FlagClick p)
    let ?t = "fst (click_flag_at title p (ma_table a, the_monitor a))" and ?m = "snd (click_flag_at title p (ma_table a, the_monitor a))"
    have "monitor_inv (mset (ma_timers a) + owned (ma_pane a)) ?m"
      using flag_click_monitor [of title p "ma_table a" "the_monitor a"] mon
      by (auto simp: monitor_inv_add monitor_inv_remove)
    then have "timers_inv (set_monitor ?m (a\<lparr>ma_table := ?t\<rparr>))"
      using inv by (intro timers_inv_monitor) simp_all
    then show ?thesis using FlagClick by (simp add: flag_click_def split_def Let_def)
  next
    case (PaneEvent pe)
    then have "pane_enabled pe (the_pane a)" using allowed by (cases pe) (simp_all add: the_pane_def)
    then show ?thesis using PaneEvent inv pan by (simp add: timers_inv_pane rp.step_keeps)
  qed (use inv mon pan in \<open>simp_all add: timers_inv_monitor monitor_inv_remove monitor_inv_sample timers_inv_pane
      view_sankey_inv shown_view_inv\<close>)
qed

interpretation at: kept_invariant app_allowed "app_step title fmt" timers_inv for title fmt
  by unfold_locales (rule step_timers)

subsection \<open>The shared panes\<close>

definition screen_inv :: "rat \<Rightarrow> monitor_app \<Rightarrow> bool" where
  \<comment> \<open>the styles are current and cover the widgets that there are\<close>
  "screen_inv title a \<longleftrightarrow> style_current (ma_ui a) \<and> ui_titles (ma_ui a) = map (\<lambda>_. title) (mo_container (ma_monitor a)) \<and>
     progress_inv (ma_progress a)"

lemma group_resize_screen:
  "style_current (mo_ui (group_resize t m)) \<and> ui_titles (mo_ui (group_resize t m)) = map (\<lambda>_. t) (mo_container m)"
  by (simp add: group_resize_def style_current_resize)

lemma add_screen:
  "style_current (mo_ui (addWidget t c f m)) \<and> ui_titles (mo_ui (addWidget t c f m)) = map (\<lambda>_. t) (mo_container (addWidget t c f m))"
  unfolding addWidget_def split_def Let_def using group_resize_screen by simp

lemma remove_screen:
  assumes "style_current (mo_ui m) \<and> ui_titles (mo_ui m) = map (\<lambda>_. t) (mo_container m)"
  shows "style_current (mo_ui (removeWidget t c f m)) \<and>
    ui_titles (mo_ui (removeWidget t c f m)) = map (\<lambda>_. t) (mo_container (removeWidget t c f m))"
  using assms group_resize_screen by (simp add: removeWidget_def Let_def split: option.split)

lemma step_screen:
  assumes inv: "screen_inv title a" and "app_allowed e a"
  shows "screen_inv title (app_step title fmt e a)"
proof -
  have mon: "style_current (mo_ui (the_monitor a)) \<and> ui_titles (mo_ui (the_monitor a)) = map (\<lambda>_. title) (mo_container (the_monitor a))"
    and pro: "progress_inv (the_progress a)"
    using inv by (simp_all add: screen_inv_def the_monitor_def the_progress_def progress_inv_def)
  have run: "style_current u \<and> ui_titles u = map (\<lambda>_. title) (mo_container (ma_monitor a))" if "any_ui_run (ma_ui a) u" for u
    by (rule us.run_keeps [OF that]) (use inv in \<open>simp add: screen_inv_def\<close>)
  show ?thesis
  proof (cases e)
    case (MouseOrWindow ue)
    then show ?thesis using inv by (simp add: screen_inv_def step_style_current step_titles)
  next
    case (FlagClick p)
    then show ?thesis using flag_click_monitor [of title p "ma_table a" "the_monitor a"] mon inv add_screen remove_screen [OF mon]
      by (auto simp: flag_click_def split_def Let_def screen_inv_def simp del: mset_map)
  next
    case (CloseWidget c f)
    then show ?thesis using inv remove_screen [OF mon] by (simp add: screen_inv_def)
  next
    case (ProgressArrives res)
    have "progress_inv (refreshProgressBars res (the_progress a))"
      using pro prepared_inv show_all_inv
      by (auto simp: refreshProgressBars_def renderProgress_eq removeCompletedProgressDoms_def remove_doms_inv split: option.split)
    then show ?thesis using ProgressArrives run response_ui_run [OF pro, of res] by (simp add: screen_inv_def the_progress_def)
  next
    case AnimationOver
    have "progress_inv (animation_end (the_progress a))" using pro by (simp add: animation_end_def progress_inv_def)
    then show ?thesis using AnimationOver run animation_ui_run [of "the_progress a"] by (simp add: screen_inv_def the_progress_def)
  qed (use inv in \<open>simp_all add: screen_inv_def component_response_def Let_def updateChart_def the_monitor_def del: table_step.simps\<close>)
qed

interpretation as: kept_invariant app_allowed "app_step title fmt" "screen_inv title" for title fmt
  by unfold_locales (rule step_screen)

lemma step_table:
  assumes "table_inv (ma_table a)" "app_allowed e a"
  shows "table_inv (ma_table (app_step title fmt e a))"
proof (cases e)
  case (ComponentResponse name res)
  then show ?thesis using dt.step_keeps [OF assms(1), of "ShowComponent name res"]
    by (simp add: component_response_def Let_def del: table_step.simps)
next
  case (FlagClick p)
  then show ?thesis using dt.step_keeps [OF assms(1), of "ToggleFlag p"]
    by (simp add: flag_click_def split_def Let_def flag_click_table del: table_step.simps)
qed (use assms in \<open>simp_all add: table_inv_click table_inv_response\<close>)

interpretation ab: kept_invariant app_allowed "app_step title fmt" "\<lambda>a. table_inv (ma_table a)" for title fmt
  by unfold_locales (rule step_table)

subsection \<open>The rows of the window\<close>

definition calm :: "app_event \<Rightarrow> monitor_app \<Rightarrow> bool" where
  \<comment> \<open>the window keeps its size and the divider stays in its range\<close>
  "calm e a = (case e of MouseOrWindow ue \<Rightarrow> undisturbed ue (ma_ui a) | _ \<Rightarrow> True)"

lemma add_fit:
  assumes "heights_inv (mo_ui m)"
  shows "heights_inv (mo_ui (addWidget t c f m)) \<and> ui_window (mo_ui (addWidget t c f m)) = ui_window (mo_ui m)"
  using heights_sum [OF assms]
  by (simp add: addWidget_def group_resize_def split_def Let_def resize_heights_inv popUpMonitorGroup_def freeHeight_def)

lemma remove_fit:
  assumes "heights_inv (mo_ui m)"
  shows "heights_inv (mo_ui (removeWidget t c f m)) \<and> ui_window (mo_ui (removeWidget t c f m)) = ui_window (mo_ui m)"
  using assms heights_sum [OF assms]
  by (simp add: removeWidget_def group_resize_def Let_def resize_heights_inv collapseMonitorGroup_def freeHeight_def
      split: option.split)

lemma panes_fit_ui:
  "panes_fit m \<Longrightarrow> heights_inv u \<Longrightarrow> ui_window u = ui_window (pm_ui m) \<Longrightarrow> panes_fit (m\<lparr>pm_ui := u\<rparr>)"
  by (simp add: panes_fit_def elements_def)

definition rows_inv :: "monitor_app \<Rightarrow> bool" where
  "rows_inv a \<longleftrightarrow> progress_inv (ma_progress a) \<and> panes_fit (the_progress a)"

lemma step_rows:
  assumes inv: "rows_inv a" and allowed: "app_allowed e a" and "calm e a"
  shows "rows_inv (app_step title fmt e a)"
proof -
  have pro: "progress_inv (the_progress a)" "panes_fit (the_progress a)"
    using inv by (simp_all add: rows_inv_def the_progress_def progress_inv_def)
  have mon: "heights_inv (mo_ui (the_monitor a))" "ui_window (mo_ui (the_monitor a)) = ui_window (pm_ui (the_progress a))"
    using pro(2) by (simp_all add: panes_fit_def the_progress_def the_monitor_def)
  have fit: "rows_inv (set_monitor m b)"
    if "heights_inv (mo_ui m) \<and> ui_window (mo_ui m) = ui_window (mo_ui (the_monitor a))" "b = a\<lparr>ma_table := t\<rparr>" for m b t
    using panes_fit_ui [OF pro(2)] that mon inv by (simp add: rows_inv_def) (simp add: the_progress_def)
  show ?thesis
  proof (cases e)
    case (MouseOrWindow ue)
    then have calm: "undisturbed ue (ma_ui a)" using \<open>calm e a\<close> by (simp add: calm_def)
    have "panes_fit ((the_progress a)\<lparr>pm_ui := ui_step ue (ma_ui a)\<rparr>)"
      using pro(2) calm by (intro panes_fit_ui)
        (simp_all add: panes_fit_def the_progress_def step_heights undisturbed_def undisturbed_window [OF calm])
    then show ?thesis using MouseOrWindow inv by (simp add: rows_inv_def the_progress_def)
  next
    case (FlagClick p)
    then show ?thesis
      using flag_click_monitor [of title p "ma_table a" "the_monitor a"] mon(1) add_fit remove_fit
      by (auto simp: flag_click_def split_def Let_def intro!: fit [OF _ refl])
  next
    case (CloseWidget c f)
    then show ?thesis using remove_fit [OF mon(1)] fit [of _ a "ma_table a"] by simp
  next
    case (SampleArrives elem dp)
    then show ?thesis using fit [of _ a "ma_table a"] mon(1) by (simp add: updateChart_def)
  next
    case (ProgressArrives res)
    then show ?thesis using response_inv [OF pro] by (simp add: rows_inv_def)
  next
    case AnimationOver
    then show ?thesis using animation_inv [OF pro] by (simp add: rows_inv_def)
  qed (use inv in \<open>simp_all add: rows_inv_def component_response_def Let_def the_progress_def del: table_step.simps\<close>)
qed

interpretation ah: kept_invariant "\<lambda>e a. app_allowed e a \<and> calm e a" "app_step title fmt" rows_inv for title fmt
  by unfold_locales (simp add: step_rows)

subsection \<open>The start\<close>

definition started :: "((bool \<times> string) multiset \<Rightarrow> rat) \<Rightarrow> window \<Rightarrow> monitor_app" where
  "started layout w = start_monitor (new_monitor_app layout w)"

lemmas start_defs = started_def start_monitor_def new_monitor_app_def permanent_timer_def new_monitor_def new_right_pane_def
  new_progress_manager_def

lemma started_fields:
  "ma_timers (started layout w) = [1, 2, 3]" "iv_live (ma_intervals (started layout w)) = [1, 2, 3]"
  "iv_next (ma_intervals (started layout w)) = 4" "ma_ui (started layout w) = ui_resize (assignElements (new_ui w))"
  "mo_widgets (ma_monitor (started layout w)) = []" "mo_container (ma_monitor (started layout w)) = []"
  "rp_pane (ma_pane (started layout w)) = EmptyPane" "rp_views (ma_pane (started layout w)) = []"
  "rp_hang (ma_pane (started layout w)) = new_hang_analyzer" "ma_table (started layout w) = empty_table"
  "ma_progress (started layout w) = new_progress_manager layout (new_ui w)"
  by (simp_all add: start_defs Let_def split_def setInterval_def no_intervals_def)

lemma started_timers: "timers_inv (started layout w)"
  by (simp add: timers_inv_def monitor_inv_def pane_inv_def polling_def owned_def the_monitor_def the_pane_def
      started_fields iv_ok_def ha.timers_def) (simp add: new_hang_analyzer_def)

lemma started_screen: "screen_inv title (started layout w)"
  by (simp add: screen_inv_def started_fields style_current_resize assignElements_def)
    (simp add: new_ui_def progress_inv_def new_progress_manager_def)

lemma started_table: "table_inv (ma_table (started layout w))"
  by (simp add: started_fields table_inv_def empty_table_def)

lemma started_rows:
  assumes "progressHeight w = layout {#}"
  shows "rows_inv (started layout w)"
proof -
  have "heights_inv (ui_resize (assignElements (new_ui w)))"
    using heights_sum [OF start_heights, of w] by (simp add: resize_heights_inv)
  then show ?thesis using assms
    by (simp add: rows_inv_def panes_fit_def the_progress_def started_fields progress_inv_def elements_def
        new_progress_manager_def assignElements_def) (simp add: new_ui_def)
qed

subsection \<open>Properties\<close>

lemma running_views:
  "map snd (filter (\<lambda>(i, v). dv_running v) (enumerate n vs)) = filter dv_running vs"
  "distinct (map fst (filter (\<lambda>(i, v). dv_running v) (enumerate n vs)))"
proof -
  show "map snd (filter (\<lambda>(i, v). dv_running v) (enumerate n vs)) = filter dv_running vs"
    by (induction vs arbitrary: n) auto
  show "distinct (map fst (filter (\<lambda>(i, v). dv_running v) (enumerate n vs)))"
    by (rule distinct_map_filter) simp
qed

lemma view_timers: "sum_list (map dv.timers vs) = mset (map dv_intervalHandle (filter dv_running vs))"
  by (induction vs) (simp_all add: dv.timers_def)

lemma owners_handles:
  assumes "length (ma_timers a) = 3"
  shows "mset (map snd (owners a)) = mset (ma_timers a) + polling (ma_monitor a) + owned (ma_pane a)"
proof -
  have "map snd (zip [ResourceTimer, EngineTimer, ProgressTimer] (ma_timers a)) = ma_timers a" using assms by simp
  moreover have "map snd (map (\<lambda>(i, v). (ViewTimer i, dv_intervalHandle v)) xs) = map dv_intervalHandle (map snd xs)"
    for xs :: "(nat \<times> detail_view) list"
    by (simp add: split_def)
  moreover have "map snd (map (\<lambda>w. (WidgetTimer (mw_dom w), mw_interval w)) ws) = map mw_interval ws"
    for ws :: "monitor_widget list" by simp
  ultimately show ?thesis
    by (simp add: owners_def polling_def owned_def view_timers ha.timers_def running_views(1) del: mset_map map_map)
qed

text \<open>
  (C16) Every timer of the page serves exactly one object: after any sequence of events of the user,
  the server and the browser, the live timers are those of the resource texts, the engine
  controller, the progress bars, the widgets, the hang analyzer while it is running and the running
  views, and no two of these objects share a timer.  While the right pane is that of the hang
  analyzer, its button looks pressed exactly when the analyzer is running.
\<close>

theorem monitor_timer_owners:
  assumes "app_run title fmt (started layout w) a"
  shows "mset (map snd (owners a)) = mset (iv_live (ma_intervals a)) \<and> distinct (map snd (owners a)) \<and> distinct (map fst (owners a)) \<and>
    (\<forall>b. rp_pane (ma_pane a) = HangPane b \<longrightarrow> b = ha_running (rp_hang (ma_pane a)))"
proof -
  have inv: "timers_inv a" by (rule at.run_keeps [OF assms started_timers])
  then have live: "mset (iv_live (ma_intervals a)) = mset (ma_timers a) + polling (ma_monitor a) + owned (ma_pane a)"
    and ok: "iv_ok (ma_intervals a)" and three: "length (ma_timers a) = 3"
    and doms: "distinct (map mw_dom (mo_widgets (ma_monitor a)))"
    by (simp_all add: timers_inv_def pane_inv_def monitor_inv_def ac_simps) (simp_all add: the_pane_def the_monitor_def)
  have same: "mset (map snd (owners a)) = mset (iv_live (ma_intervals a))" using owners_handles [OF three] live by simp
  then have "distinct (map snd (owners a)) = distinct (iv_live (ma_intervals a))" by (rule mset_eq_imp_distinct_iff)
  then have "distinct (map snd (owners a))" using ok by (simp add: iv_ok_def)
  moreover have "distinct (map fst (owners a))"
  proof -
    obtain x y z where t: "ma_timers a = [x, y, z]" using three by (auto simp: numeral_3_eq_3 length_Suc_conv)
    have "inj_on ViewTimer S" "inj_on WidgetTimer S" for S by (auto intro: inj_onI)
    then show ?thesis using doms running_views(2) [of 0 "rp_views (ma_pane a)"]
      by (auto simp: owners_def t distinct_map comp_def split_def inj_on_def)
  qed
  moreover have "\<forall>b. rp_pane (ma_pane a) = HangPane b \<longrightarrow> b = ha_running (rp_hang (ma_pane a))"
    using inv by (auto simp: timers_inv_def pane_inv_def the_pane_def)
  ultimately show ?thesis using same by simp
qed

definition sample_layout :: "(bool \<times> string) multiset \<Rightarrow> rat" where
  "sample_layout es = 40 + 30 * of_nat (size es)"

definition sample_monitor :: monitor_app where
  \<comment> \<open>a component is shown\<close>
  "sample_monitor = app_step 20 (\<lambda>_. []) (ComponentResponse ''A'' (''2'', sample_dict)) (started sample_layout sample_window)"

lemma sample_monitor_run: "app_run 20 (\<lambda>_. []) (started sample_layout sample_window) sample_monitor"
  unfolding sample_monitor_def by (rule run_step) simp

theorem monitor_timer_owners_witness: "mset (map snd (owners sample_monitor)) = {#1, 2, 3, 4#}"
proof -
  have "iv_live (ma_intervals sample_monitor) = [1, 2, 3, 4]" by code_simp
  then show ?thesis using monitor_timer_owners [OF sample_monitor_run] by simp
qed



text \<open>
  (C18) The rows fill the height of the window in the whole monitor: as long as the window keeps its
  size and the divider is not dragged below its range, whatever components are shown, widgets are
  opened and closed and progress bars come and go, the navigation bar, the panes, the divider, the
  group of widgets and the progress bars are together as high as the window, with the progress bars
  at the height that their container has now.
\<close>

theorem monitor_rows_fit:
  assumes "run (\<lambda>e a. app_allowed e a \<and> calm e a) (app_step title fmt) (started layout w) a" "progressHeight w = layout {#}"
  shows "fills_height (ma_ui a) \<and>
    progressHeight (ui_window (ma_ui a)) = pm_layout (ma_progress a) (elements (ma_progress a))"
proof -
  have "rows_inv a" by (rule ah.run_keeps [OF assms(1) started_rows [of w layout, OF assms(2)]])
  then show ?thesis by (simp add: rows_inv_def panes_fit_def heights_inv_def the_progress_def elements_def)
qed

theorem monitor_rows_fit_witness:
  "fills_height (ma_ui (app_step 20 (\<lambda>_. []) (ProgressArrives (Some sample_bars)) (app_step 20 (\<lambda>_. []) (FlagClick [0]) sample_monitor)))"
proof -
  let ?calm = "\<lambda>e a. app_allowed e a \<and> calm e a"
  have "run ?calm (app_step 20 (\<lambda>_. [])) (started sample_layout sample_window)
      (app_step 20 (\<lambda>_. []) (ProgressArrives (Some sample_bars)) (app_step 20 (\<lambda>_. []) (FlagClick [0]) sample_monitor))"
    unfolding sample_monitor_def by (intro run.intros) (simp_all add: calm_def del: app_step.simps)
  from monitor_rows_fit [OF this] show ?thesis by (simp add: sample_layout_def sample_window_def del: app_step.simps)
qed

lemma find_append: "find P (xs @ ys) = (case find P xs of None \<Rightarrow> find P ys | Some x \<Rightarrow> Some x)"
  by (induction xs) auto

text \<open>
  (C17) From a flag to a request: clicking the regular flag of a row, wherever it is in the expanded
  table, makes the flag solid and starts one new timer, the timer of a widget that asks the server
  for the field of this row, the dotted chain of its keys in the component that the table shows.
\<close>

theorem flag_click_polls_field:
  assumes "app_run title fmt (started layout w) a" "cell_at p (dt_cells (ma_table a)) = Some c" "\<not> cell_solid c"
    and "a' = app_step title fmt (FlagClick p) a"
  shows "(\<exists>d h. (WidgetTimer d, h) \<in> set (owners a') \<and> iv_live (ma_intervals a') = iv_live (ma_intervals a) @ [h] \<and>
      h \<notin> set (iv_live (ma_intervals a)) \<and>
      tick_requests a' (WidgetTimer d) =
        [GetField (dt_name (ma_table a)) (join_with ''.'' (keys_at p (dt_cells (ma_table a)))), GetNow]) \<and>
    (\<exists>c'. cell_at p (dt_cells (ma_table a')) = Some c' \<and> cell_solid c')"
proof -
  let ?m = "the_monitor a" and ?kc = "row_keyChain (cell_row c)"
  let ?n = "addWidget title (dt_name (ma_table a)) ?kc ?m"
  let ?h = "fst (setInterval (ma_intervals a))"
  have kc: "?kc = ''.'' @ join_with ''.'' (keys_at p (dt_cells (ma_table a)))"
    using table_inv_field [OF _ assms(2)] ab.run_keeps [OF assms(1) started_table] by auto
  have timers: "timers_inv a" by (rule at.run_keeps [OF assms(1) started_timers])
  then have doms: "\<forall>v \<in> set (mo_widgets (ma_monitor a)). mw_dom v \<noteq> mo_next (ma_monitor a)" and ok: "iv_ok (ma_intervals a)"
    by (auto simp: timers_inv_def monitor_inv_def the_monitor_def) (metis imageI list.set_map nat_less_le)
  have a': "ma_monitor a' = ?n" "ma_intervals a' = snd (setInterval (ma_intervals a))"
      "ma_table a' = table_step (ToggleFlag p) (ma_table a)"
    using assms(2-4) flag_click_table [of title p "ma_table a" ?m]
    by (simp_all add: flag_click_def click_flag_at_def click_flag_def toggleFlag_def flag_of_def Let_def split_def
        set_monitor_def addWidget_fields del: table_step.simps) (simp add: the_monitor_def)
  have widgets: "mo_widgets (ma_monitor a') = mo_widgets (ma_monitor a) @
      [\<lparr> mw_component = dt_name (ma_table a), mw_field = ?kc, mw_dom = mo_next (ma_monitor a), mw_data = [], mw_interval = ?h \<rparr>]"
    by (simp add: a' addWidget_fields) (simp add: the_monitor_def)
  have "(WidgetTimer (mo_next (ma_monitor a)), ?h) \<in> set (owners a')" by (auto simp: owners_def widgets)
  moreover have "find (\<lambda>v. mw_dom v = mo_next (ma_monitor a)) (mo_widgets (ma_monitor a)) = None"
    using doms by (simp add: find_None_iff)
  then have "tick_requests a' (WidgetTimer (mo_next (ma_monitor a))) =
      [GetField (dt_name (ma_table a)) (join_with ''.'' (keys_at p (dt_cells (ma_table a)))), GetNow]"
    by (simp add: widgets find_append kc)
  moreover have "\<exists>c'. cell_at p (dt_cells (ma_table a')) = Some c' \<and> cell_solid c'"
    using assms(3) by (auto simp: a'(3) cell_at_update [OF assms(2)])
  ultimately show ?thesis using set_fresh [OF ok] a'(2) by (simp del: tick_requests.simps) blast
qed

theorem flag_click_polls_field_witness:
  "\<exists>d h. (WidgetTimer d, h) \<in> set (owners (app_step 20 (\<lambda>_. []) (FlagClick [0]) sample_monitor)) \<and>
     tick_requests (app_step 20 (\<lambda>_. []) (FlagClick [0]) sample_monitor) (WidgetTimer d) = [GetField ''A'' ''size'', GetNow]"
proof -
  have "map_option cell_solid (cell_at [0] (dt_cells (ma_table sample_monitor))) = Some False" by code_simp
  then obtain c where c: "cell_at [0] (dt_cells (ma_table sample_monitor)) = Some c" "\<not> cell_solid c" by auto
  have "dt_name (ma_table sample_monitor) = ''A''" "join_with ''.'' (keys_at [0] (dt_cells (ma_table sample_monitor))) = ''size''"
    by code_simp+
  then show ?thesis using flag_click_polls_field [OF sample_monitor_run c refl] by (simp del: app_step.simps tick_requests.simps) blast
qed

end
