(* ===== verification/Progress_Elements.thy ===== *)
theory Progress_Elements
  imports Progress_Bars
begin

text \<open>
  The elements of \<open>monitoring/web/src/progress_bar.ts\<close>, one class for the bars and one for the
  pies.  A bar shows its numbers as widths and as texts; a pie shows them as the sectors of a
  gradient, and has a tooltip that follows the mouse.  The manager of \<open>Progress_Bars\<close> sees an
  element through its kind, its name and its values only; the elements here refine that view.  The
  number texts of the language are an argument.
\<close>

subsection \<open>Bars\<close>

record bar_dom =
  bd_label :: string
  bd_width :: rat \<comment> \<open>the width that \<open>resize\<close> gave the bar\<close>
  bd_parts :: "(js_num \<times> string) list" \<comment> \<open>percentage and text of \<open>finishedDom\<close>, \<open>inProgressDom\<close> and \<open>unfinishedDom\<close>\<close>

definition new_bar_dom :: "progress \<Rightarrow> bar_dom" where
  "new_bar_dom pBar = \<lparr> bd_label = pb_name pBar, bd_width = 0, bd_parts = [] \<rparr>"

definition bar_resize :: "rat \<Rightarrow> rat \<Rightarrow> bar_dom \<Rightarrow> bar_dom" where
  \<comment> \<open>the offset widths of the element and of its label are those of the browser\<close>
  "bar_resize domWidth labelWidth d = d\<lparr>bd_width := domWidth - labelWidth - 20\<rparr>"

definition bar_set :: "(js_num \<Rightarrow> string) \<Rightarrow> progress \<Rightarrow> bar_dom \<Rightarrow> bar_dom" where
  "bar_set toString pBar d =
     (let finished = (if pb_finished pBar \<in> {0, NaN, Undef} then 0 else pb_finished pBar);
          unfinished = pb_total pBar - pb_in_progress pBar - finished
      in d\<lparr>bd_parts :=
           [(finished / pb_total pBar * 100, toString finished),
            (pb_in_progress pBar / pb_total pBar * 100, toString (pb_in_progress pBar)),
            (unfinished / pb_total pBar * 100, toString unfinished)]\<rparr>)"

subsection \<open>Pies\<close>

record pie_dom =
  pi_tooltip :: "string \<times> string" \<comment> \<open>title and content\<close>
  pi_shown :: bool \<comment> \<open>\<open>style.css\<close> hides the tooltip at first\<close>
  pi_place :: "(rat \<times> rat) option" \<comment> \<open>left and top of the tooltip\<close>
  pi_sectors :: "js_num list" \<comment> \<open>the degrees of the gradient\<close>

definition createTooltip :: "(js_num \<Rightarrow> string) \<Rightarrow> progress \<Rightarrow> string \<times> string" where
  "createTooltip toString pBar =
     (pb_name pBar,
      ''Finished: '' @ toString (pb_finished pBar) @ '', In Progress: '' @ toString (pb_in_progress pBar) @
      '', Total: '' @ toString (pb_total pBar))"

definition new_pie_dom :: "(js_num \<Rightarrow> string) \<Rightarrow> progress \<Rightarrow> pie_dom" where
  "new_pie_dom toString pBar =
     \<lparr> pi_tooltip = createTooltip toString pBar, pi_shown = False, pi_place = None, pi_sectors = [] \<rparr>"

definition pie_set :: "progress \<Rightarrow> pie_dom \<Rightarrow> pie_dom" where
  "pie_set pBar d =
     (let finishedDegree = pb_finished pBar / pb_total pBar * 360;
          inProgressDegree = pb_in_progress pBar / pb_total pBar * 360
      in d\<lparr>pi_sectors := [finishedDegree, finishedDegree + inProgressDegree]\<rparr>)"

datatype pie_event =
    PieOver \<comment> \<open>\<open>mouseover\<close>\<close>
  | PieMove rat rat rat \<comment> \<open>\<open>mousemove\<close>: the place of the mouse and the height of the tooltip\<close>
  | PieOut \<comment> \<open>\<open>mouseout\<close>\<close>
  | PieSet progress \<comment> \<open>a response of the server\<close>

fun pie_step :: "pie_event \<Rightarrow> pie_dom \<Rightarrow> pie_dom" where
  "pie_step PieOver d = d\<lparr>pi_shown := True\<rparr>"
| "pie_step (PieMove clientX clientY offsetHeight) d = d\<lparr>pi_place := Some (clientX, clientY - offsetHeight)\<rparr>"
| "pie_step PieOut d = d\<lparr>pi_shown := False\<rparr>"
| "pie_step (PieSet pBar) d = pie_set pBar d"

subsection \<open>The view of the manager\<close>

definition bar_view :: "bar_dom \<Rightarrow> progress_dom" where
  "bar_view d = \<lparr> pd_pie = False, pd_label = bd_label d, pd_values = map fst (bd_parts d) \<rparr>"

definition pie_view :: "pie_dom \<Rightarrow> progress_dom" where
  "pie_view d = \<lparr> pd_pie = True, pd_label = fst (pi_tooltip d), pd_values = pi_sectors d \<rparr>"

fun tip_events :: "progress \<Rightarrow> pie_event list \<Rightarrow> progress" where
  \<comment> \<open>the progress bar of the last response\<close>
  "tip_events b [] = b"
| "tip_events b (PieSet c # es) = tip_events c es"
| "tip_events b (_ # es) = tip_events b es"

definition pie_run :: "(js_num \<Rightarrow> string) \<Rightarrow> progress \<Rightarrow> pie_event list \<Rightarrow> pie_dom" where
  \<comment> \<open>a pie after its creation, its first numbers and some events\<close>
  "pie_run toString b es = foldl (\<lambda>d e. pie_step e d) (pie_set b (new_pie_dom toString b)) es"

lemma pie_fold:
  assumes "pi_sectors d = pie_degrees b"
  shows "pi_tooltip (foldl (\<lambda>d e. pie_step e d) d es) = pi_tooltip d \<and>
    pi_sectors (foldl (\<lambda>d e. pie_step e d) d es) = pie_degrees (tip_events b es)"
  using assms
proof (induction es arbitrary: b d)
  case (Cons e es)
  show ?case
  proof (cases e)
    case (PieSet c)
    have "pi_sectors (pie_set c d) = pie_degrees c" by (simp add: pie_set_def pie_degrees_def Let_def)
    from Cons.IH [OF this] show ?thesis by (simp add: PieSet) (simp add: pie_set_def Let_def)
  qed (use Cons in simp_all)
qed simp

subsection \<open>Properties\<close>

text \<open>
  The elements implement what the manager relies on: seen through their kind, their name and their
  values, the constructors create the elements of the manager, the methods \<open>set\<close> update them as the
  manager says, and neither a new width nor the mouse changes what it sees.
\<close>

theorem progress_elements_refine:
  "bar_view (new_bar_dom b) = create_dom False b \<and> pie_view (new_pie_dom toString b) = create_dom True b \<and>
   bar_view (bar_set toString b d) = set_dom b (bar_view d) \<and> pie_view (pie_set b e) = set_dom b (pie_view e) \<and>
   bar_view (bar_resize w l d) = bar_view d \<and> pie_view (pie_step PieOver e) = pie_view e \<and>
   pie_view (pie_step (PieMove x y h) e) = pie_view e \<and> pie_view (pie_step PieOut e) = pie_view e"
  by (simp add: bar_view_def pie_view_def new_bar_dom_def new_pie_dom_def create_dom_def createTooltip_def bar_set_def
      set_dom_def pie_set_def bar_widths_def pie_degrees_def bar_resize_def Let_def)

text \<open>
  The tooltip of a pie is never updated: after any responses and mouse events the sectors are those
  of the last response, while the tooltip has the name and the numbers of the response that
  created the pie.
\<close>

theorem pie_tooltip_stale:
  "pi_sectors (pie_run toString b es) = pie_degrees (tip_events b es) \<and>
   pi_tooltip (pie_run toString b es) = createTooltip toString b"
proof -
  let ?d = "pie_set b (new_pie_dom toString b)"
  have "pi_sectors ?d = pie_degrees b" by (simp add: pie_set_def pie_degrees_def Let_def)
  from pie_fold [OF this] show ?thesis
    by (simp add: pie_run_def) (simp add: pie_set_def new_pie_dom_def Let_def)
qed

subsection \<open>Animations\<close>

text \<open>
  An animation runs for 200 milliseconds from the style of the element to a keyframe, or backwards;
  afterwards the element has its own style again.  How much of the way is done at a share of the
  time is the easing function of the browser, an argument.
\<close>

datatype keyframe = ScaleToZero | DownBy rat

record animation =
  an_keyframe :: keyframe
  an_reverse :: bool

definition pie_show :: animation where
  "pie_show = \<lparr> an_keyframe = ScaleToZero, an_reverse = False \<rparr>"

definition bar_show :: "rat \<Rightarrow> rat \<Rightarrow> rat \<Rightarrow> rat \<Rightarrow> bar_dom \<Rightarrow> bar_dom \<times> animation" where
  \<comment> \<open>the panes are resized before, by \<open>createProgressBarDom\<close>\<close>
  "bar_show winH offsetTop domWidth labelWidth d =
     (bar_resize domWidth labelWidth d, \<lparr> an_keyframe = DownBy (winH - offsetTop), an_reverse = True \<rparr>)"

definition element_remove :: "rat \<Rightarrow> rat \<Rightarrow> animation" where
  \<comment> \<open>\<open>remove\<close> of both classes; the element leaves the container at the end\<close>
  "element_remove winH offsetTop = \<lparr> an_keyframe = DownBy (winH - offsetTop), an_reverse = False \<rparr>"

definition way_done :: "(rat \<Rightarrow> rat) \<Rightarrow> animation \<Rightarrow> rat \<Rightarrow> rat" where
  "way_done ease a t = ease (if an_reverse a then 1 - t else t)"

definition top_at :: "(rat \<Rightarrow> rat) \<Rightarrow> animation \<Rightarrow> rat \<Rightarrow> rat \<Rightarrow> rat" where
  "top_at ease a offsetTop t = offsetTop + (case an_keyframe a of DownBy y \<Rightarrow> y * way_done ease a t | ScaleToZero \<Rightarrow> 0)"

definition scale_at :: "(rat \<Rightarrow> rat) \<Rightarrow> animation \<Rightarrow> rat \<Rightarrow> rat" where
  "scale_at ease a t = (case an_keyframe a of ScaleToZero \<Rightarrow> 1 - way_done ease a t | DownBy y \<Rightarrow> 1)"

text \<open>
  A new bar rises from below the window to its place, and a removed element sinks from its place
  to below the window.  A new pie, whose animation is not reversed, starts in full size and shrinks
  to nothing before it stays in full size.
\<close>

theorem progress_animations:
  assumes "ease 0 = 0" "ease 1 = 1" "a = snd (bar_show winH offsetTop dw lw d)" "b = element_remove winH offsetTop"
  shows "top_at ease a offsetTop 0 = winH \<and> top_at ease a offsetTop 1 = offsetTop \<and>
    top_at ease b offsetTop 0 = offsetTop \<and> top_at ease b offsetTop 1 = winH \<and>
    scale_at ease pie_show 0 = 1 \<and> scale_at ease pie_show 1 = 0"
  using assms by (simp add: top_at_def scale_at_def way_done_def bar_show_def element_remove_def pie_show_def)

theorem progress_animations_witness: "scale_at id pie_show 1 = 0 \<and> top_at id (element_remove 900 850) 850 1 = 900"
  using progress_animations [of id, OF _ _ refl refl, of 900 850] by simp

end
