(* ===== verification/Sankey_Drawing.thy ===== *)
theory Sankey_Drawing
  imports Sankey
begin

text \<open>
  What \<open>drawSankey\<close> of \<open>monitoring/web/src/component.ts\<close> draws: the box of the component in the
  middle, on its right the ports it sends from and the ports it sends to, on its left those it
  receives from.  The places come from d3-sankey, which is an argument; it raises for a graph with
  a circle.
\<close>

subsection \<open>The layout\<close>

record layout_node = sankey_node +
  ln_x0 :: js_num
  ln_x1 :: js_num
  ln_value :: js_num

record layout_link =
  ll_source :: nat \<comment> \<open>the index of the node\<close>
  ll_target :: nat
  ll_width :: js_num
  ll_value :: js_num

record extent =
  ex_x0 :: js_num
  ex_y0 :: js_num
  ex_x1 :: js_num
  ex_y1 :: js_num

type_synonym sankey_layout = "extent \<Rightarrow> string list \<Rightarrow> link list \<Rightarrow> (layout_node list \<times> layout_link list) js_result"

definition link_edges :: "link list \<Rightarrow> (string \<times> string) set" where
  "link_edges links = (\<lambda>l. (lk_source l, lk_target l)) ` set links"

definition lays_out :: "sankey_layout \<Rightarrow> bool" where
  \<comment> \<open>d3-sankey: for nodes with different names that contain the ends of the links, it raises for a
     circle and otherwise keeps the nodes and the links and connects them\<close>
  "lays_out lay \<longleftrightarrow> (\<forall>ext names links. distinct names \<longrightarrow> (\<forall>l \<in> set links. lk_source l \<in> set names \<and> lk_target l \<in> set names) \<longrightarrow>
     (if acyclic (link_edges links) then
        \<exists>nodes ls. lay ext names links = Inr (nodes, ls) \<and> map sn_name nodes = names \<and> length ls = length links \<and>
          (\<forall>i < length links. ll_source (ls ! i) < length names \<and> names ! ll_source (ls ! i) = lk_source (links ! i) \<and>
             ll_target (ls ! i) < length names \<and> names ! ll_target (ls ! i) = lk_target (links ! i))
      else \<exists>e. lay ext names links = Inl e))"

definition originate_extent :: "js_num \<Rightarrow> js_num \<Rightarrow> extent" where
  "originate_extent w h = \<lparr> ex_x0 = w * 2 / 3, ex_y0 = h / 3, ex_x1 = w, ex_y1 = h * 2 / 3 \<rparr>"

definition terminate_extent :: "js_num \<Rightarrow> js_num \<Rightarrow> extent" where
  "terminate_extent w h = \<lparr> ex_x0 = 0, ex_y0 = h / 3, ex_x1 = w / 3, ex_y1 = h * 2 / 3 \<rparr>"

subsection \<open>What is drawn\<close>

record sankey_box =
  sb_x :: js_num
  sb_y :: js_num
  sb_width :: js_num
  sb_height :: js_num
  sb_title :: string

record sankey_band =
  bd_source :: "js_num \<times> js_num \<times> js_num" \<comment> \<open>the right end of the source box, its top and its bottom\<close>
  bd_target :: "js_num \<times> js_num \<times> js_num" \<comment> \<open>the left end of the target box, its top and its bottom\<close>
  bd_mid :: "js_num \<times> js_num \<times> js_num" \<comment> \<open>the control points between them\<close>
  bd_title :: string

record sankey_label =
  sl_x :: js_num
  sl_y :: js_num
  sl_end :: bool \<comment> \<open>the anchor is \<open>end\<close> and not \<open>start\<close>\<close>
  sl_text :: string

record sankey_format =
  sf_toString :: "js_num \<Rightarrow> string"
  sf_toLocaleString :: "js_num \<Rightarrow> string"

record sankey_side =
  ss_boxes :: "sankey_box list"
  ss_bands :: "sankey_band list"
  ss_labels :: "sankey_label list"

definition node_box :: "layout_node \<Rightarrow> sankey_box" where
  "node_box d = \<lparr> sb_x = ln_x0 d, sb_y = sn_y0 d, sb_width = ln_x1 d - ln_x0 d,
     sb_height = (if sn_y1 d > sn_y0 d then js_max2 (sn_y1 d - sn_y0 d) 1 else 0), sb_title = sn_name d \<rparr>"

definition arrow :: string where
  \<comment> \<open>an arrow between blanks, in UTF-8\<close>
  "arrow = '' '' @ [char_of (226 :: nat), char_of (134 :: nat), char_of (146 :: nat)] @ '' ''"

definition link_band :: "sankey_format \<Rightarrow> layout_node list \<Rightarrow> layout_link \<Rightarrow> sankey_band" where
  "link_band F nodes l =
     (let s = nodes ! ll_source l; t = nodes ! ll_target l
      in \<lparr> bd_source = (ln_x1 s, sn_y0 s, sn_y1 s), bd_target = (ln_x0 t, sn_y0 t, sn_y1 t),
           bd_mid = ((ln_x1 s + ln_x0 t) / 2, (sn_y0 s + sn_y0 t * 5) / 6, (sn_y1 s * 5 + sn_y1 t) / 6),
           bd_title = sn_name s @ arrow @ sn_name t @ [char_of (10 :: nat)] @ sf_toLocaleString F (ll_value l) \<rparr>)"

definition node_label :: "bool \<Rightarrow> string \<Rightarrow> layout_node \<Rightarrow> sankey_label" where
  \<comment> \<open>left of the box, or right of it\<close>
  "node_label left t d = \<lparr> sl_x = (if left then ln_x0 d - 5 else ln_x1 d + 5), sl_y = (sn_y0 d + sn_y1 d) / 2 + 4,
     sl_end = left, sl_text = t \<rparr>"

definition draw_side :: "sankey_format \<Rightarrow> bool \<Rightarrow> js_num \<Rightarrow> sankey \<Rightarrow> layout_node list \<Rightarrow> layout_link list \<Rightarrow> sankey_side" where
  \<comment> \<open>the right side (\<open>originate\<close>) writes the names of the own ports and of the other ports on the
     left of the boxes and the traffic on their right; the left side mirrors this\<close>
  "draw_side F originate canvasHeight s nodes0 links =
     (let nodes = placed (sk_name s) canvasHeight nodes0;
          own = filter (\<lambda>d. js_includes (sn_name d) (sk_name s)) nodes;
          others = filter (\<lambda>d. \<not> js_includes (sn_name d) (sk_name s) \<and> sn_y1 d > sn_y0 d) nodes
      in \<lparr> ss_boxes = map node_box nodes,
           ss_bands = map (link_band F nodes) (filter (\<lambda>l. ll_width l > 0) links),
           ss_labels = map (\<lambda>d. node_label originate (port_label (sn_name d)) d) own @
             map (\<lambda>d. node_label (\<not> originate) (port_text (sf_toString F) s (ln_value d)) d) own @
             map (\<lambda>d. node_label originate (sn_name d) d) others \<rparr>)"

definition empty_side :: sankey_side where
  "empty_side = \<lparr> ss_boxes = [], ss_bands = [], ss_labels = [] \<rparr>"

definition side_of :: "sankey_layout \<Rightarrow> sankey_format \<Rightarrow> bool \<Rightarrow> extent \<Rightarrow> js_num \<Rightarrow> sankey \<Rightarrow> string list \<Rightarrow> link list \<Rightarrow> sankey_side js_result" where
  "side_of lay F originate ext canvasHeight s ports links =
     (if ports \<noteq> [] \<and> links \<noteq> [] then
        bind_result (lay ext ports links) (\<lambda>(nodes, ls). Inr (draw_side F originate canvasHeight s nodes ls))
      else Inr empty_side)"

definition center_rect :: "js_num \<Rightarrow> js_num \<Rightarrow> sankey_box" where
  "center_rect w h = \<lparr> sb_x = w / 3, sb_y = h / 3, sb_width = w / 3, sb_height = h / 3, sb_title = [] \<rparr>"

definition center_text :: "js_num \<Rightarrow> js_num \<Rightarrow> sankey \<Rightarrow> js_num \<times> js_num \<times> string" where
  \<comment> \<open>centred at the point\<close>
  "center_text w h s = (w / 2, h / 4, sk_name s)"

definition draw_ports :: "sankey_layout \<Rightarrow> sankey_format \<Rightarrow> js_num \<Rightarrow> js_num \<Rightarrow> sankey \<Rightarrow> link list \<Rightarrow> (sankey_side \<times> sankey_side) js_result" where
  \<comment> \<open>the right side, then the left side; an exception of the first skips the second\<close>
  "draw_ports lay F w h s links =
     bind_result (side_of lay F True (originate_extent w h) h s (portsOriginate s links) (linksOriginate s links)) (\<lambda>out.
     bind_result (side_of lay F False (terminate_extent w h) h s (portsTerminate s links) (linksTerminate s links)) (\<lambda>inp.
     Inr (out, inp)))"

subsection \<open>The graphs\<close>

lemma set_portsOriginate: "set (portsOriginate s ls) = lk_source ` set (linksOriginate s ls) \<union> lk_target ` set (linksOriginate s ls)"
  by (simp add: portsOriginate_def)

lemma set_portsTerminate:
  "set (portsTerminate s ls) =
     lk_source ` set (linksTerminate s ls) \<union> lk_target ` set (linksTerminate s ls) \<union> lk_source ` set (linksOriginate s ls)"
  by (simp add: portsTerminate_def Un_assoc)

lemma ports_distinct: "distinct (portsOriginate s ls)" "distinct (portsTerminate s ls)"
  by (simp_all add: portsOriginate_def portsTerminate_def)

lemma bipartite_acyclic:
  assumes "\<And>a b. (a, b) \<in> r \<Longrightarrow> P a \<and> \<not> P b"
  shows "acyclic r"
proof -
  have "P a \<and> \<not> P b" if "(a, b) \<in> r\<^sup>+" for a b
    using that by (induction rule: trancl_induct) (use assms in blast)+
  then show ?thesis by (auto simp: acyclic_def)
qed

lemma placed_names: "map sn_name (placed n h es) = map sn_name es"
proof -
  have "map sn_name (place_nodes n h k i es) = map sn_name es" for k i
    by (induction es arbitrary: i) (simp_all add: Let_def)
  then show ?thesis by (simp add: placed_def)
qed

lemma side_of_laid:
  assumes "lays_out lay" "distinct ports" "\<forall>l \<in> set links. lk_source l \<in> set ports \<and> lk_target l \<in> set ports"
  shows "(\<exists>e. side_of lay F right ext h s ports links = Inl e) \<longleftrightarrow> \<not> acyclic (link_edges links)"
    and "side_of lay F right ext h s ports links = Inr side \<Longrightarrow> links \<noteq> [] \<Longrightarrow> map sb_title (ss_boxes side) = ports"
proof -
  have lay: "if acyclic (link_edges links) then \<exists>nodes ls. lay ext ports links = Inr (nodes, ls) \<and> map sn_name nodes = ports
      else \<exists>e. lay ext ports links = Inl e"
    using assms unfolding lays_out_def by metis
  have nonempty: "ports \<noteq> []" if "links \<noteq> []" using assms(3) that by (cases links) auto
  show "(\<exists>e. side_of lay F right ext h s ports links = Inl e) \<longleftrightarrow> \<not> acyclic (link_edges links)"
  proof (cases "links = []")
    case True
    then show ?thesis by (simp add: side_of_def link_edges_def acyclic_def)
  next
    case False
    then show ?thesis using lay nonempty by (auto simp: side_of_def bind_result_def split: if_splits)
  qed
  show "map sb_title (ss_boxes side) = ports" if "side_of lay F right ext h s ports links = Inr side" "links \<noteq> []"
    using that lay nonempty
    by (auto simp: side_of_def bind_result_def draw_side_def Let_def comp_def node_box_def placed_names split: if_splits)
qed

subsection \<open>Properties\<close>

lemma originate_ends: "\<forall>l \<in> set (linksOriginate s ls). lk_source l \<in> set (portsOriginate s ls) \<and> lk_target l \<in> set (portsOriginate s ls)"
  by (auto simp: set_portsOriginate)

lemma terminate_ends: "\<forall>l \<in> set (linksTerminate s ls). lk_source l \<in> set (portsTerminate s ls) \<and> lk_target l \<in> set (portsTerminate s ls)"
  by (auto simp: set_portsTerminate)

lemma inr_iff: "(\<exists>y. x = Inr y) \<longleftrightarrow> \<not> (\<exists>e. x = Inl e)"
  by (cases x) auto

text \<open>
  (C26) When the diagram can be drawn: with a layout that raises exactly for circles, drawing raises
  exactly when the links from the component or the links to it form a circle.  A component that
  does not send to itself has no such circle: both sides are drawn, with one box for each port,
  and each end of a link has its box.
\<close>

theorem sankey_draws_ports:
  assumes "lays_out lay" "pic = draw_ports lay F w h s links"
  shows "((\<exists>e. pic = Inl e) \<longleftrightarrow> \<not> acyclic (link_edges (linksOriginate s links)) \<or> \<not> acyclic (link_edges (linksTerminate s links))) \<and>
    ((\<forall>l \<in> set links. \<not> (js_includes (lk_source l) (sk_name s) \<and> js_includes (lk_target l) (sk_name s))) \<longrightarrow>
     (\<exists>out inp. pic = Inr (out, inp) \<and>
        (\<forall>l \<in> set (linksOriginate s links). {lk_source l, lk_target l} \<subseteq> set (map sb_title (ss_boxes out))) \<and>
        (\<forall>l \<in> set (linksTerminate s links). {lk_source l, lk_target l} \<subseteq> set (map sb_title (ss_boxes inp))) \<and>
        distinct (map sb_title (ss_boxes out)) \<and> distinct (map sb_title (ss_boxes inp))))"
proof -
  let ?out = "side_of lay F True (originate_extent w h) h s (portsOriginate s links) (linksOriginate s links)"
  let ?inp = "side_of lay F False (terminate_extent w h) h s (portsTerminate s links) (linksTerminate s links)"
  note out = side_of_laid [OF assms(1) ports_distinct(1) originate_ends [of s links], of F True "originate_extent w h" h s]
  note inp = side_of_laid [OF assms(1) ports_distinct(2) terminate_ends [of s links], of F False "terminate_extent w h" h s]
  have fails: "(\<exists>e. pic = Inl e) \<longleftrightarrow> (\<exists>e. ?out = Inl e) \<or> (\<exists>e. ?inp = Inl e)"
    unfolding assms(2) draw_ports_def by (cases ?out; cases ?inp) (simp_all add: bind_result_def)

  have "\<exists>o' i'. pic = Inr (o', i') \<and>
      (\<forall>l \<in> set (linksOriginate s links). {lk_source l, lk_target l} \<subseteq> set (map sb_title (ss_boxes o'))) \<and>
      (\<forall>l \<in> set (linksTerminate s links). {lk_source l, lk_target l} \<subseteq> set (map sb_title (ss_boxes i'))) \<and>
      distinct (map sb_title (ss_boxes o')) \<and> distinct (map sb_title (ss_boxes i'))"
    if apart: "\<forall>l \<in> set links. \<not> (js_includes (lk_source l) (sk_name s) \<and> js_includes (lk_target l) (sk_name s))"
  proof -
    have "acyclic (link_edges (linksOriginate s links))"
      by (rule bipartite_acyclic [where P = "\<lambda>x. js_includes x (sk_name s)"])
        (use apart in \<open>auto simp: link_edges_def linksOriginate_def\<close>)
    moreover have "acyclic (link_edges (linksTerminate s links))"
      by (rule bipartite_acyclic [where P = "\<lambda>x. \<not> js_includes x (sk_name s)"])
        (use apart in \<open>auto simp: link_edges_def linksTerminate_def\<close>)
    ultimately obtain o' i' where r: "?out = Inr o'" "?inp = Inr i'"
      using out(1) inp(1) by (metis sum.exhaust)
    then have "pic = Inr (o', i')" by (simp add: assms(2) draw_ports_def bind_result_def)
    moreover have "linksOriginate s links \<noteq> [] \<Longrightarrow> map sb_title (ss_boxes o') = portsOriginate s links" using out(2) r(1) by blast
    moreover have "linksOriginate s links = [] \<Longrightarrow> ss_boxes o' = []" using r(1) by (auto simp: side_of_def empty_side_def)
    moreover have "linksTerminate s links \<noteq> [] \<Longrightarrow> map sb_title (ss_boxes i') = portsTerminate s links" using inp(2) r(2) by blast
    moreover have "linksTerminate s links = [] \<Longrightarrow> ss_boxes i' = []" using r(2) by (auto simp: side_of_def empty_side_def)
    ultimately show ?thesis using originate_ends [of s links] terminate_ends [of s links] ports_distinct [of s links]
      by (cases "linksOriginate s links = []"; cases "linksTerminate s links = []") (auto simp del: set_map)
  qed
  then show ?thesis using fails out(1) inp(1) by blast
qed

definition flat_layout :: sankey_layout where
  \<comment> \<open>boxes without a height, one for each name\<close>
  "flat_layout ext names links =
     (if acyclic (link_edges links) then
        Inr (map (\<lambda>n. \<lparr>sn_name = n, sn_y0 = 0, sn_y1 = 0, ln_x0 = 0, ln_x1 = 10, ln_value = 0\<rparr>) names,
             map (\<lambda>l. \<lparr>ll_source = length (takeWhile (\<lambda>n. n \<noteq> lk_source l) names),
               ll_target = length (takeWhile (\<lambda>n. n \<noteq> lk_target l) names), ll_width = 1, ll_value = 1\<rparr>) links)
      else Inl TypeError)"

definition plain_format :: sankey_format where
  "plain_format = \<lparr> sf_toString = (\<lambda>_. []), sf_toLocaleString = (\<lambda>_. []) \<rparr>"

lemma find_index: "x \<in> set xs \<Longrightarrow> length (takeWhile (\<lambda>n. n \<noteq> x) xs) < length xs \<and> xs ! length (takeWhile (\<lambda>n. n \<noteq> x) xs) = x"
  by (induction xs) auto

lemma lays_out_flat: "lays_out flat_layout"
  by (auto simp: lays_out_def flat_layout_def comp_def find_index)

theorem sankey_draws_ports_witness:
  "(\<exists>out inp. draw_ports flat_layout plain_format 300 300 (new_sankey ''A'') [parse_link ''A.P|B.Q|Byte'' 3] = Inr (out, inp)) \<and>
   (\<exists>e. draw_ports flat_layout plain_format 300 300 (new_sankey ''A'') [parse_link ''A.P|A.P|Byte'' 3] = Inl e)"
proof -
  let ?l = "parse_link ''A.P|B.Q|Byte'' 3" and ?k = "parse_link ''A.P|A.P|Byte'' 3"
  have "\<not> js_includes (lk_target ?l) (sk_name (new_sankey ''A''))" by code_simp
  moreover have "link_edges (linksOriginate (new_sankey ''A'') [?k]) = {(''A.P'', ''A.P'')}" by code_simp
  then have "\<not> acyclic (link_edges (linksOriginate (new_sankey ''A'') [?k]))" by (auto simp: acyclic_def)
  ultimately show ?thesis
    using sankey_draws_ports [OF lays_out_flat refl, of plain_format 300 300 "new_sankey ''A''" "[?l]"]
      sankey_draws_ports [OF lays_out_flat refl, of plain_format 300 300 "new_sankey ''A''" "[?k]"] by auto
qed

end
