(* ===== verification/Profile_Drawing.thy ===== *)
theory Profile_Drawing
  imports Profiler
begin

text \<open>
  The edges of a profile and the drawing of the network (\<open>monitoring/web/src/resource.ts\<close>).  An
  edge stands for the calls of one function by another; it is drawn as an arc between the rows of
  the two functions, as wide as its share of the time.  While the mouse is over a function the
  edges of other functions are dimmed.
\<close>

subsection \<open>Names of edges\<close>

lemma digits_no_dash: "CHR ''-'' \<notin> set (digits n)"
proof (induction n rule: digits.induct)
  case (1 n)
  have char: "char_of (48 + d) \<noteq> CHR ''-''" if "d < 10" for d :: nat
  proof
    assume "char_of (48 + d) = CHR ''-''"
    then have "of_char (char_of (48 + d) :: char) = (of_char (CHR ''-'') :: nat)" by simp
    then show False using that by simp
  qed
  show ?case using 1 char [of "n mod 10"] char [of n] by (auto simp: digits.simps [of n])
qed

lemma digits_inj: "digits a = digits b \<longleftrightarrow> a = b"
  by (metis nat_of_digits_digits)

lemma getEdgeName_inj: "getEdgeName a b = getEdgeName c d \<longleftrightarrow> a = c \<and> b = d"
proof -
  have first: "takeWhile (\<lambda>ch. ch \<noteq> CHR ''-'') (getEdgeName a b) = digits a" for a b
    using digits_no_dash [of a] by (auto simp: getEdgeName_def takeWhile_tail)
  show ?thesis
  proof
    assume eq: "getEdgeName a b = getEdgeName c d"
    then have "digits a = digits c" using first by metis
    then show "a = c \<and> b = d" using eq by (simp add: getEdgeName_def digits_inj)
  qed simp
qed

subsection \<open>What the edges count\<close>

definition calls :: "nat list \<Rightarrow> nat \<Rightarrow> nat \<Rightarrow> nat" where
  \<comment> \<open>how often a stack has the function of place \<open>a\<close> directly above the one of place \<open>b\<close> that it calls\<close>
  "calls fs a b = count_list (zip (tl fs) fs) (Suc a, Suc b)"

definition call_count :: "nat \<Rightarrow> nat \<Rightarrow> pprof_sample list \<Rightarrow> nat" where
  "call_count a b ss = sum_list (map (\<lambda>s. calls (ps_stack s) a b) ss)"

definition call_total :: "nat \<Rightarrow> nat \<Rightarrow> pprof_sample list \<Rightarrow> int" where
  "call_total a b ss = sum_list (map (\<lambda>s. ps_value s * int (calls (ps_stack s) a b)) ss)"

definition edge_is :: "nat \<Rightarrow> int \<Rightarrow> nat \<Rightarrow> nat \<Rightarrow> pprof_edge option \<Rightarrow> bool" where
  "edge_is n t a b r = (case r of None \<Rightarrow> n = 0 \<and> t = 0
     | Some e \<Rightarrow> 0 < n \<and> pe_caller e = a \<and> pe_callee e = b \<and> pe_time e = t)"

definition edges_are :: "(nat \<Rightarrow> nat \<Rightarrow> nat) \<Rightarrow> (nat \<Rightarrow> nat \<Rightarrow> int) \<Rightarrow> (string, pprof_edge) js_map \<Rightarrow> bool" where
  "edges_are N T es \<longleftrightarrow> map_ok es \<and> (\<forall>k \<in> dom (map_get es). \<exists>a b. k = getEdgeName a b) \<and>
     (\<forall>a b. edge_is (N a b) (T a b) a b (map_get es (getEdgeName a b)))"

lemma edges_are_none: "edges_are (\<lambda>_ _. 0) (\<lambda>_ _. 0) []"
  by (simp add: edges_are_def edge_is_def)

lemma add_to_edge_edges:
  assumes "edges_are N T (nw_edges nw)" "c < length (nw_nodes nw)" "add_to_edge v c d nw = Inr nw'"
  shows "edges_are (\<lambda>a b. N a b + (if a = c \<and> b = d then 1 else 0)) (\<lambda>a b. T a b + (if a = c \<and> b = d then v else 0)) (nw_edges nw')"
proof -
  let ?k = "getEdgeName c d"
  let ?e = "case map_get (nw_edges nw) ?k of
    None \<Rightarrow> \<lparr> pe_time = v, pe_timePercentage = 0, pe_caller = c, pe_callee = d \<rparr> | Some e \<Rightarrow> e\<lparr>pe_time := pe_time e + v\<rparr>"
  have get: "map_get (nw_edges nw') = (map_get (nw_edges nw))(?k \<mapsto> ?e)" and ok: "map_ok (nw_edges nw')"
  proof -
    have "map_ok (nw_edges nw)" using assms(1) by (simp add: edges_are_def)
    moreover have "nw_edges nw' = map_set ?k ?e (if map_get (nw_edges nw) ?k = None
        then map_set ?k \<lparr> pe_time = 0, pe_timePercentage = 0, pe_caller = c, pe_callee = d \<rparr> (nw_edges nw) else nw_edges nw)"
      using assms(2,3)
      by (cases "map_get (nw_edges nw) ?k") (auto simp: add_to_edge_def getOrCreateEdge_def Let_def update_conv')
    ultimately show "map_get (nw_edges nw') = (map_get (nw_edges nw))(?k \<mapsto> ?e)" "map_ok (nw_edges nw')"
      by (auto simp: update_conv' jm.invar_put)
  qed
  have "edge_is (N c d) (T c d) c d (map_get (nw_edges nw) ?k)" using assms(1) by (simp add: edges_are_def)
  then have new: "edge_is (N c d + 1) (T c d + v) c d (Some ?e)"
    by (auto simp: edge_is_def split: option.splits)
  have "edge_is (N a b + (if a = c \<and> b = d then 1 else 0)) (T a b + (if a = c \<and> b = d then v else 0)) a b
      (map_get (nw_edges nw') (getEdgeName a b))" for a b
  proof (cases "a = c \<and> b = d")
    case True
    then show ?thesis using new by (simp add: get)
  next
    case False
    then show ?thesis using assms(1) by (auto simp: get getEdgeName_inj edges_are_def)
  qed
  moreover have "\<forall>k \<in> dom (map_get (nw_edges nw')). \<exists>a b. k = getEdgeName a b"
    using assms(1) unfolding get edges_are_def dom_fun_upd by auto
  ultimately show ?thesis using ok by (simp only: edges_are_def) blast
qed

lemma calls_Cons: "calls (callee # caller # rest) a b =
    (if caller = Suc a \<and> callee = Suc b then 1 else 0) + calls (caller # rest) a b"
  by (simp add: calls_def)

lemma add_calls_edges:
  assumes "edges_are N T (nw_edges nw)" "\<forall>f \<in> set fs. 1 \<le> f \<and> f \<le> length (nw_nodes nw)" "add_calls v fs nw = Inr nw'"
  shows "edges_are (\<lambda>a b. N a b + calls fs a b) (\<lambda>a b. T a b + v * int (calls fs a b)) (nw_edges nw')"
  using assms
proof (induction v fs nw arbitrary: N T rule: add_calls.induct)
  case (1 v callee caller rest nw)
  obtain nw1 where nw1: "add_to_edge v (caller - 1) (callee - 1) nw = Inr nw1" "add_calls v (caller # rest) nw1 = Inr nw'"
    using "1.prems"(3) by (auto simp: bind_result_Inr_iff)
  have c: "caller - 1 < length (nw_nodes nw)" using "1.prems"(2) by auto
  obtain nw2 where "add_to_edge v (caller - 1) (callee - 1) nw = Inr nw2" "same_times (nw_nodes nw) (nw_nodes nw2)"
    using add_to_edge_ok [OF c] by blast
  then have len: "length (nw_nodes nw1) = length (nw_nodes nw)" using nw1(1) same_times_length by simp
  have eq: "(a = caller - 1 \<and> b = callee - 1) = (caller = Suc a \<and> callee = Suc b)" for a b
    using "1.prems"(2) by auto
  from add_to_edge_edges [OF "1.prems"(1) c nw1(1)]
  have "edges_are (\<lambda>a b. N a b + (if caller = Suc a \<and> callee = Suc b then 1 else 0))
      (\<lambda>a b. T a b + (if caller = Suc a \<and> callee = Suc b then v else 0)) (nw_edges nw1)" unfolding eq .
  from "1.IH" [OF this _ nw1(2)] show ?case using "1.prems"(2) len
    by (simp add: calls_Cons add.assoc distrib_left) (simp add: if_distrib cong: if_cong)
qed (auto simp: calls_def)

lemma add_samples_edges:
  assumes "edges_are N T (nw_edges nw)" "profile_ok (length (nw_nodes nw)) ss" "add_samples ss nw = Inr nw'"
  shows "edges_are (\<lambda>a b. N a b + call_count a b ss) (\<lambda>a b. T a b + call_total a b ss) (nw_edges nw')"
  using assms
proof (induction ss arbitrary: nw N T)
  case (Cons s ss)
  obtain nw1 where nw1: "add_sample s nw = Inr nw1" "add_samples ss nw1 = Inr nw'"
    using Cons.prems(3) by (auto simp: bind_result_Inr_iff)
  have st: "\<forall>f \<in> set (ps_stack s). 1 \<le> f \<and> f \<le> length (nw_nodes nw)" using Cons.prems(2) by (simp add: profile_ok_def)
  have len: "length (nw_nodes nw1) = length (nw_nodes nw)"
    using add_sample_ok [OF st] nw1(1) by (auto simp: grown_def)
  obtain ns where ns: "add_frames True (ps_value s) (ps_stack s) (nw_nodes nw) = Inr ns" "length ns = length (nw_nodes nw)"
    using add_frames_ok [OF st, of True "ps_value s"] by auto
  have "add_calls (ps_value s) (ps_stack s) (nw\<lparr>nw_nodes := ns\<rparr>) = Inr nw1"
    using nw1(1) ns(1) by (simp add: add_sample_def)
  from add_calls_edges [OF _ _ this] Cons.prems(1) st ns(2)
  have "edges_are (\<lambda>a b. N a b + calls (ps_stack s) a b) (\<lambda>a b. T a b + ps_value s * int (calls (ps_stack s) a b)) (nw_edges nw1)"
    by simp
  from Cons.IH [OF this _ nw1(2)] Cons.prems(2) len show ?case
    by (simp add: profile_ok_def call_count_def call_total_def add.assoc)
qed (simp add: call_count_def call_total_def)

subsection \<open>Drawing\<close>

definition pprof_label :: "string \<Rightarrow> string" where
  \<comment> \<open>the last part of the path of a function\<close>
  "pprof_label name = last (split_on (CHR ''/'') name)"

definition row_y :: "pprof_node \<Rightarrow> rat" where
  \<comment> \<open>a row is 30 pixels high; an edge ends 7 pixels below the top of a row\<close>
  "row_y n = of_nat (pn_index n) * 30 + 7"

definition node_of :: "pprof_network \<Rightarrow> nat \<Rightarrow> pprof_node option" where
  \<comment> \<open>the object that an edge refers to\<close>
  "node_of nw place = find (\<lambda>n. pn_place n = place) (nw_nodes nw)"

record edge_arc =
  ea_y1 :: rat
  ea_y2 :: rat
  ea_radius :: rat
  ea_strokeWidth :: js_num

definition draw_edge :: "pprof_network \<Rightarrow> pprof_edge \<Rightarrow> edge_arc js_result" where
  "draw_edge nw e =
     (case (node_of nw (pe_caller e), node_of nw (pe_callee e)) of
        (Some caller, Some callee) \<Rightarrow>
          Inr \<lparr> ea_y1 = row_y caller, ea_y2 = row_y callee, ea_radius = \<bar>row_y callee - row_y caller\<bar> / 2,
                ea_strokeWidth = pe_timePercentage e * 10 \<rparr>
      | _ \<Rightarrow> Inl TypeError)"

definition profile_tooltip :: "(js_num \<Rightarrow> string) \<Rightarrow> pprof_node \<Rightarrow> string list" where
  "profile_tooltip toString n =
     [pn_name n, ''Time: '' @ toString (pn_timePercentage n * 100) @ ''%'',
      ''Self time: '' @ toString (pn_selfTimePercentage n * 100) @ ''%'']"

definition dimmed :: "pprof_network \<Rightarrow> pprof_node \<Rightarrow> pprof_edge \<Rightarrow> bool js_result" where
  \<comment> \<open>the edges that \<open>showTooltip\<close> makes transparent\<close>
  "dimmed nw d e =
     (case (node_of nw (pe_caller e), node_of nw (pe_callee e)) of
        (Some caller, Some callee) \<Rightarrow> Inr (pn_index caller \<noteq> pn_index d \<and> pn_index callee \<noteq> pn_index d)
      | _ \<Rightarrow> Inl TypeError)"

lemma numbered:
  "map pn_place (map (\<lambda>(i, n). n\<lparr>pn_index := i\<rparr>) (enumerate k ns)) = map pn_place ns"
  by (rule nth_equalityI) (simp_all add: nth_enumerate_eq)

lemma network_parts:
  assumes "profile_ok (length funcs) ss" "pprofDataToNetwork funcs ss = Inr nw"
  shows "(\<forall>a b. edge_is (call_count a b ss) (call_total a b ss) a b (map_get (nw_edges nw) (getEdgeName a b))) \<and>
    (\<forall>(k, e) \<in> set (nw_edges nw). \<exists>a b. k = getEdgeName a b) \<and> map_ok (nw_edges nw) \<and>
    mset (map pn_place (nw_nodes nw)) = mset [0..<length funcs] \<and>
    (\<forall>i < length (nw_nodes nw). pn_index (nw_nodes nw ! i) = i)"
proof -
  let ?nw0 = "\<lparr> nw_nodes = map new_pprof_node (enumerate 0 funcs), nw_edges = [] \<rparr>"
  let ?total = "sum_list (map ps_value ss)"
  let ?sort = "js_sort (\<lambda>a b. of_int_num (pn_time b) - of_int_num (pn_time a))"
  let ?share = "\<lambda>e. e\<lparr>pe_timePercentage := of_int_num (pe_time e) / of_int_num ?total\<rparr>"
  have ok: "profile_ok (length (nw_nodes ?nw0)) ss" using assms(1) by simp
  obtain nw1 where nw1: "add_samples ss ?nw0 = Inr nw1" "grown ss (nw_nodes ?nw0) (nw_nodes nw1)"
    using add_samples_ok [OF ok] by blast
  let ?sorted = "?sort (map (node_percentages ?total) (nw_nodes nw1))"
  have nw: "nw_nodes nw = map (\<lambda>(i, n). n\<lparr>pn_index := i\<rparr>) (enumerate 0 ?sorted)"
    "nw_edges nw = map (\<lambda>(k, e). (k, ?share e)) (nw_edges nw1)"
    using assms(2) nw1(1) by (auto simp: pprofDataToNetwork_def Let_def)
  have es: "edges_are (\<lambda>a b. call_count a b ss) (\<lambda>a b. call_total a b ss) (nw_edges nw1)"
    using add_samples_edges [OF _ ok nw1(1), of "\<lambda>_ _. 0" "\<lambda>_ _. 0"] edges_are_none by simp
  have get: "map_get (nw_edges nw) = map_option ?share \<circ> map_get (nw_edges nw1)" unfolding nw(2) by (rule map_of_map)
  have "edge_is (call_count a b ss) (call_total a b ss) a b (map_get (nw_edges nw) (getEdgeName a b))" for a b
  proof -
    have "edge_is (call_count a b ss) (call_total a b ss) a b (map_get (nw_edges nw1) (getEdgeName a b))"
      using es by (simp only: edges_are_def)
    moreover have "edge_is n t a b (map_option ?share r) = edge_is n t a b r" for n t r
      by (cases r) (simp_all add: edge_is_def)
    ultimately show ?thesis by (simp only: get comp_apply)
  qed
  moreover have keys: "map fst (nw_edges nw) = map fst (nw_edges nw1)" unfolding nw(2) by (induction "nw_edges nw1") auto
  have "\<forall>k \<in> set (map fst (nw_edges nw1)). \<exists>a b. k = getEdgeName a b"
    using es by (simp add: edges_are_def dom_map_of_conv_image_fst)
  then have "\<forall>(k, e) \<in> set (nw_edges nw). \<exists>a b. k = getEdgeName a b" unfolding keys [symmetric] by fastforce
  moreover have "map_ok (nw_edges nw)" using es keys by (simp add: edges_are_def)
  moreover have "mset (map pn_place (nw_nodes nw)) = mset [0..<length funcs]"
  proof -
    have "map pn_place (nw_nodes nw1) = map pn_place (nw_nodes ?nw0)" using nw1(2) by (simp add: grown_def same_funcs_def)
    also have "\<dots> = [0..<length funcs]"
      by (rule nth_equalityI) (simp_all add: new_pprof_node_def nth_enumerate_eq)
    finally have "map pn_place (map (node_percentages ?total) (nw_nodes nw1)) = [0..<length funcs]"
      by (simp add: node_percentages_def comp_def)
    then show ?thesis unfolding nw(1) numbered mset_map [of pn_place ?sorted] mset_js_sort
      by (simp only: mset_map [symmetric])
  qed
  moreover have "\<forall>i < length (nw_nodes nw). pn_index (nw_nodes nw ! i) = i"
    unfolding nw(1) by (simp add: nth_enumerate_eq)
  ultimately show ?thesis by blast
qed

text \<open>
  (C28) The edges of the profile are the calls of the samples: there is an edge from one function to
  another exactly when a stack has the first directly above the second, and its time is the value
  of the samples, each counted once for every such pair of frames.
\<close>

theorem profile_edges:
  assumes "profile_ok (length funcs) ss" "pprofDataToNetwork funcs ss = Inr nw"
  shows "case map_get (nw_edges nw) (getEdgeName a b) of
      None \<Rightarrow> call_count a b ss = 0
    | Some e \<Rightarrow> 0 < call_count a b ss \<and> pe_caller e = a \<and> pe_callee e = b \<and> pe_time e = call_total a b ss"
proof -
  have "edge_is (call_count a b ss) (call_total a b ss) a b (map_get (nw_edges nw) (getEdgeName a b))"
    using network_parts [OF assms] by blast
  then show ?thesis by (cases "map_get (nw_edges nw) (getEdgeName a b)") (simp_all only: edge_is_def option.case)
qed

theorem profile_edges_witness:
  "\<exists>nw e. pprofDataToNetwork [(1, ''main''), (2, ''tick'')] sample_profile = Inr nw \<and>
     map_get (nw_edges nw) (getEdgeName 0 1) = Some e \<and> pe_time e = 5"
proof -
  have ok: "profile_ok (length [(1 :: nat, ''main''), (2, ''tick'')]) sample_profile"
    by (simp add: profile_ok_def sample_profile_def)
  obtain nw where nw: "pprofDataToNetwork [(1, ''main''), (2, ''tick'')] sample_profile = Inr nw"
    by (rule profile_network [OF ok])
  have "call_count 0 1 sample_profile = 1" "call_total 0 1 sample_profile = 5"
    by (simp_all add: call_count_def call_total_def calls_def sample_profile_def)
  then show ?thesis using profile_edges [OF ok nw, of 0 1] nw
    by (cases "map_get (nw_edges nw) (getEdgeName 0 1)") auto
qed

lemma calls_places:
  assumes "profile_ok n ss" "0 < call_count a b ss"
  shows "a < n \<and> b < n"
proof -
  obtain s where s: "s \<in> set ss" "0 < calls (ps_stack s) a b"
    using assms(2) unfolding call_count_def by (induction ss) auto
  then have "(Suc a, Suc b) \<in> set (zip (tl (ps_stack s)) (ps_stack s))"
    by (simp add: calls_def) (metis count_list_0_iff less_numeral_extra(3))
  then have "Suc a \<in> set (ps_stack s)" "Suc b \<in> set (ps_stack s)"
    by (auto dest: set_zip_leftD set_zip_rightD intro: list.set_sel(2) [of "ps_stack s"] split: if_splits)
  then show ?thesis using assms(1) s(1) by (force simp: profile_ok_def)
qed

lemma node_of_place:
  assumes "mset (map pn_place (nw_nodes nw)) = mset [0..<n]" "p < n"
  shows "\<exists>i < length (nw_nodes nw). pn_place (nw_nodes nw ! i) = p \<and> node_of nw p = Some (nw_nodes nw ! i)"
proof -
  have "p \<in> set (map pn_place (nw_nodes nw))" using assms by (metis atLeast0LessThan lessThan_iff set_mset_mset set_upt)
  then have "node_of nw p \<noteq> None" by (auto simp: node_of_def find_None_iff)
  then show ?thesis unfolding node_of_def by (auto simp: find_Some_iff)
qed

text \<open>
  An edge is drawn from the row of its caller to the row of its callee, as a half circle, and
  while the mouse is over a function exactly the edges are dimmed that neither start nor end there.
\<close>

theorem profile_arcs:
  assumes "profile_ok (length funcs) ss" "pprofDataToNetwork funcs ss = Inr nw" "(k, e) \<in> set (nw_edges nw)"
    and "d < length (nw_nodes nw)"
  shows "\<exists>i j. i < length (nw_nodes nw) \<and> j < length (nw_nodes nw) \<and>
    pn_place (nw_nodes nw ! i) = pe_caller e \<and> pn_place (nw_nodes nw ! j) = pe_callee e \<and>
    draw_edge nw e = Inr \<lparr> ea_y1 = of_nat i * 30 + 7, ea_y2 = of_nat j * 30 + 7,
      ea_radius = \<bar>of_nat j - of_nat i\<bar> * 15, ea_strokeWidth = pe_timePercentage e * 10 \<rparr> \<and>
    dimmed nw (nw_nodes nw ! d) e = Inr (d \<noteq> i \<and> d \<noteq> j)"
proof -
  note parts = network_parts [OF assms(1,2)]
  obtain a b where k: "k = getEdgeName a b" using parts assms(3) by fastforce
  have get: "map_get (nw_edges nw) k = Some e" using parts assms(3) by simp
  have "edge_is (call_count a b ss) (call_total a b ss) a b (map_get (nw_edges nw) k)" using parts k by blast
  then have e: "0 < call_count a b ss" "pe_caller e = a" "pe_callee e = b"
    unfolding get edge_is_def option.case by blast+
  have "mset (map pn_place (nw_nodes nw)) = mset [0..<length funcs]" using parts by blast
  note place = node_of_place [OF this]
  obtain i where i: "i < length (nw_nodes nw)" "pn_place (nw_nodes nw ! i) = a" "node_of nw a = Some (nw_nodes nw ! i)"
    using place [of a] calls_places [OF assms(1) e(1)] by blast
  obtain j where j: "j < length (nw_nodes nw)" "pn_place (nw_nodes nw ! j) = b" "node_of nw b = Some (nw_nodes nw ! j)"
    using place [of b] calls_places [OF assms(1) e(1)] by blast
  have idx: "pn_index (nw_nodes nw ! m) = m" if "m < length (nw_nodes nw)" for m using parts that by blast
  have "\<bar>(of_nat j * 30 + 7) - (of_nat i * 30 + 7)\<bar> / 2 = \<bar>of_nat j - of_nat i :: rat\<bar> * 15"
  proof -
    have "(of_nat j * 30 + 7) - (of_nat i * 30 + 7) = (of_nat j - of_nat i :: rat) * 30" by (simp add: algebra_simps)
    then show ?thesis by (simp only: abs_mult)
  qed
  then have "draw_edge nw e = Inr \<lparr> ea_y1 = of_nat i * 30 + 7, ea_y2 = of_nat j * 30 + 7,
      ea_radius = \<bar>of_nat j - of_nat i\<bar> * 15, ea_strokeWidth = pe_timePercentage e * 10 \<rparr>"
    by (simp add: draw_edge_def e row_y_def i(3) j(3) idx [OF i(1)] idx [OF j(1)])
  moreover have "dimmed nw (nw_nodes nw ! d) e = Inr (d \<noteq> i \<and> d \<noteq> j)"
    by (auto simp: dimmed_def e i(3) j(3) idx [OF i(1)] idx [OF j(1)] idx [OF assms(4)])
  ultimately show ?thesis using i(1,2) j(1,2) e(2,3) by (intro exI [of _ i] exI [of _ j]) simp
qed

theorem profile_arcs_witness:
  "\<exists>nw e. pprofDataToNetwork [(1, ''main''), (2, ''tick'')] sample_profile = Inr nw \<and>
     map_get (nw_edges nw) (getEdgeName 0 1) = Some e \<and> (\<exists>arc. draw_edge nw e = Inr arc)"
proof -
  have ok: "profile_ok (length [(1 :: nat, ''main''), (2, ''tick'')]) sample_profile"
    by (simp add: profile_ok_def sample_profile_def)
  obtain nw where nw: "pprofDataToNetwork [(1, ''main''), (2, ''tick'')] sample_profile = Inr nw"
    by (rule profile_network [OF ok])
  have "edge_is (call_count 0 1 sample_profile) (call_total 0 1 sample_profile) 0 1 (map_get (nw_edges nw) (getEdgeName 0 1))"
    using network_parts [OF ok nw] by blast
  moreover have "call_count 0 1 sample_profile = 1" by (simp add: call_count_def calls_def sample_profile_def)
  ultimately obtain e where e: "map_get (nw_edges nw) (getEdgeName 0 1) = Some e"
    by (cases "map_get (nw_edges nw) (getEdgeName 0 1)") (simp_all add: edge_is_def)
  have "mset (map pn_place (nw_nodes nw)) = mset [0..<2]" using network_parts [OF ok nw] by (simp add: numeral_2_eq_2)
  from arg_cong [OF this, of size] have "0 < length (nw_nodes nw)" by simp
  from profile_arcs [OF ok nw map_of_SomeD [OF e] this] e nw show ?thesis by blast
qed

end
