(* ===== verification/Profile_Page.thy ===== *)
theory Profile_Page
  imports Profile_Drawing Runs
begin

text \<open>
  The page of a profile (\<open>monitoring/web/src/resource.ts\<close>): one row for each function with two
  coloured squares and its name, the arcs of the edges beside them, a zoom behaviour, and a tooltip
  that follows the squares under the mouse.  The colour scale of d3, the transform that its zoom
  behaviour reports and the number texts of the language are arguments.
\<close>

subsection \<open>State\<close>

record profile_row =
  pr_top :: rat
  pr_fills :: "string \<times> string" \<comment> \<open>of the square for the time and of the one for the self time\<close>
  pr_text :: string

record 'z profile_page =
  pp_network :: pprof_network
  pp_rows :: "profile_row list"
  pp_arcs :: "edge_arc list"
  pp_dim :: "bool list" \<comment> \<open>the arcs with the opacity .3\<close>
  pp_tip :: "(string list \<times> rat \<times> rat) option" \<comment> \<open>content and place of \<open>pprof-tooltip\<close>\<close>
  pp_tip_shown :: bool \<comment> \<open>\<open>style.css\<close> hides it at first\<close>
  pp_nodeTransform :: "'z option"
  pp_edgeTransform :: "'z option"

definition page_edges :: "'z profile_page \<Rightarrow> pprof_edge list" where
  "page_edges p = map snd (nw_edges (pp_network p))"

subsection \<open>Operations\<close>

definition draw_node :: "(js_num \<Rightarrow> string) \<Rightarrow> nat \<Rightarrow> pprof_node \<Rightarrow> profile_row" where
  "draw_node colorScale i d =
     \<lparr> pr_top = of_nat i * 30, pr_fills = (colorScale (pn_timePercentage d), colorScale (pn_selfTimePercentage d)),
       pr_text = pprof_label (pn_name d) \<rparr>"

fun each_edge :: "('e \<Rightarrow> 'r js_result) \<Rightarrow> 'e list \<Rightarrow> 'r list js_result" where
  \<comment> \<open>a function of a d3 selection, called for each datum in order\<close>
  "each_edge f [] = Inr []"
| "each_edge f (e # es) = bind_result (f e) (\<lambda>r. bind_result (each_edge f es) (\<lambda>rs. Inr (r # rs)))"

definition visualizePProfNetwork :: "(js_num \<Rightarrow> string) \<Rightarrow> pprof_network \<Rightarrow> 'z profile_page js_result" where
  "visualizePProfNetwork colorScale network =
     bind_result (each_edge (draw_edge network) (map snd (nw_edges network))) (\<lambda>arcs.
       Inr \<lparr> pp_network = network,
             pp_rows = map (\<lambda>(i, d). draw_node colorScale i d) (enumerate 0 (nw_nodes network)),
             pp_arcs = arcs, pp_dim = replicate (length arcs) False, pp_tip = None, pp_tip_shown = False,
             pp_nodeTransform = None, pp_edgeTransform = None \<rparr>)"

definition getProfilingResult :: "(js_num \<Rightarrow> string) \<Rightarrow> (nat \<times> string) list \<Rightarrow> pprof_sample list \<Rightarrow> 'z profile_page js_result" where
  \<comment> \<open>the response of the server\<close>
  "getProfilingResult colorScale funcs sampled =
     bind_result (pprofDataToNetwork funcs sampled) (visualizePProfNetwork colorScale)"

definition profile_zoom :: "'z \<Rightarrow> 'z profile_page \<Rightarrow> 'z profile_page" where
  "profile_zoom transform p = p\<lparr>pp_nodeTransform := Some transform, pp_edgeTransform := Some transform\<rparr>"

definition profile_showTooltip :: "(js_num \<Rightarrow> string) \<Rightarrow> rat \<Rightarrow> rat \<Rightarrow> pprof_node \<Rightarrow> 'z profile_page \<Rightarrow> 'z profile_page js_result" where
  \<comment> \<open>the arcs that are dim already stay so\<close>
  "profile_showTooltip toString pageX pageY d p =
     bind_result (each_edge (dimmed (pp_network p) d) (page_edges p)) (\<lambda>others.
       Inr (p\<lparr>pp_tip := Some (profile_tooltip toString d, pageX, pageY), pp_tip_shown := True,
              pp_dim := map (\<lambda>(old, new). old \<or> new) (zip (pp_dim p) others)\<rparr>))"

definition profile_hideTooltip :: "'z profile_page \<Rightarrow> 'z profile_page" where
  "profile_hideTooltip p = p\<lparr>pp_tip_shown := False, pp_dim := map (\<lambda>_. False) (pp_dim p)\<rparr>"

subsection \<open>Events\<close>

datatype 'z profile_event =
    SquareOver nat rat rat \<comment> \<open>the mouse enters a square of the row, at a place of the page\<close>
  | SquareOut
  | Zoomed 'z

fun profile_step :: "(js_num \<Rightarrow> string) \<Rightarrow> 'z profile_event \<Rightarrow> 'z profile_page js_result \<Rightarrow> 'z profile_page js_result" where
  "profile_step toString (SquareOver i x y) s =
     bind_result s (\<lambda>p. profile_showTooltip toString x y (nw_nodes (pp_network p) ! i) p)"
| "profile_step toString SquareOut s = bind_result s (\<lambda>p. Inr (profile_hideTooltip p))"
| "profile_step toString (Zoomed t) s = bind_result s (\<lambda>p. Inr (profile_zoom t p))"

fun profile_allowed :: "'z profile_event \<Rightarrow> 'z profile_page js_result \<Rightarrow> bool" where
  \<comment> \<open>only drawn squares have events, and the mouse leaves one before it enters another\<close>
  "profile_allowed (SquareOver i x y) (Inr p) = (i < length (pp_rows p) \<and> \<not> pp_tip_shown p)"
| "profile_allowed SquareOut (Inr p) = pp_tip_shown p"
| "profile_allowed (Zoomed t) (Inr p) = True"
| "profile_allowed _ (Inl e) = False"

subsection \<open>The page of a network\<close>

definition network_ok :: "pprof_network \<Rightarrow> bool" where
  \<comment> \<open>every edge can be drawn, and is dimmed for exactly the functions that are not its ends\<close>
  "network_ok nw \<longleftrightarrow> (\<forall>e \<in> set (map snd (nw_edges nw)). \<exists>arc. draw_edge nw e = Inr arc) \<and>
     (\<forall>e \<in> set (map snd (nw_edges nw)). \<forall>d \<in> set (nw_nodes nw).
        dimmed nw d e = Inr (pn_place d \<noteq> pe_caller e \<and> pn_place d \<noteq> pe_callee e))"

lemma edges_need_nodes:
  assumes "profile_ok (length funcs) ss" "pprofDataToNetwork funcs ss = Inr nw" "(k, e) \<in> set (nw_edges nw)"
  shows "0 < length (nw_nodes nw)"
proof -
  note parts = network_parts [OF assms(1,2)]
  obtain a b where k: "k = getEdgeName a b" using parts assms(3) by fastforce
  have get: "map_get (nw_edges nw) k = Some e" using parts assms(3) by simp
  have "edge_is (call_count a b ss) (call_total a b ss) a b (map_get (nw_edges nw) k)" using parts k by blast
  then have "0 < call_count a b ss" unfolding get edge_is_def option.case by blast
  then have "a < length funcs" using calls_places [OF assms(1)] by blast
  moreover have "mset (map pn_place (nw_nodes nw)) = mset [0..<length funcs]" using parts by blast
  from arg_cong [OF this, of size] have "length (nw_nodes nw) = length funcs" by simp
  ultimately show ?thesis by linarith
qed

lemma network_is_ok:
  assumes "profile_ok (length funcs) ss" "pprofDataToNetwork funcs ss = Inr nw"
  shows "network_ok nw"
proof -
  have "mset (map pn_place (nw_nodes nw)) = mset [0..<length funcs]" using network_parts [OF assms] by blast
  then have dist: "distinct (map pn_place (nw_nodes nw))" using distinct_upt mset_eq_imp_distinct_iff by blast
  have same: "pn_place (nw_nodes nw ! i) = pn_place (nw_nodes nw ! j) \<longleftrightarrow> i = j"
    if "i < length (nw_nodes nw)" "j < length (nw_nodes nw)" for i j
    using that nth_eq_iff_index_eq [OF dist, of i j] by simp
  have arcs: "\<exists>arc. draw_edge nw e = Inr arc" if "(k, e) \<in> set (nw_edges nw)" for k e
    using profile_arcs [OF assms that edges_need_nodes [OF assms that]] by blast
  have dims: "dimmed nw d e = Inr (pn_place d \<noteq> pe_caller e \<and> pn_place d \<noteq> pe_callee e)"
    if e: "(k, e) \<in> set (nw_edges nw)" and d: "d \<in> set (nw_nodes nw)" for k e d
  proof -
    obtain m where m: "m < length (nw_nodes nw)" "d = nw_nodes nw ! m" using d by (auto simp: in_set_conv_nth)
    obtain i j where ij: "i < length (nw_nodes nw)" "j < length (nw_nodes nw)"
      "pn_place (nw_nodes nw ! i) = pe_caller e" "pn_place (nw_nodes nw ! j) = pe_callee e"
      "dimmed nw (nw_nodes nw ! m) e = Inr (m \<noteq> i \<and> m \<noteq> j)"
      using profile_arcs [OF assms e m(1)] by blast
    show ?thesis unfolding m(2) ij(5) using same [OF m(1) ij(1)] same [OF m(1) ij(2)] ij(3,4) by auto
  qed
  have "\<exists>k. (k, e) \<in> set (nw_edges nw)" if "e \<in> set (map snd (nw_edges nw))" for e using that by auto
  then show ?thesis unfolding network_ok_def using arcs dims by blast
qed

lemma each_edge_all:
  assumes "\<forall>e \<in> set es. f e = Inr (g e)"
  shows "each_edge f es = Inr (map g es)"
  using assms by (induction es) simp_all

lemma each_edge_total:
  assumes "\<forall>e \<in> set es. \<exists>r. f e = Inr r"
  shows "\<exists>rs. each_edge f es = Inr rs \<and> length rs = length es"
  using assms by (induction es) auto

definition away :: "pprof_node \<Rightarrow> pprof_edge \<Rightarrow> bool" where
  "away d e \<longleftrightarrow> pn_place d \<noteq> pe_caller e \<and> pn_place d \<noteq> pe_callee e"

definition page_inv :: "(js_num \<Rightarrow> string) \<Rightarrow> 'z profile_page \<Rightarrow> 'z profile_page \<Rightarrow> bool" where
  \<comment> \<open>the page shows what was drawn at first, and the tooltip and the dim arcs belong to one function\<close>
  "page_inv toString p0 p \<longleftrightarrow>
     network_ok (pp_network p) \<and> pp_network p = pp_network p0 \<and> pp_rows p = pp_rows p0 \<and> pp_arcs p = pp_arcs p0 \<and>
     length (pp_rows p) = length (nw_nodes (pp_network p)) \<and> pp_nodeTransform p = pp_edgeTransform p \<and>
     (if pp_tip_shown p
      then \<exists>d \<in> set (nw_nodes (pp_network p)). \<exists>x y. pp_tip p = Some (profile_tooltip toString d, x, y) \<and>
             pp_dim p = map (away d) (page_edges p)
      else pp_dim p = map (\<lambda>_. False) (page_edges p))"

lemma draw_page:
  assumes "network_ok nw"
  shows "\<exists>p0. visualizePProfNetwork colorScale nw = Inr p0 \<and> pp_network p0 = nw \<and> page_inv toString p0 p0 \<and>
    pp_rows p0 = map (\<lambda>(i, d). draw_node colorScale i d) (enumerate 0 (nw_nodes nw)) \<and>
    each_edge (draw_edge nw) (page_edges p0) = Inr (pp_arcs p0)"
proof -
  have "\<forall>e \<in> set (map snd (nw_edges nw)). \<exists>arc. draw_edge nw e = Inr arc" using assms unfolding network_ok_def by blast
  from each_edge_total [OF this] obtain arcs
    where "each_edge (draw_edge nw) (map snd (nw_edges nw)) = Inr arcs" "length arcs = length (nw_edges nw)"
    by auto
  then show ?thesis using assms
    by (simp add: visualizePProfNetwork_def page_inv_def page_edges_def map_replicate_const)
qed

interpretation pp: kept_invariant profile_allowed "profile_step toString" "\<lambda>s. \<exists>p. s = Inr p \<and> page_inv toString p0 p"
  for toString and p0 :: "'z profile_page"
proof unfold_locales
  fix s and e :: "'z profile_event"
  assume "\<exists>p. s = Inr p \<and> page_inv toString p0 p" and allowed: "profile_allowed e s"
  then obtain p where s: "s = Inr p" and inv: "page_inv toString p0 p" by blast
  have ok: "network_ok (pp_network p0)" "length (pp_rows p0) = length (nw_nodes (pp_network p0))"
    using inv by (auto simp: page_inv_def)
  show "\<exists>p. profile_step toString e s = Inr p \<and> page_inv toString p0 p"
  proof (cases e)
    case (SquareOver i x y)
    let ?d = "nw_nodes (pp_network p) ! i"
    have i: "?d \<in> set (nw_nodes (pp_network p))" and hidden: "\<not> pp_tip_shown p"
      using allowed inv by (auto simp: s SquareOver page_inv_def)
    have "each_edge (dimmed (pp_network p) ?d) (page_edges p) = Inr (map (away ?d) (page_edges p))"
      using inv i unfolding page_inv_def network_ok_def page_edges_def away_def by (intro each_edge_all) blast
    moreover have "map (\<lambda>(old, new). old \<or> new) (zip (pp_dim p) (map (away ?d) (page_edges p))) = map (away ?d) (page_edges p)"
      using inv hidden by (simp add: page_inv_def map_zip_map zip_map1 zip_map2 zip_same_conv_map comp_def)
    ultimately show ?thesis using inv i ok by (simp add: s SquareOver profile_showTooltip_def page_inv_def page_edges_def) blast
  next
    case SquareOut
    have "map (\<lambda>_. False) (pp_dim p) = map (\<lambda>_. False) (page_edges p)"
      using inv by (auto simp: page_inv_def split: if_splits)
    then show ?thesis using SquareOut inv ok by (simp add: s profile_hideTooltip_def page_inv_def page_edges_def)
  next
    case (Zoomed t)
    then show ?thesis using inv by (auto simp: s profile_zoom_def page_inv_def page_edges_def)
  qed
qed

subsection \<open>Property\<close>

text \<open>
  A well formed profile is always drawn, one row of 30 pixels for each function.  Whatever squares
  the mouse has visited and however the page was zoomed, no handler fails, the rows and the arcs are
  moved together, and a tooltip that is shown has the texts of one function, while exactly the arcs
  of the calls are dim in which this function takes no part; without a tooltip no arc is dim.
\<close>

theorem profile_page_hover:
  assumes "profile_ok (length funcs) ss"
  shows "\<exists>p0 :: 'z profile_page. getProfilingResult colorScale funcs ss = Inr p0 \<and> length (pp_rows p0) = length funcs \<and>
    (\<forall>i < length funcs. pr_top (pp_rows p0 ! i) = of_nat i * 30 \<and>
       pr_text (pp_rows p0 ! i) = pprof_label (pn_name (nw_nodes (pp_network p0) ! i))) \<and>
    (\<forall>s. run profile_allowed (profile_step toString) (Inr p0) s \<longrightarrow> (\<exists>p. s = Inr p \<and>
       pp_rows p = pp_rows p0 \<and> pp_arcs p = pp_arcs p0 \<and> pp_nodeTransform p = pp_edgeTransform p \<and>
       (if pp_tip_shown p
        then \<exists>d \<in> set (nw_nodes (pp_network p0)). \<exists>x y. pp_tip p = Some (profile_tooltip toString d, x, y) \<and>
          pp_dim p = map (\<lambda>(k, e). pn_place d \<notin> {pe_caller e, pe_callee e}) (nw_edges (pp_network p0))
        else \<forall>dim \<in> set (pp_dim p). \<not> dim)))"
proof -
  obtain nw where nw: "pprofDataToNetwork funcs ss = Inr nw" by (rule profile_network [OF assms])
  obtain p0 :: "'z profile_page" where p0: "visualizePProfNetwork colorScale nw = Inr p0" "pp_network p0 = nw" "page_inv toString p0 p0"
      "pp_rows p0 = map (\<lambda>(i, d). draw_node colorScale i d) (enumerate 0 (nw_nodes nw))"
    using draw_page [OF network_is_ok [OF assms nw]] by metis
  have "mset (map pn_place (nw_nodes nw)) = mset [0..<length funcs]" using network_parts [OF assms nw] by blast
  from arg_cong [OF this, of size] have len: "length (nw_nodes nw) = length funcs" by simp
  have dims: "map (away d) (page_edges p) = map (\<lambda>(k, e). pn_place d \<notin> {pe_caller e, pe_callee e}) (nw_edges (pp_network p))"
    for d and p :: "'z profile_page"
    by (auto simp: page_edges_def away_def)
  show ?thesis
  proof (rule exI [of _ p0], intro conjI allI impI)
    show "getProfilingResult colorScale funcs ss = Inr p0" by (simp add: getProfilingResult_def nw p0(1))
    fix s
    assume "run profile_allowed (profile_step toString) (Inr p0) s"
    from pp.run_keeps [OF this] p0(3) obtain p where s: "s = Inr p" and inv: "page_inv toString p0 p" by blast
    show "\<exists>p. s = Inr p \<and> pp_rows p = pp_rows p0 \<and> pp_arcs p = pp_arcs p0 \<and> pp_nodeTransform p = pp_edgeTransform p \<and>
       (if pp_tip_shown p
        then \<exists>d \<in> set (nw_nodes (pp_network p0)). \<exists>x y. pp_tip p = Some (profile_tooltip toString d, x, y) \<and>
          pp_dim p = map (\<lambda>(k, e). pn_place d \<notin> {pe_caller e, pe_callee e}) (nw_edges (pp_network p0))
        else \<forall>dim \<in> set (pp_dim p). \<not> dim)"
      using inv dims [of _ p] by (intro exI [of _ p]) (auto simp: s page_inv_def split: if_splits)
  qed (simp_all add: p0(2,4) len draw_node_def nth_enumerate_eq)
qed

theorem profile_page_hover_witness:
  "\<exists>p0 :: unit profile_page. getProfilingResult (\<lambda>_. ''orange'') [(1, ''main''), (2, ''tick'')] sample_profile = Inr p0 \<and> length (pp_rows p0) = 2"
proof -
  have "profile_ok (length [(1 :: nat, ''main''), (2, ''tick'')]) sample_profile"
    by (simp add: profile_ok_def sample_profile_def)
  from profile_page_hover [OF this, where 'z = unit] show ?thesis by (simp add: numeral_2_eq_2) blast
qed

end
