(* ===== verification/Spec2Isabelle.thy ===== *)
theory Spec2Isabelle
  imports Bar_Gestures Charts Daisen_App Widget_Link Widget_Save Monitor_App Progress_Elements Sankey_Drawing Profile_Page
begin

text \<open>
  The two web clients of the Akita computer architecture simulator, modelled from their sources.
  \<^emph>\<open>Daisen\<close> (\<open>src/daisen/static/src\<close>) shows the trace of a finished simulation; the \<^emph>\<open>monitor\<close>
  (\<open>src/monitoring/web/src\<close>) watches a simulation that is running.  Both ask a server written in
  Go, draw with d3 and keep their state in objects that event handlers change.

  \<^bold>\<open>How the code is modelled.\<close>  A class is a record, its methods are functions that take and
  return the record; an exception is the left summand of \<open>js_result\<close> (theory \<open>Js_Collections\<close>).
  A number is a \<open>js_num\<close> (\<open>Js_Number\<close>): a rational, an infinity, \<open>NaN\<close> or \<open>undefined\<close>, with the
  arithmetic and the comparisons of the language but without the rounding of floating point and
  without the negative zero.  \<open>Map\<close> objects are association lists in insertion order and satisfy
  the locale \<open>ordered_map\<close>.  Tasks, which several views share and change, are references into a
  store (\<open>Task_Model\<close>).  An asynchronous method is split where it waits for a response; the
  response is an argument of the next part.  Timers of the browser are part of the state
  (\<open>Intervals\<close>, \<open>Mouse_Events\<close>).  Sequences of events are the relation \<open>run\<close> of theory \<open>Runs\<close>,
  whose locale \<open>kept_invariant\<close> carries invariants along them.

  \<^bold>\<open>What is an argument.\<close>  Code outside the repository is an argument with its documented behaviour
  as a hypothesis: the linear scale (\<open>linear_scale\<close>) and the data join of d3 (\<open>keyed_join\<close>), the
  palette of chroma-js, regular expressions, the conversion between numbers and texts, the sizes
  that the browser gives elements, and the responses of the server.  Concrete instances
  (\<open>lerp\<close>, \<open>list_join\<close>, \<open>sample_palette\<close>) show that the hypotheses can hold.

  \<^bold>\<open>Daisen.\<close>
  \<^item> \<open>Task_Model\<close>: \<open>task.ts\<close>.
  \<^item> \<open>Y_Index\<close>: \<open>taskyindexassigner.js\<close>, the rows of overlapping tasks.  No two tasks of a row
    overlap, no assignment needs fewer rows, the search ends.  The locale \<open>row_assigner\<close> is what
    the views rely on.
  \<^item> \<open>Task_Renderer\<close>, \<open>Bar_Gestures\<close>: \<open>taskrenderer.js\<close>, the bars with their tags, highlighting,
    tooltip, clicks and drags.
  \<^item> \<open>Task_View\<close>: \<open>taskview.ts\<close> and \<open>xaxisdrawer.ts\<close>, a task with its parent and its subtasks.
  \<^item> \<open>Component_View\<close>, \<open>Component_Layout\<close>, \<open>Component_Drawing\<close>: \<open>componentview.ts\<close>, the tree of the
    tasks of a component, their levels and boxes.  The boxes are nested, disjoint and on the time
    axis; rendering never fails.  The recursion over the levels has the number of tasks as its
    fuel; a chain of parents without repetition is not longer, and the theorems show that the fuel
    suffices, also for cyclic parent links.
  \<^item> \<open>Task_Colors\<close>: \<open>taskcolorcoder.ts\<close> and \<open>taskcolorlegend.ts\<close>.
  \<^item> \<open>Smart_Value\<close>: \<open>smartvalue.ts\<close>, numbers as texts.
  \<^item> \<open>Mouse_Events\<close>: \<open>mouseeventhandler.ts\<close>, panning and zooming.  The view is the locale
    \<open>zoom_view\<close>, interpreted by the task page and by the widgets of the dashboard.
  \<^item> \<open>Task_Page\<close>: \<open>taskpage.ts\<close>; \<open>App_Routing\<close>: \<open>app.ts\<close>, the address, the pages and the handlers
    that visits leave behind.
  \<^item> \<open>Widget\<close>, \<open>Dashboard\<close>: \<open>widget.ts\<close> and \<open>dashboard.ts\<close>, the pages of charts.
  \<^item> \<open>Page_Layout\<close>: \<open>dashboardpage.ts\<close>, the toolbar of \<open>dashboard.ts\<close> and the columns of \<open>taskpage.ts\<close>,
    elements that are created once and sized at every layout.  Typing filters once, with the last
    text.
  \<^item> \<open>Widget_Link\<close>: the address behind the title of a widget, read back by \<open>app.ts\<close>.
  \<^item> \<open>Widget_Save\<close>: the button of a widget that saves its drawing.
  \<^item> \<open>Daisen_App\<close>: the whole of Daisen, \<open>app.ts\<close> with both pages in one window.  The page that is shown
    is always laid out for the window as it is, and the composition refines \<open>App_Routing\<close>.
  \<^item> \<open>Charts\<close>: \<open>taskchart.js\<close> and \<open>ipschart.js\<close>, which no page uses, after any number of updates.

  \<^bold>\<open>Monitor.\<close>
  \<^item> \<open>Component_Tree\<close>: \<open>component_tree.ts\<close>.  The tree refines the set of the dotted prefixes of the
    component names.
  \<^item> \<open>Component_Details\<close>, \<open>Detail_Table\<close>: \<open>gotypes.ts\<close> and the detail table of \<open>component.ts\<close>.  Rows
    are addressed by their place in the nested tables; expanding, collapsing, flags, open requests
    and responses are events.  Every row asks for its own field, and well-typed responses never
    fail.
  \<^item> \<open>Sankey\<close>, \<open>Sankey_Drawing\<close>: the traffic diagram of \<open>component.ts\<close>, its totals, links, ports,
    boxes, bands and labels.  Drawing fails exactly for circles.
  \<^item> \<open>Right_Pane\<close>: \<open>hang_analyzer.ts\<close> and the refreshing of \<open>component.ts\<close>, which share a pane.  Both
    satisfy the locale \<open>refresher\<close> of \<open>Intervals\<close>; the live timers are those of the running
    objects.
  \<^item> \<open>Ui_Manager\<close>: \<open>ui_manager.ts\<close>, the panes and their dividers.
  \<^item> \<open>Monitor_Widgets\<close>: \<open>monitor.ts\<close> and the flags of \<open>component.ts\<close>.  Widgets, elements and timers
    correspond.
  \<^item> \<open>Progress_Bars\<close>: the manager of \<open>progress_bar.ts\<close>.  The elements follow the responses and the
    panes settle.  \<open>Progress_Elements\<close>: its bars and pies, which refine what the manager sees.
  \<^item> \<open>Profiler\<close>, \<open>Profile_Drawing\<close>, \<open>Profile_Page\<close>: \<open>resource.ts\<close>, the nodes and edges of a profile,
    their drawing, and the page with its tooltip and zoom.
  \<^item> \<open>Monitor_App\<close>: \<open>index.ts\<close> and \<open>engine_control.ts\<close>, the whole monitor.  The parts above share one
    \<open>UIManager\<close> and the timers of the browser; their invariants are stated with the timers of the
    other parts as a frame, so they compose.  In every reachable state each timer has one owner, the
    panes show the state and fill the window, and a flag starts the polling of its own field.

  \<^bold>\<open>What is not modelled.\<close>  The Go simulator and its servers; classes and styles that carry no
  state; the axes, transitions and zoom behaviour of d3 and the layout of d3-sankey, which is an argument;
  \<open>index.ts\<close> of Daisen, which only creates the application; the bundled output.
\<close>

end
